(* ===== verification/Prelude.thy ===== *)
theory Prelude imports Main "HOL-Library.List_Lexorder" "HOL-Library.Char_ord" "HOL-Library.Word" begin

text \<open>
  Shared vocabulary of the development: the types every component uses (bytes and strings,
  machine integers, results), the theorem collections the component proofs are driven by, and
  the functions of Rust's \<^verbatim>\<open>str\<close> and slice API that the sources under
  \<^verbatim>\<open>src/src\<close> call, with the facts about them that several components need.

  A Rust \<^verbatim>\<open>String\<close>, \<^verbatim>\<open>&str\<close>, \<^verbatim>\<open>Bytes\<close> or
  \<^verbatim>\<open>Vec<u8>\<close> is a list of HOL characters, each of which is one 8-bit byte; so
  lengths count bytes, as \<^verbatim>\<open>len()\<close> does, and the lexicographic order of
  \<^verbatim>\<open>List_Lexorder\<close> over \<^verbatim>\<open>Char_ord\<close> is
  \<^verbatim>\<open>String::cmp\<close>.
\<close>

type_synonym bytes = "char list"
type_synonym i8 = "8 word"
type_synonym i64 = "64 word"
type_synonym timestamp = int

named_theorems handler_defs \<open>definitions unfolded when a handler is executed symbolically\<close>
named_theorems frame \<open>what an operation leaves unchanged\<close>
named_theorems text_simps \<open>evaluation of the Rust string functions\<close>

section \<open>Results\<close>

text \<open>\<open>Result<T, E>\<close> is the sum \<open>'e + 'a\<close> with the error on the left.\<close>

abbreviation is_ok :: "'e + 'a \<Rightarrow> bool" where
  "is_ok r \<equiv> \<not> isl r"

definition result_ok :: "'e + 'a \<Rightarrow> 'a option" where
  "result_ok r = (case r of Inl _ \<Rightarrow> None | Inr a \<Rightarrow> Some a)"

lemma result_ok_simps [simp]:
  "result_ok (Inl e) = None" "result_ok (Inr a) = Some a"
  by (simp_all add: result_ok_def)

lemma result_ok_Some_iff [simp]: "result_ok r = Some a \<longleftrightarrow> r = Inr a"
  by (cases r) auto

section \<open>Strings\<close>

definition starts_with :: "string \<Rightarrow> string \<Rightarrow> bool" where
  "starts_with p s \<longleftrightarrow> take (length p) s = p"

lemma starts_with_append [simp]: "starts_with p (p @ s)"
  by (simp add: starts_with_def)

lemma starts_with_iff: "starts_with p s \<longleftrightarrow> (\<exists>r. s = p @ r)"
  by (metis append_eq_conv_conj starts_with_def append_take_drop_id)

lemma starts_with_Nil [simp]: "starts_with [] s"
  by (simp add: starts_with_def)

lemma starts_with_Cons [simp]:
  "starts_with (a # p) [] \<longleftrightarrow> False"
  "starts_with (a # p) (b # s) \<longleftrightarrow> a = b \<and> starts_with p s"
  by (auto simp: starts_with_def)

text \<open>\<open>str::split(char)\<close>: always at least one piece.\<close>

fun split_on :: "char \<Rightarrow> string \<Rightarrow> string list" where
  "split_on c [] = [[]]"
| "split_on c (x # xs) =
     (if x = c then [] # split_on c xs
      else (case split_on c xs of [] \<Rightarrow> [[x]] | s # ss \<Rightarrow> (x # s) # ss))"

text \<open>\<open>[String]::join(sep)\<close>.\<close>

fun join_with :: "string \<Rightarrow> string list \<Rightarrow> string" where
  "join_with sep [] = []"
| "join_with sep [s] = s"
| "join_with sep (s # t # ss) = s @ sep @ join_with sep (t # ss)"

lemma split_on_nonempty [simp]: "split_on c s \<noteq> []"
  by (cases s) (auto split: list.splits)

lemma split_on_no_sep: "p \<in> set (split_on c s) \<Longrightarrow> c \<notin> set p"
  by (induction s arbitrary: p rule: split_on.induct) (auto split: list.splits if_splits)

lemma split_on_append_sep:
  "c \<notin> set a \<Longrightarrow> split_on c (a @ c # s) = a # split_on c s"
  by (induction a) auto

lemma split_on_none: "c \<notin> set a \<Longrightarrow> split_on c a = [a]"
  by (induction a) auto

lemma join_split_on [simp]: "join_with [c] (split_on c s) = s"
proof (induction s)
  case (Cons x xs)
  show ?case
  proof (cases "split_on c xs")
    case (Cons p ps)
    with Cons.IH show ?thesis by (cases ps) auto
  qed simp
qed simp

lemma split_on_join:
  assumes "ss \<noteq> []" and "\<forall>s \<in> set ss. c \<notin> set s"
  shows "split_on c (join_with [c] ss) = ss"
  using assms
proof (induction "[c]" ss rule: join_with.induct)
  case (2 s)
  then show ?case by (simp add: split_on_none)
next
  case (3 s t ss)
  then show ?case by (simp add: split_on_append_sep)
qed simp

text \<open>\<open>str::trim\<close> and \<open>str::trim_start_matches\<close>. White space is the ASCII part of
  Unicode's: the strings that are trimmed have passed \<open>HeaderValue::to_str\<close>, which only lets
  visible ASCII through.\<close>

definition is_ws :: "char \<Rightarrow> bool" where
  "is_ws c \<longleftrightarrow> c = CHR '' '' \<or> (of_char c \<in> {9 .. 13 :: nat})"

definition trim :: "string \<Rightarrow> string" where
  "trim s = rev (dropWhile is_ws (rev (dropWhile is_ws s)))"

function trim_start_matches :: "string \<Rightarrow> string \<Rightarrow> string" where
  "trim_start_matches p s =
     (if p \<noteq> [] \<and> starts_with p s then trim_start_matches p (drop (length p) s) else s)"
  by pat_completeness auto
termination
  by (relation "measure (\<lambda>(p, s). length s)") (auto simp: starts_with_iff)

declare trim_start_matches.simps [simp del]

lemma trim_start_matches_none: "\<not> starts_with p s \<Longrightarrow> trim_start_matches p s = s"
  by (simp add: trim_start_matches.simps)

lemma trim_start_matches_once:
  "p \<noteq> [] \<Longrightarrow> \<not> starts_with p s \<Longrightarrow> trim_start_matches p (p @ s) = s"
  by (simp add: trim_start_matches.simps [of p "p @ s"] trim_start_matches_none)

lemma trim_id: "s = [] \<or> \<not> is_ws (hd s) \<and> \<not> is_ws (last s) \<Longrightarrow> trim s = s"
proof -
  assume s: "s = [] \<or> \<not> is_ws (hd s) \<and> \<not> is_ws (last s)"
  have "dropWhile is_ws s = s" and "dropWhile is_ws (rev s) = rev s"
    using s by (auto simp: dropWhile_eq_self_iff hd_rev)
  then show ?thesis by (simp add: trim_def)
qed

text \<open>ASCII lower case, byte by byte (\<open>to_ascii_lowercase\<close>; also \<open>to_lowercase\<close>
  on the ASCII names it is applied to).\<close>

definition lower_char :: "char \<Rightarrow> char" where
  "lower_char c =
     (if of_char c \<in> {65 .. 90 :: nat} then char_of (of_char c + 32 :: nat) else c)"

definition to_lower :: "string \<Rightarrow> string" where
  "to_lower = map lower_char"

lemma to_lower_append [simp]: "to_lower (a @ b) = to_lower a @ to_lower b"
  by (simp add: to_lower_def)

lemma length_to_lower [simp]: "length (to_lower s) = length s"
  by (simp add: to_lower_def)

end
