(* ===== verification/Http.thy ===== *)
theory Http imports Prelude begin

text \<open>
  The HTTP values the handlers of \<^verbatim>\<open>src/src/s3\<close> produce: the status codes they name,
  responses, and \<open>Response::builder()\<close>. The builder belongs to the \<^verbatim>\<open>http\<close>
  crate; which header values it accepts is the parameter \<open>header_ok\<close>, and a builder that was
  given a value it does not accept yields an error, as documented there. What the sources do with
  that error (\<open>unwrap_or_default\<close> or \<open>unwrap\<close>) is modelled.
\<close>

datatype status =
    OK | NO_CONTENT | TEMPORARY_REDIRECT | BAD_REQUEST | UNAUTHORIZED | NOT_FOUND
  | METHOD_NOT_ALLOWED | INTERNAL_SERVER_ERROR | NOT_IMPLEMENTED | SERVICE_UNAVAILABLE

text \<open>A body is given whole, or is the stream of an IPFS \<open>cat\<close>: chunks and, when reading
  fails, errors.\<close>

datatype body = Full bytes | Streamed "(string + bytes) list"

abbreviation no_body :: body where
  "no_body \<equiv> Full []"

type_synonym header = "string \<times> string"

record response =
  resp_status :: status
  resp_headers :: "header list"
  resp_body :: body

datatype http_error = HttpError

definition default_response :: response where
  "default_response = \<lparr>resp_status = OK, resp_headers = [], resp_body = no_body\<rparr>"

definition build ::
  "(string \<Rightarrow> bool) \<Rightarrow> status \<Rightarrow> header list \<Rightarrow> body \<Rightarrow> http_error + response" where
  "build header_ok st hs b =
     (if list_all (\<lambda>(_, v). header_ok v) hs
      then Inr \<lparr>resp_status = st, resp_headers = hs, resp_body = b\<rparr>
      else Inl HttpError)"

definition unwrap_or_default :: "http_error + response \<Rightarrow> response" where
  "unwrap_or_default r = (case r of Inl _ \<Rightarrow> default_response | Inr x \<Rightarrow> x)"

text \<open>\<open>HeaderMap::get\<close> on a response: the first value under a name.\<close>

definition header_get :: "string \<Rightarrow> response \<Rightarrow> string option" where
  "header_get n r = map_of (resp_headers r) n"

text \<open>How a handler ends: with a response, with an \<open>Err(StatusCode)\<close>, or in a panic.\<close>

datatype failure = Status status | Panicked

type_synonym handler = "failure + response"

text \<open>What the framework sends for a handler's result; a panic closes the connection.\<close>

fun into_response :: "handler \<Rightarrow> response option" where
  "into_response (Inr r) = Some r"
| "into_response (Inl (Status st)) = Some \<lparr>resp_status = st, resp_headers = [], resp_body = no_body\<rparr>"
| "into_response (Inl Panicked) = None"

fun sent_status :: "handler \<Rightarrow> status option" where
  "sent_status (Inr r) = Some (resp_status r)"
| "sent_status (Inl (Status st)) = Some st"
| "sent_status (Inl Panicked) = None"

lemma sent_status_into_response: "sent_status h = map_option resp_status (into_response h)"
  by (cases h rule: into_response.cases) auto

lemma build_no_headers [simp]:
  "build ok st [] b = Inr \<lparr>resp_status = st, resp_headers = [], resp_body = b\<rparr>"
  by (simp add: build_def)

lemma build_ok:
  "\<forall>(k, v) \<in> set hs. ok v \<Longrightarrow>
     build ok st hs b = Inr \<lparr>resp_status = st, resp_headers = hs, resp_body = b\<rparr>"
  by (auto simp: build_def list_all_iff)

lemma unwrap_or_default_simps [simp]:
  "unwrap_or_default (Inr r) = r" "unwrap_or_default (Inl e) = default_response"
  by (simp_all add: unwrap_or_default_def)

lemma unwrap_build_status:
  "resp_status (unwrap_or_default (build ok st hs b)) \<in> {st, OK}"
  by (auto simp: build_def default_response_def)

end
