(* ===== verification/Numbers.thy ===== *)
theory Numbers imports Prelude begin

text \<open>
  The parts of Rust's standard library that turn bytes into numbers: \<open>usize::from_str_radix\<close>
  on a 64-bit target (used by \<^verbatim>\<open>src/src/s3/authorization.rs\<close> for the chunk size),
  \<open>i8::from_str\<close> (used through \<open>DisplayFromStr\<close> in
  \<^verbatim>\<open>src/src/s3/put_object.rs\<close> for the part number) and \<open>str::from_utf8\<close>, with the
  signed order of \<open>i8\<close>. \<open>hex_of_nat\<close> prints a number the way an S3 client does.
\<close>

datatype parse_int_error = Empty | InvalidDigit | PosOverflow | NegOverflow

definition byte :: "char \<Rightarrow> nat" where
  "byte c = of_char c"

definition usize_max :: nat where
  "usize_max = 2 ^ 64 - 1"

definition isize_max :: nat where
  "isize_max = 2 ^ 63 - 1"

text \<open>\<open>char::to_digit(radix)\<close>, for radix at most 36.\<close>

definition to_digit :: "nat \<Rightarrow> char \<Rightarrow> nat option" where
  "to_digit radix c =
     (let b = byte c;
          d = (if b \<in> {48 .. 57} then b - 48
               else if b \<in> {65 .. 90} then b - 55
               else if b \<in> {97 .. 122} then b - 87
               else radix)
      in if d < radix then Some d else None)"

text \<open>The digit loop with checked arithmetic: an invalid digit is reported before an overflow at
  the same position. \<open>hi\<close> is the largest magnitude the type holds.\<close>

fun parse_digits :: "nat \<Rightarrow> nat \<Rightarrow> parse_int_error \<Rightarrow> nat \<Rightarrow> string \<Rightarrow> parse_int_error + nat" where
  "parse_digits radix hi ovf acc [] = Inr acc"
| "parse_digits radix hi ovf acc (c # cs) =
     (case to_digit radix c of
        None \<Rightarrow> Inl InvalidDigit
      | Some d \<Rightarrow>
          if radix * acc + d \<le> hi then parse_digits radix hi ovf (radix * acc + d) cs
          else Inl ovf)"

definition usize_from_str_radix :: "string \<Rightarrow> nat \<Rightarrow> parse_int_error + nat" where
  "usize_from_str_radix s radix =
     (if s = [] then Inl Empty
      else if s = ''+'' \<or> s = ''-'' then Inl InvalidDigit
      else if hd s = CHR ''+'' then parse_digits radix usize_max PosOverflow 0 (tl s)
      else parse_digits radix usize_max PosOverflow 0 s)"

definition i8_from_str :: "string \<Rightarrow> parse_int_error + i8" where
  "i8_from_str s =
     (if s = [] then Inl Empty
      else if s = ''+'' \<or> s = ''-'' then Inl InvalidDigit
      else if hd s = CHR ''+'' then map_sum id of_nat (parse_digits 10 127 PosOverflow 0 (tl s))
      else if hd s = CHR ''-''
           then map_sum id (\<lambda>n. - of_nat n) (parse_digits 10 128 NegOverflow 0 (tl s))
      else map_sum id of_nat (parse_digits 10 127 PosOverflow 0 s))"

section \<open>UTF-8 validity\<close>

definition is_cont :: "char \<Rightarrow> bool" where
  "is_cont c \<longleftrightarrow> byte c \<in> {0x80 .. 0xBF}"

fun utf8_valid :: "bytes \<Rightarrow> bool" where
  "utf8_valid [] = True"
| "utf8_valid (a # s) =
     (if byte a < 0x80 then utf8_valid s
      else if byte a \<in> {0xC2 .. 0xDF} then
        (case s of b # t \<Rightarrow> is_cont b \<and> utf8_valid t | _ \<Rightarrow> False)
      else if byte a \<in> {0xE0 .. 0xEF} then
        (case s of
           b # c # t \<Rightarrow>
             (if byte a = 0xE0 then byte b \<in> {0xA0 .. 0xBF}
              else if byte a = 0xED then byte b \<in> {0x80 .. 0x9F}
              else is_cont b) \<and> is_cont c \<and> utf8_valid t
         | _ \<Rightarrow> False)
      else if byte a \<in> {0xF0 .. 0xF4} then
        (case s of
           b # c # d # t \<Rightarrow>
             (if byte a = 0xF0 then byte b \<in> {0x90 .. 0xBF}
              else if byte a = 0xF4 then byte b \<in> {0x80 .. 0x8F}
              else is_cont b) \<and> is_cont c \<and> is_cont d \<and> utf8_valid t
         | _ \<Rightarrow> False)
      else False)"

lemma utf8_valid_ascii: "\<forall>c \<in> set s. byte c < 0x80 \<Longrightarrow> utf8_valid s"
  by (induction s) auto

section \<open>Signed order on \<open>i8\<close>\<close>

text \<open>The order of \<open>'a word\<close> in HOL is unsigned; Rust's on \<open>i8\<close> is signed. Part
  numbers are compared through this wrapper.\<close>

datatype part_key = Part (part_i8: i8)

instantiation part_key :: linorder
begin

definition less_eq_part_key :: "part_key \<Rightarrow> part_key \<Rightarrow> bool" where
  "p \<le> q \<longleftrightarrow> sint (part_i8 p) \<le> sint (part_i8 q)"

definition less_part_key :: "part_key \<Rightarrow> part_key \<Rightarrow> bool" where
  "p < q \<longleftrightarrow> sint (part_i8 p) < sint (part_i8 q)"

instance
proof
  fix p q :: part_key
  assume "p \<le> q" and "q \<le> p"
  then have "sint (part_i8 p) = sint (part_i8 q)"
    by (simp add: less_eq_part_key_def)
  then have "part_i8 p = part_i8 q"
    by (rule signed_word_eqI [where 'a = int])
  then show "p = q" by (rule part_key.expand)
qed (auto simp: less_eq_part_key_def less_part_key_def)

end

section \<open>Printing in base 16 and reading it back\<close>

definition hex_digit :: "nat \<Rightarrow> char" where
  "hex_digit d = (if d < 10 then char_of (48 + d) else char_of (87 + d))"

fun hex_of_nat :: "nat \<Rightarrow> string" where
  "hex_of_nat n = (if n < 16 then [hex_digit n] else hex_of_nat (n div 16) @ [hex_digit (n mod 16)])"

declare hex_of_nat.simps [simp del]

lemma byte_hex_digit: "d < 16 \<Longrightarrow> byte (hex_digit d) = (if d < 10 then 48 + d else 87 + d)"
  by (simp add: byte_def hex_digit_def)

lemma to_digit_hex_digit: "d < 16 \<Longrightarrow> to_digit 16 (hex_digit d) = Some d"
  by (auto simp: to_digit_def Let_def byte_hex_digit)

lemma parse_digits_append:
  "parse_digits r hi e acc (s @ t) =
     (case parse_digits r hi e acc s of Inl x \<Rightarrow> Inl x | Inr a \<Rightarrow> parse_digits r hi e a t)"
  by (induction s arbitrary: acc) (auto split: option.splits)

lemma parse_digits_hex: "n \<le> hi \<Longrightarrow> parse_digits 16 hi e 0 (hex_of_nat n) = Inr n"
proof (induction n rule: hex_of_nat.induct)
  case (1 n)
  show ?case
  proof (cases "n < 16")
    case True
    with 1 show ?thesis by (simp add: hex_of_nat.simps [of n] to_digit_hex_digit)
  next
    case False
    with 1 have "parse_digits 16 hi e 0 (hex_of_nat (n div 16)) = Inr (n div 16)"
      by (meson div_le_dividend le_trans)
    with False 1 show ?thesis
      by (simp add: hex_of_nat.simps [of n] parse_digits_append to_digit_hex_digit)
  qed
qed

lemma hex_of_nat_chars: "c \<in> set (hex_of_nat n) \<Longrightarrow> \<exists>d < 16. c = hex_digit d"
proof (induction n rule: hex_of_nat.induct)
  case (1 n)
  show ?case
  proof (cases "n < 16 \<or> c \<notin> set (hex_of_nat (n div 16))")
    case True
    with "1.prems" have "c = hex_digit (n mod 16)"
      by (auto simp: hex_of_nat.simps [of n] split: if_splits)
    then show ?thesis by (intro exI [of _ "n mod 16"]) simp
  next
    case False
    with 1 show ?thesis by blast
  qed
qed

lemma hex_of_nat_nonempty [simp]: "hex_of_nat n \<noteq> []"
  by (subst hex_of_nat.simps) simp

lemma hex_digit_plain:
  assumes "d < 16"
  shows "byte (hex_digit d) < 0x80" and "hex_digit d \<noteq> CHR '';''"
    and "hex_digit d \<noteq> CHR ''+''" and "hex_digit d \<noteq> CHR ''-''"
proof -
  have b: "byte (hex_digit d) \<in> {48 .. 57} \<union> {97 .. 102}"
    using assms by (auto simp: byte_hex_digit)
  then show "byte (hex_digit d) < 0x80" by auto
  have "byte (CHR '';'') = 59" "byte (CHR ''+'') = 43" "byte (CHR ''-'') = 45"
    by (simp_all add: byte_def)
  with b show "hex_digit d \<noteq> CHR '';''" "hex_digit d \<noteq> CHR ''+''" "hex_digit d \<noteq> CHR ''-''"
    by fastforce+
qed

lemma usize_from_hex: "n \<le> usize_max \<Longrightarrow> usize_from_str_radix (hex_of_nat n) 16 = Inr n"
proof -
  assume n: "n \<le> usize_max"
  obtain c cs where cs: "hex_of_nat n = c # cs"
    by (cases "hex_of_nat n") auto
  then obtain d where "d < 16" and "c = hex_digit d"
    using hex_of_nat_chars [of c n] by auto
  then have "c \<noteq> CHR ''+''" "c \<noteq> CHR ''-''"
    using hex_digit_plain(3,4) [of d] by simp_all
  moreover have "parse_digits 16 usize_max PosOverflow 0 (c # cs) = Inr n"
    using parse_digits_hex [OF n] cs by metis
  ultimately show ?thesis
    by (simp only: usize_from_str_radix_def cs) simp
qed

lemma usize_from_str_radix_bound: "usize_from_str_radix s r = Inr n \<Longrightarrow> n \<le> usize_max"
proof -
  have "parse_digits r hi e acc t = Inr m \<Longrightarrow> acc \<le> hi \<Longrightarrow> m \<le> hi" for hi e acc t m
    by (induction t arbitrary: acc) (auto split: option.splits if_splits)
  then show "usize_from_str_radix s r = Inr n \<Longrightarrow> n \<le> usize_max"
    by (auto simp: usize_from_str_radix_def split: if_splits)
qed

lemma i8_from_str_value:
  assumes "hd s \<noteq> CHR ''+''" and "hd s \<noteq> CHR ''-''" and "parse_digits 10 127 PosOverflow 0 s = Inr n"
    and "s \<noteq> []"
  shows "i8_from_str s = Inr (of_nat n)"
  using assms by (cases s) (auto simp: i8_from_str_def)

section \<open>Printing in base 10\<close>

fun dec_of_nat :: "nat \<Rightarrow> string" where
  "dec_of_nat n = (if n < 10 then [hex_digit n] else dec_of_nat (n div 10) @ [hex_digit (n mod 10)])"

declare dec_of_nat.simps [simp del]

definition dec_of_int :: "int \<Rightarrow> string" where
  "dec_of_int z = (if z < 0 then CHR ''-'' # dec_of_nat (nat (- z)) else dec_of_nat (nat z))"

lemma to_digit_dec: "d < 10 \<Longrightarrow> to_digit 10 (hex_digit d) = Some d"
  by (auto simp: to_digit_def Let_def byte_hex_digit)

lemma parse_digits_dec: "parse_digits 10 hi e 0 (dec_of_nat n) = (if n \<le> hi then Inr n else Inl e)"
proof (induction n rule: dec_of_nat.induct)
  case (1 n)
  show ?case
  proof (cases "n < 10")
    case True
    then show ?thesis by (simp add: dec_of_nat.simps [of n] to_digit_dec)
  next
    case False
    have "n div 10 \<le> n" by simp
    with False 1 show ?thesis
      by (auto simp: dec_of_nat.simps [of n] parse_digits_append to_digit_dec)
  qed
qed

lemma dec_of_nat_hd: "\<exists>d < 10. hd (dec_of_nat n) = hex_digit d"
proof (induction n rule: dec_of_nat.induct)
  case (1 n)
  have "dec_of_nat (n div 10) \<noteq> []" by (subst dec_of_nat.simps) simp
  with 1 show ?case by (cases "n < 10") (auto simp: dec_of_nat.simps [of n])
qed

text \<open>A printed number is read back exactly when \<open>i8\<close> can hold it.\<close>

lemma i8_from_dec: "i8_from_str (dec_of_nat n) = (if n \<le> 127 then Inr (of_nat n) else Inl PosOverflow)"
proof -
  obtain d where d: "d < 10" "hd (dec_of_nat n) = hex_digit d" using dec_of_nat_hd by blast
  have ne: "dec_of_nat n \<noteq> []" by (subst dec_of_nat.simps) simp
  have "hd (dec_of_nat n) \<noteq> CHR ''+''" "hd (dec_of_nat n) \<noteq> CHR ''-''"
    using hex_digit_plain(3,4) [of d] d by simp_all
  with ne show ?thesis
    using parse_digits_dec [of 127 PosOverflow n] by (auto simp: i8_from_str_def)
qed

text \<open>An \<open>i64\<close> as a header value.\<close>

definition show_i64 :: "i64 \<Rightarrow> string" where
  "show_i64 w = dec_of_int (sint w)"

text \<open>\<open>usize as i64\<close>.\<close>

definition usize_as_i64 :: "nat \<Rightarrow> i64" where
  "usize_as_i64 n = of_nat n"

lemma sint_usize_as_i64: "n \<le> isize_max \<Longrightarrow> sint (usize_as_i64 n) = int n"
  by (simp add: usize_as_i64_def isize_max_def signed_of_nat
      signed_take_bit_int_eq_self)

lemma show_usize_as_i64: "n \<le> isize_max \<Longrightarrow> show_i64 (usize_as_i64 n) = dec_of_nat n"
  by (simp add: show_i64_def dec_of_int_def sint_usize_as_i64)

end
