(* ===== verification/Config.thy ===== *)
theory Config imports Http Numbers begin

text \<open>
  \<^verbatim>\<open>src/src/cli.rs\<close> and the \<open>AuthConfig\<close> of
  \<^verbatim>\<open>src/src/s3/authorization.rs\<close>: the configuration records, the operation modes, what the
  \<open>Debug\<close> implementations print of the credentials, the choice of the command in
  \<^verbatim>\<open>src/src/main.rs\<close> and of the listening socket. Parsing the command line and the
  environment is the \<^verbatim>\<open>conf\<close> crate's and not modelled; \<open>'net\<close> is the type of the
  \<^verbatim>\<open>ipnet\<close> crate's networks.
\<close>

section \<open>Operation modes\<close>

datatype operation_mode = Proxy | Redirect | Auto

definition operation_mode_from_str :: "string \<Rightarrow> string + operation_mode" where
  "operation_mode_from_str s =
     (if s = ''proxy'' then Inr Proxy
      else if s = ''redirect'' then Inr Redirect
      else if s = ''auto'' then Inr Auto
      else Inl (s @ '' is not an operation mode''))"

section \<open>Configuration\<close>

record sqlite_config =
  auto_vacuum :: "string option"
  journal_mode :: "string option"
  synchronous :: "string option"

record 'net experimental_flags =
  trim_empty_folders :: "bool option"
  auto_mime :: "bool option"
  private_cidrs :: "'net list"

record rpc_credentials =
  rpc_username :: string
  rpc_password :: string

record auth_config =
  access_key :: string
  secret_key :: string

text \<open>A \<open>http::Uri\<close> as its public parts.\<close>

record uri_parts =
  uri_scheme :: "string option"
  uri_authority :: "string option"
  uri_path_and_query :: "string option"

datatype client_ip_source = ConnectInfo | HeaderSource string

record 'net run_config =
  bind_address :: string
  port :: "16 word"
  database_path :: string
  rpc_address :: string
  rpc_creds :: "rpc_credentials option"
  gateway :: uri_parts
  mode :: operation_mode
  folder_prefix :: string
  experimental :: "'net experimental_flags"
  ip_extraction :: client_ip_source
  auth :: "auth_config option"
  concurrent_multipart_upload :: nat
  sqlite :: sqlite_config

text \<open>\<open>Option<bool>::unwrap_or_default\<close>.\<close>

definition flag :: "bool option \<Rightarrow> bool" where
  "flag b = (case b of None \<Rightarrow> False | Some v \<Rightarrow> v)"

definition rpc_credentials_pair :: "rpc_credentials \<Rightarrow> string \<times> string" where
  "rpc_credentials_pair c = (rpc_username c, rpc_password c)"

section \<open>Debug output\<close>

text \<open>What \<open>{:?}\<close> shows: a string, or a struct with named fields.\<close>

datatype debug_value = DebugStr string | DebugNone | DebugSome debug_value | DebugStruct string "(string \<times> debug_value) list"

definition debug_option :: "('a \<Rightarrow> debug_value) \<Rightarrow> 'a option \<Rightarrow> debug_value" where
  "debug_option f x = (case x of None \<Rightarrow> DebugNone | Some a \<Rightarrow> DebugSome (f a))"

definition debug_rpc_credentials :: "rpc_credentials \<Rightarrow> debug_value" where
  "debug_rpc_credentials c =
     DebugStruct ''RpcCredentials''
       [(''username'', DebugStr (rpc_username c)), (''password'', DebugStr ''REDACTED'')]"

definition debug_auth_config :: "auth_config \<Rightarrow> debug_value" where
  "debug_auth_config c =
     DebugStruct ''AuthConfig''
       [(''access_key'', DebugStr (access_key c)), (''secret_key'', DebugStr ''REDACTED'')]"

text \<open>The derived \<open>Debug\<close> of \<open>RunConfig\<close> prints every field in order; the fields without
  credentials are printed by their own types' implementations, the parameter \<open>show_field\<close>.\<close>

definition debug_run_config ::
  "(string \<Rightarrow> 'net run_config \<Rightarrow> debug_value) \<Rightarrow> 'net run_config \<Rightarrow> debug_value" where
  "debug_run_config show_field c =
     (let plain = (\<lambda>n. (n, show_field n (c\<lparr>rpc_creds := None, auth := None\<rparr>)))
      in DebugStruct ''RunConfig''
        [plain ''bind'', plain ''port'', plain ''database_path'', plain ''rpc_address'',
         (''rpc_credentials'', debug_option debug_rpc_credentials (rpc_creds c)),
         plain ''gateway'', plain ''mode'', plain ''folder_prefix'', plain ''experimental'',
         plain ''ip_extraction'', (''auth'', debug_option debug_auth_config (auth c)),
         plain ''concurrent_multipart_upload'', plain ''sqlite''])"

section \<open>The command and the listening socket\<close>

datatype 'net cli_operation = Run "'net run_config" | ShowConfig "'net run_config" | Credentials

record 'net cli =
  cli_command :: "'net cli_operation option"
  cli_config :: "'net run_config"

datatype 'net main_action =
    PrintConfig debug_value
  | PrintCredentials string string
  | Serve "'net run_config"

text \<open>\<open>main\<close>: the two random strings are the parameters \<open>r1\<close> and \<open>r2\<close>; upper-casing is on
  alphanumeric ASCII.\<close>

definition upper_char :: "char \<Rightarrow> char" where
  "upper_char c =
     (if of_char c \<in> {97 .. 122 :: nat} then char_of (of_char c - 32 :: nat) else c)"

definition to_upper :: "string \<Rightarrow> string" where
  "to_upper = map upper_char"

definition main_command ::
  "(string \<Rightarrow> 'net run_config \<Rightarrow> debug_value) \<Rightarrow> string \<Rightarrow> string
     \<Rightarrow> 'net cli_operation option \<Rightarrow> 'net run_config \<Rightarrow> 'net main_action" where
  "main_command show_field r1 r2 command config =
     (case command of
        Some (ShowConfig c) \<Rightarrow> PrintConfig (debug_run_config show_field c)
      | Some Credentials \<Rightarrow>
          PrintCredentials (''AUTH_ACCESS_KEY='' @ to_upper (to_upper r1))
            (''AUTH_SECRET_KEY='' @ to_upper (to_upper r2))
      | Some (Run c) \<Rightarrow> Serve c
      | None \<Rightarrow> Serve config)"

text \<open>\<open>RunConfig::listen_socket\<close>. \<open>passed\<close> is the socket the environment passed, if any, and
  whether it could be made non-blocking and converted; \<open>parse_ip\<close> is \<open>IpAddr::from_str\<close>; \<open>bind\<close>
  says whether binding succeeds.\<close>

datatype ('sock, 'ip) listening =
    Activated 'sock
  | Bound 'ip "16 word"
  | ExitFailure
  | ListenPanic

definition listen_socket ::
  "(string \<Rightarrow> 'ip option) \<Rightarrow> ('ip \<Rightarrow> 16 word \<Rightarrow> bool) \<Rightarrow> ('sock \<times> bool \<times> bool) option
     \<Rightarrow> 'net run_config \<Rightarrow> ('sock, 'ip) listening" where
  "listen_socket parse_ip bind passed c =
     (case passed of
        Some (l, nonblocking_ok, from_std_ok) \<Rightarrow>
          if \<not> nonblocking_ok then ListenPanic
          else if \<not> from_std_ok then ListenPanic
          else Activated l
      | None \<Rightarrow>
          (case parse_ip (bind_address c) of
             None \<Rightarrow> ExitFailure
           | Some ip \<Rightarrow> if bind ip (port c) then Bound ip (port c) else ExitFailure))"

section \<open>Facts\<close>

lemma operation_mode_from_str_ok:
  "operation_mode_from_str s = Inr m \<longleftrightarrow>
     s = (case m of Proxy \<Rightarrow> ''proxy'' | Redirect \<Rightarrow> ''redirect'' | Auto \<Rightarrow> ''auto'')"
  by (cases m) (auto simp: operation_mode_from_str_def)

text \<open>Two configurations that differ in nothing but the two secrets.\<close>

definition same_but_secrets :: "'net run_config \<Rightarrow> 'net run_config \<Rightarrow> bool" where
  "same_but_secrets c d \<longleftrightarrow>
     c\<lparr>rpc_creds := map_option (\<lambda>r. r\<lparr>rpc_password := []\<rparr>) (rpc_creds c),
       auth := map_option (\<lambda>a. a\<lparr>secret_key := []\<rparr>) (auth c)\<rparr> =
     d\<lparr>rpc_creds := map_option (\<lambda>r. r\<lparr>rpc_password := []\<rparr>) (rpc_creds d),
       auth := map_option (\<lambda>a. a\<lparr>secret_key := []\<rparr>) (auth d)\<rparr>"

lemma same_but_secretsD:
  assumes "same_but_secrets c d"
  shows "c\<lparr>rpc_creds := None, auth := None\<rparr> = d\<lparr>rpc_creds := None, auth := None\<rparr>"
    and "debug_option debug_rpc_credentials (rpc_creds c) = debug_option debug_rpc_credentials (rpc_creds d)"
    and "debug_option debug_auth_config (auth c) = debug_option debug_auth_config (auth d)"
proof -
  let ?strip = "\<lambda>c::'a run_config. c\<lparr>rpc_creds := map_option (\<lambda>r. r\<lparr>rpc_password := []\<rparr>) (rpc_creds c),
       auth := map_option (\<lambda>a. a\<lparr>secret_key := []\<rparr>) (auth c)\<rparr>"
  have eq: "?strip c = ?strip d" using assms by (simp add: same_but_secrets_def)
  have "(?strip c)\<lparr>rpc_creds := None, auth := None\<rparr> = (?strip d)\<lparr>rpc_creds := None, auth := None\<rparr>"
    by (simp only: eq)
  then show "c\<lparr>rpc_creds := None, auth := None\<rparr> = d\<lparr>rpc_creds := None, auth := None\<rparr>" by simp
  have "rpc_creds (?strip c) = rpc_creds (?strip d)" and "auth (?strip c) = auth (?strip d)"
    by (simp_all only: eq)
  then show "debug_option debug_rpc_credentials (rpc_creds c) = debug_option debug_rpc_credentials (rpc_creds d)"
    and "debug_option debug_auth_config (auth c) = debug_option debug_auth_config (auth d)"
    by (cases "rpc_creds c"; cases "rpc_creds d"; cases "auth c"; cases "auth d";
        force simp: debug_option_def debug_rpc_credentials_def debug_auth_config_def
          dest: arg_cong [where f = rpc_username] arg_cong [where f = access_key])+
qed

end
