(* ===== verification/Slots.thy ===== *)
theory Slots imports Prelude begin

text \<open>
  \<^verbatim>\<open>src/src/limited_slots.rs\<close>: the wrapper that bounds the multipart uploads held in
  memory. The map inside it is a \<^verbatim>\<open>DashMap\<close>, a third-party crate: its operations are
  the record \<open>dashmap_ops\<close>, and \<open>dashmap_laws\<close> states its documented behaviour relative to
  the finite map \<open>\<alpha> m\<close> of its entries. \<open>dm_capacity\<close> is the crate's own figure; the laws
  say only that it is never below the number of entries and that a map made by
  \<open>with_capacity(n)\<close> has room for \<open>n\<close>. How the figure changes is left open: the crate
  allocates by shard, so it may grow before the map as a whole is full.

  The second part is the interface the multipart handlers rely on, as a locale, and its
  interpretation on the wrapper.
\<close>

record ('m, 'k, 'v) dashmap_ops =
  dm_with_capacity :: "nat \<Rightarrow> 'm"
  dm_len :: "'m \<Rightarrow> nat"
  dm_capacity :: "'m \<Rightarrow> nat"
  dm_insert :: "'k \<Rightarrow> 'v \<Rightarrow> 'm \<Rightarrow> 'v option \<times> 'm"
  dm_get :: "'k \<Rightarrow> 'm \<Rightarrow> 'v option"
  dm_remove :: "'k \<Rightarrow> 'm \<Rightarrow> ('k \<times> 'v) option \<times> 'm"
  dm_entries :: "'m \<Rightarrow> ('k \<times> 'v) list"
  dm_write_ref :: "'k \<Rightarrow> 'v \<Rightarrow> 'm \<Rightarrow> 'm"
  \<comment> \<open>the map after the value a \<open>Ref\<close> to \<open>k\<close> points at was changed in place\<close>

definition dashmap_laws :: "('m, 'k, 'v) dashmap_ops \<Rightarrow> ('m \<Rightarrow> 'k \<rightharpoonup> 'v) \<Rightarrow> bool" where
  "dashmap_laws D \<alpha> \<longleftrightarrow>
     (\<forall>n. \<alpha> (dm_with_capacity D n) = Map.empty \<and> n \<le> dm_capacity D (dm_with_capacity D n)) \<and>
     (\<forall>m. finite (dom (\<alpha> m)) \<and> dm_len D m = card (dom (\<alpha> m)) \<and> dm_len D m \<le> dm_capacity D m) \<and>
     (\<forall>k v m. fst (dm_insert D k v m) = \<alpha> m k \<and> \<alpha> (snd (dm_insert D k v m)) = (\<alpha> m)(k \<mapsto> v)) \<and>
     (\<forall>k m. dm_get D k m = \<alpha> m k) \<and>
     (\<forall>k m. fst (dm_remove D k m) = map_option (Pair k) (\<alpha> m k) \<and>
            \<alpha> (snd (dm_remove D k m)) = (\<alpha> m)(k := None)) \<and>
     (\<forall>m. map_of (dm_entries D m) = \<alpha> m \<and> distinct (map fst (dm_entries D m))) \<and>
     (\<forall>k v m. k \<in> dom (\<alpha> m) \<longrightarrow> \<alpha> (dm_write_ref D k v m) = (\<alpha> m)(k \<mapsto> v))"

lemma dashmap_lawsD:
  assumes "dashmap_laws D \<alpha>"
  shows "\<alpha> (dm_with_capacity D n) = Map.empty"
    and "n \<le> dm_capacity D (dm_with_capacity D n)"
    and "finite (dom (\<alpha> m))"
    and "dm_len D m = card (dom (\<alpha> m))"
    and "dm_len D m \<le> dm_capacity D m"
    and "fst (dm_insert D k v m) = \<alpha> m k"
    and "\<alpha> (snd (dm_insert D k v m)) = (\<alpha> m)(k \<mapsto> v)"
    and "dm_get D k m = \<alpha> m k"
    and "fst (dm_remove D k m) = map_option (Pair k) (\<alpha> m k)"
    and "\<alpha> (snd (dm_remove D k m)) = (\<alpha> m)(k := None)"
    and "map_of (dm_entries D m) = \<alpha> m"
    and "distinct (map fst (dm_entries D m))"
    and "k \<in> dom (\<alpha> m) \<Longrightarrow> \<alpha> (dm_write_ref D k v m) = (\<alpha> m)(k \<mapsto> v)"
  using assms unfolding dashmap_laws_def by blast+

lemma dashmap_insert_pair:
  "dashmap_laws D \<alpha> \<Longrightarrow> dm_insert D k v m = (old, m') \<Longrightarrow> old = \<alpha> m k \<and> \<alpha> m' = (\<alpha> m)(k \<mapsto> v)"
  using dashmap_lawsD(6,7) [of D \<alpha> k v m] by simp

section \<open>The wrapper\<close>

datatype slots_error = WouldIncrease

definition with_capacity :: "('m, 'k, 'v) dashmap_ops \<Rightarrow> nat \<Rightarrow> 'm" where
  "with_capacity D n = dm_with_capacity D n"

definition check_capacity :: "('m, 'k, 'v) dashmap_ops \<Rightarrow> 'm \<Rightarrow> slots_error + unit" where
  "check_capacity D m =
     (if dm_len D m < dm_capacity D m then Inr () else Inl WouldIncrease)"

definition slot_insert ::
  "('m, 'k, 'v) dashmap_ops \<Rightarrow> 'k \<Rightarrow> 'v \<Rightarrow> 'm \<Rightarrow> (slots_error + 'v option) \<times> 'm" where
  "slot_insert D k v m =
     (case check_capacity D m of
        Inl e \<Rightarrow> (Inl e, m)
      | Inr _ \<Rightarrow> (case dm_insert D k v m of (old, m') \<Rightarrow> (Inr old, m')))"

definition slot_get :: "('m, 'k, 'v) dashmap_ops \<Rightarrow> 'k \<Rightarrow> 'm \<Rightarrow> 'v option" where
  "slot_get D k m = dm_get D k m"

definition slot_remove ::
  "('m, 'k, 'v) dashmap_ops \<Rightarrow> 'k \<Rightarrow> 'm \<Rightarrow> ('k \<times> 'v) option \<times> 'm" where
  "slot_remove D k m = dm_remove D k m"

lemmas slots_defs = with_capacity_def check_capacity_def slot_insert_def slot_get_def slot_remove_def

section \<open>The interface the upload handlers rely on\<close>

text \<open>\<open>room\<close> is what the provider checks before it admits a key; \<open>good\<close> is the provider's
  own well-formedness, under which the laws hold.\<close>

locale slot_map =
  fixes ins :: "'k \<Rightarrow> 'v \<Rightarrow> 'm \<Rightarrow> (slots_error + 'v option) \<times> 'm"
    and get :: "'k \<Rightarrow> 'm \<Rightarrow> 'v option"
    and rem :: "'k \<Rightarrow> 'm \<Rightarrow> ('k \<times> 'v) option \<times> 'm"
    and room :: "'m \<Rightarrow> bool"
    and content :: "'m \<Rightarrow> 'k \<rightharpoonup> 'v"
    and good :: "'m \<Rightarrow> bool"
  assumes ins_room: "good m \<Longrightarrow> room m \<Longrightarrow>
      fst (ins k v m) = Inr (content m k) \<and> content (snd (ins k v m)) = (content m)(k \<mapsto> v)"
    and ins_full: "\<not> room m \<Longrightarrow> ins k v m = (Inl WouldIncrease, m)"
    and get_content: "good m \<Longrightarrow> get k m = content m k"
    and rem_content: "good m \<Longrightarrow>
      fst (rem k m) = map_option (Pair k) (content m k) \<and> content (snd (rem k m)) = (content m)(k := None)"
    and good_ins: "good m \<Longrightarrow> good (snd (ins k v m))"
    and good_rem: "good m \<Longrightarrow> good (snd (rem k m))"
begin

lemma ins_ok_iff: "good m \<Longrightarrow> is_ok (fst (ins k v m)) \<longleftrightarrow> room m"
  using ins_room ins_full by (cases "room m") auto

lemma ins_error_unchanged: "good m \<Longrightarrow> fst (ins k v m) = Inl e \<Longrightarrow> snd (ins k v m) = m"
  using ins_room [of m k v] ins_full [of m k v] by (cases "room m") auto

lemma get_after_ins:
  "good m \<Longrightarrow> is_ok (fst (ins k v m)) \<Longrightarrow> get j (snd (ins k v m)) = (if j = k then Some v else get j m)"
  using ins_room [of m k v] good_ins [of m k v] by (simp add: ins_ok_iff get_content)

lemma get_after_rem: "good m \<Longrightarrow> get j (snd (rem k m)) = (if j = k then None else get j m)"
  using rem_content [of m k] good_rem [of m k] by (simp add: get_content)

lemma rem_result: "good m \<Longrightarrow> fst (rem k m) = map_option (Pair k) (get k m)"
  using rem_content [of m k] by (simp add: get_content)

lemma rem_twice: "good m \<Longrightarrow> fst (rem k (snd (rem k m))) = None"
  by (simp add: rem_result good_rem get_after_rem)

end

definition has_room :: "('m, 'k, 'v) dashmap_ops \<Rightarrow> 'm \<Rightarrow> bool" where
  "has_room D m \<longleftrightarrow> dm_len D m < dm_capacity D m"

interpretation limited: slot_map "slot_insert D" "slot_get D" "slot_remove D" "has_room D"
    \<alpha> "\<lambda>_. dashmap_laws D \<alpha>"
  for D :: "('m, 'k, 'v) dashmap_ops" and \<alpha> :: "'m \<Rightarrow> 'k \<rightharpoonup> 'v"
  by unfold_locales
    (auto simp: slots_defs has_room_def dashmap_lawsD dashmap_insert_pair split: prod.splits)

section \<open>Sequences of operations\<close>

datatype ('k, 'v) slot_op = Insert 'k 'v | Remove 'k

fun op_key :: "('k, 'v) slot_op \<Rightarrow> 'k" where
  "op_key (Insert k v) = k"
| "op_key (Remove k) = k"

fun slot_step :: "('m, 'k, 'v) dashmap_ops \<Rightarrow> 'm \<Rightarrow> ('k, 'v) slot_op \<Rightarrow> 'm" where
  "slot_step D m (Insert k v) = snd (slot_insert D k v m)"
| "slot_step D m (Remove k) = snd (slot_remove D k m)"

definition slot_run :: "('m, 'k, 'v) dashmap_ops \<Rightarrow> 'm \<Rightarrow> ('k, 'v) slot_op list \<Rightarrow> 'm" where
  "slot_run D = foldl (slot_step D)"

lemma slot_step_other:
  assumes "dashmap_laws D \<alpha>" and "op_key x \<noteq> k"
  shows "\<alpha> (slot_step D m x) k = \<alpha> m k"
proof (cases x)
  case (Insert j v)
  show ?thesis
  proof (cases "has_room D m")
    case True
    with limited.ins_room [OF assms(1) True, of j v] Insert assms(2) show ?thesis by simp
  next
    case False
    with limited.ins_full [of D m j v] Insert show ?thesis by simp
  qed
next
  case (Remove j)
  with limited.rem_content [OF assms(1), of j m] assms(2) show ?thesis by simp
qed

lemma slot_run_other:
  assumes "dashmap_laws D \<alpha>"
  shows "k \<notin> op_key ` set xs \<Longrightarrow> \<alpha> (slot_run D m xs) k = \<alpha> m k"
proof (induction xs arbitrary: m)
  case (Cons x xs)
  then have "op_key x \<noteq> k" by auto
  with Cons show ?case using slot_step_other [OF assms, of x k m] by (simp add: slot_run_def)
qed (simp add: slot_run_def)

end
