(* ===== verification/Database.thy ===== *)
theory Database imports Numbers begin

text \<open>
  \<^verbatim>\<open>src/src/database.rs\<close> with the schema of \<^verbatim>\<open>src/migrations/0001_init.sql\<close>: the
  table \<^verbatim>\<open>metadata\<close> as the list of its rows, each SQL statement of the source as a
  function on that list, and each method of \<^verbatim>\<open>Database\<close> as the statement run through
  the connection pool. The pool belongs to \<^verbatim>\<open>sqlx\<close>: running a statement is the parameter
  \<open>exec\<close>, which either fails (then the table is unchanged) or yields the
  \<^verbatim>\<open>CURRENT_TIMESTAMP\<close> the statement sees.

  The second half is the interface the handlers rely on (\<open>object_store\<close>), interpreted on the SQL
  statements.
\<close>

datatype database_error = SqlxError string | IoError string | InitializationFailed string

record row =
  row_cid :: string
  row_bucket :: string
  row_object_key :: string
  row_content_type :: string
  row_size :: i64
  row_created_at :: timestamp
  row_updated_at :: timestamp

record metadata_response =
  md_cid :: string
  md_size :: i64
  md_content_type :: string
  md_key :: string
  md_bucket :: string
  md_updated_at :: timestamp

record 'p database =
  db_pool :: 'p
  db_rows :: "row list"

type_synonym 'p sqlx = "'p \<Rightarrow> (string + timestamp) \<times> 'p"

definition row_id :: "row \<Rightarrow> string \<times> string" where
  "row_id r = (row_bucket r, row_object_key r)"

text \<open>The primary key of the table.\<close>

definition primary_key :: "row list \<Rightarrow> bool" where
  "primary_key rows \<longleftrightarrow> distinct (map row_id rows)"

section \<open>The \<open>LIKE\<close> operator of SQLite\<close>

text \<open>\<open>%\<close> stands for any sequence of characters and \<open>_\<close> for one character (of one or more
  bytes); other characters match themselves, ASCII letters without regard to case.\<close>

fun skip_char :: "string \<Rightarrow> string" where
  "skip_char [] = []"
| "skip_char (c # cs) = (if 0xC0 \<le> byte c then dropWhile is_cont cs else cs)"

lemma skip_char_shorter: "s \<noteq> [] \<Longrightarrow> length (skip_char s) < length s"
  by (cases s) (auto simp: less_Suc_eq_le length_dropWhile_le)

function sql_like :: "string \<Rightarrow> string \<Rightarrow> bool" where
  "sql_like [] s = (s = [])"
| "sql_like (p # ps) s =
     (if p = CHR ''%'' then sql_like ps s \<or> (if s = [] then False else sql_like (p # ps) (skip_char s))
      else if s = [] then False
      else if p = CHR ''_'' then sql_like ps (skip_char s)
      else lower_char p = lower_char (hd s) \<and> sql_like ps (tl s))"
  by pat_completeness auto
termination
  by (relation "measure (\<lambda>(p, s). length p + length s)")
    (auto dest: skip_char_shorter)

declare sql_like.simps(2) [simp del]

lemma sql_like_percent: "sql_like ''%'' s"
proof (induction s rule: length_induct)
  case (1 s)
  then show ?case
    by (subst sql_like.simps) (auto dest: skip_char_shorter)
qed

lemma sql_like_same_char:
  assumes "sql_like ps cs"
  shows "sql_like (c # ps) (c # cs)"
proof (cases "c = CHR ''%''")
  case True
  have "sql_like (c # ps) (skip_char (c # cs))"
    using assms True by (subst sql_like.simps) (simp add: byte_def)
  with True show ?thesis by (subst sql_like.simps) simp
next
  case False
  with assms show ?thesis by (subst sql_like.simps) (simp add: byte_def)
qed

text \<open>Wildcards in the literal part only add matches: a pattern matches every string that
  carries it literally.\<close>

lemma sql_like_literal_prefix: "sql_like (p @ ''%'') (p @ s)"
  by (induction p) (simp_all add: sql_like_percent sql_like_same_char)

section \<open>The statements\<close>

definition sql_upsert ::
  "string \<Rightarrow> string \<Rightarrow> string \<Rightarrow> string \<Rightarrow> i64 \<Rightarrow> timestamp \<Rightarrow> row list \<Rightarrow> row list" where
  "sql_upsert cid bucket key content_type sz now rows =
     (if list_ex (\<lambda>r. row_id r = (bucket, key)) rows
      then map (\<lambda>r. if row_id r = (bucket, key)
                    then r\<lparr>row_cid := cid, row_size := sz, row_content_type := content_type,
                           row_updated_at := now\<rparr>
                    else r) rows
      else rows @ [\<lparr>row_cid = cid, row_bucket = bucket, row_object_key = key,
                    row_content_type = content_type, row_size = sz,
                    row_created_at = now, row_updated_at = now\<rparr>])"

definition metadata_of_row :: "row \<Rightarrow> metadata_response" where
  "metadata_of_row r =
     \<lparr>md_cid = row_cid r, md_size = row_size r, md_content_type = row_content_type r,
      md_key = row_object_key r, md_bucket = row_bucket r, md_updated_at = row_updated_at r\<rparr>"

definition sql_select :: "string \<Rightarrow> string \<Rightarrow> row list \<Rightarrow> metadata_response option" where
  "sql_select bucket key rows =
     map_option metadata_of_row (find (\<lambda>r. row_id r = (bucket, key)) rows)"

definition sql_delete :: "string \<Rightarrow> string \<Rightarrow> row list \<Rightarrow> row list" where
  "sql_delete bucket key rows = filter (\<lambda>r. row_id r \<noteq> (bucket, key)) rows"

definition sql_count_cid :: "string \<Rightarrow> row list \<Rightarrow> nat" where
  "sql_count_cid cid rows = length (filter (\<lambda>r. row_cid r = cid) rows)"

definition sql_count_like :: "string \<Rightarrow> string \<Rightarrow> row list \<Rightarrow> nat" where
  "sql_count_like bucket pattern rows =
     length (filter (\<lambda>r. row_bucket r = bucket \<and> sql_like pattern (row_object_key r)) rows)"

lemmas sql_defs = sql_upsert_def sql_select_def sql_delete_def sql_count_cid_def sql_count_like_def

section \<open>The methods of \<open>Database\<close>\<close>

definition run_statement ::
  "'p sqlx \<Rightarrow> (timestamp \<Rightarrow> row list \<Rightarrow> 'a \<times> row list) \<Rightarrow> 'p database
     \<Rightarrow> (database_error + 'a) \<times> 'p database" where
  "run_statement exec stmt db =
     (case exec (db_pool db) of
        (Inl e, p) \<Rightarrow> (Inl (SqlxError e), db\<lparr>db_pool := p\<rparr>)
      | (Inr now, p) \<Rightarrow>
          (case stmt now (db_rows db) of
             (a, rows) \<Rightarrow> (Inr a, \<lparr>db_pool = p, db_rows = rows\<rparr>)))"

definition db_ping :: "'p sqlx \<Rightarrow> 'p database \<Rightarrow> bool \<times> 'p database" where
  "db_ping exec db =
     (case run_statement exec (\<lambda>_ rows. ((), rows)) db of (r, db') \<Rightarrow> (is_ok r, db'))"

definition store_object_metadata ::
  "'p sqlx \<Rightarrow> string \<Rightarrow> string \<Rightarrow> string \<Rightarrow> i64 \<Rightarrow> string \<Rightarrow> 'p database
     \<Rightarrow> (database_error + unit) \<times> 'p database" where
  "store_object_metadata exec bucket key cid sz content_type db =
     run_statement exec
       (\<lambda>now rows. ((), sql_upsert cid bucket key content_type sz now rows)) db"

definition get_object_metadata ::
  "'p sqlx \<Rightarrow> string \<Rightarrow> string \<Rightarrow> 'p database
     \<Rightarrow> (database_error + metadata_response option) \<times> 'p database" where
  "get_object_metadata exec bucket key db =
     run_statement exec (\<lambda>_ rows. (sql_select bucket key rows, rows)) db"

definition db_delete_object ::
  "'p sqlx \<Rightarrow> metadata_response \<Rightarrow> 'p database \<Rightarrow> (database_error + unit) \<times> 'p database" where
  "db_delete_object exec md db =
     run_statement exec (\<lambda>_ rows. ((), sql_delete (md_bucket md) (md_key md) rows)) db"

definition cid_count ::
  "'p sqlx \<Rightarrow> string \<Rightarrow> 'p database \<Rightarrow> (database_error + nat) \<times> 'p database" where
  "cid_count exec cid db = run_statement exec (\<lambda>_ rows. (sql_count_cid cid rows, rows)) db"

text \<open>The loop of \<open>find_shallowest_removable_directory\<close> over the non-empty ancestors of the
  path, deepest first, with its \<open>break\<close>. The ancestors come from the
  \<^verbatim>\<open>typed_path\<close> crate: the parameter \<open>ancestors\<close>.\<close>

fun shallowest_loop ::
  "'p sqlx \<Rightarrow> string \<Rightarrow> string list \<Rightarrow> string option \<Rightarrow> 'p database
     \<Rightarrow> (database_error + string option) \<times> 'p database" where
  "shallowest_loop exec bucket [] shallow db = (Inr shallow, db)"
| "shallowest_loop exec bucket (a # as) shallow db =
     (case run_statement exec (\<lambda>_ rows. (sql_count_like bucket (a @ ''/%'') rows, rows)) db of
        (Inl e, db') \<Rightarrow> (Inl e, db')
      | (Inr n, db') \<Rightarrow>
          if n = 0 then shallowest_loop exec bucket as (Some a) db' else (Inr shallow, db'))"

definition find_shallowest_removable_directory ::
  "'p sqlx \<Rightarrow> (string \<Rightarrow> string list) \<Rightarrow> string \<Rightarrow> string \<Rightarrow> 'p database
     \<Rightarrow> (database_error + string option) \<times> 'p database" where
  "find_shallowest_removable_directory exec ancestors bucket path db =
     shallowest_loop exec bucket (filter (\<lambda>a. a \<noteq> []) (ancestors path)) None db"

lemmas database_defs [handler_defs] =
  db_ping_def store_object_metadata_def get_object_metadata_def db_delete_object_def cid_count_def
  find_shallowest_removable_directory_def

section \<open>What each method does to the table\<close>

lemma run_statement_rows:
  "run_statement exec stmt db = (Inl e, db') \<Longrightarrow> db_rows db' = db_rows db"
  "run_statement exec stmt db = (Inr a, db') \<Longrightarrow>
     \<exists>now. fst (exec (db_pool db)) = Inr now \<and> stmt now (db_rows db) = (a, db_rows db')"
  by (auto simp: run_statement_def split: prod.splits sum.splits)

text \<open>A pool that answers every statement.\<close>

definition reliable :: "'p sqlx \<Rightarrow> bool" where
  "reliable exec \<longleftrightarrow> (\<forall>p. is_ok (fst (exec p)))"

lemma reliable_statement: "reliable exec \<Longrightarrow> run_statement exec stmt db = (r, db') \<Longrightarrow> is_ok r"
  unfolding reliable_def run_statement_def by (auto split: prod.splits sum.splits) (metis fst_conv sum.disc(1))

lemma reliable_methods:
  "reliable exec \<Longrightarrow> store_object_metadata exec b k c sz ct db = (r, db') \<Longrightarrow> is_ok r"
  "reliable exec \<Longrightarrow> db_delete_object exec md db = (r', db') \<Longrightarrow> is_ok r'"
  unfolding store_object_metadata_def db_delete_object_def by (erule (1) reliable_statement)+

lemma run_query_rows:
  "run_statement exec (\<lambda>_ rows. (q rows, rows)) db = (r, db') \<Longrightarrow>
     db_rows db' = db_rows db \<and> (\<forall>a. r = Inr a \<longrightarrow> a = q (db_rows db))"
  by (cases r) (auto dest: run_statement_rows)

lemma db_ping_rows [frame]: "db_ping exec db = (b, db') \<Longrightarrow> db_rows db' = db_rows db"
  by (auto simp: db_ping_def split: prod.splits dest: run_query_rows)

lemma get_object_metadata_rows [frame]:
  "get_object_metadata exec b k db = (r, db') \<Longrightarrow>
     db_rows db' = db_rows db \<and> (\<forall>m. r = Inr m \<longrightarrow> m = sql_select b k (db_rows db))"
  unfolding get_object_metadata_def by (rule run_query_rows)

lemma cid_count_rows [frame]:
  "cid_count exec c db = (r, db') \<Longrightarrow>
     db_rows db' = db_rows db \<and> (\<forall>n. r = Inr n \<longrightarrow> n = sql_count_cid c (db_rows db))"
  unfolding cid_count_def by (rule run_query_rows)

lemma store_object_metadata_rows:
  assumes "store_object_metadata exec b k c sz ct db = (r, db')"
  shows "is_ok r \<Longrightarrow> \<exists>now. fst (exec (db_pool db)) = Inr now \<and> db_rows db' = sql_upsert c b k ct sz now (db_rows db)"
    and "\<not> is_ok r \<Longrightarrow> db_rows db' = db_rows db"
  using assms run_statement_rows [where stmt = "\<lambda>now rows. ((), sql_upsert c b k ct sz now rows)"]
  unfolding store_object_metadata_def by (cases r; fastforce)+

lemma db_delete_object_rows:
  assumes "db_delete_object exec md db = (r, db')"
  shows "is_ok r \<Longrightarrow> db_rows db' = sql_delete (md_bucket md) (md_key md) (db_rows db)"
    and "\<not> is_ok r \<Longrightarrow> db_rows db' = db_rows db"
  using assms run_statement_rows [where stmt = "\<lambda>_ rows. ((), sql_delete (md_bucket md) (md_key md) rows)"]
  unfolding db_delete_object_def by (cases r; fastforce)+

section \<open>The interface of the metadata table\<close>

text \<open>What the handlers rely on: lookups after each change, and the number of objects that share
  a content identifier.\<close>

locale object_store =
  fixes upsert :: "string \<Rightarrow> string \<Rightarrow> string \<Rightarrow> string \<Rightarrow> i64 \<Rightarrow> timestamp \<Rightarrow> 't \<Rightarrow> 't"
    and select :: "string \<Rightarrow> string \<Rightarrow> 't \<Rightarrow> metadata_response option"
    and delete :: "string \<Rightarrow> string \<Rightarrow> 't \<Rightarrow> 't"
    and count_cid :: "string \<Rightarrow> 't \<Rightarrow> nat"
    and wf :: "'t \<Rightarrow> bool"
  assumes select_upsert: "select b' k' (upsert c b k ct sz now t) =
      (if (b', k') = (b, k)
       then Some \<lparr>md_cid = c, md_size = sz, md_content_type = ct, md_key = k, md_bucket = b,
                  md_updated_at = now\<rparr>
       else select b' k' t)"
    and select_delete: "select b' k' (delete b k t) = (if (b', k') = (b, k) then None else select b' k' t)"
    and select_ids: "select b k t = Some m \<Longrightarrow> md_bucket m = b \<and> md_key m = k"
    and count_cid: "wf t \<Longrightarrow>
      finite {(b, k). \<exists>m. select b k t = Some m \<and> md_cid m = c} \<and>
      count_cid c t = card {(b, k). \<exists>m. select b k t = Some m \<and> md_cid m = c}"
    and wf_upsert: "wf t \<Longrightarrow> wf (upsert c b k ct sz now t)"
    and wf_delete: "wf t \<Longrightarrow> wf (delete b k t)"
begin

definition referenced :: "'t \<Rightarrow> string set" where
  "referenced t = {md_cid m | b k m. select b k t = Some m}"

lemma count_zero_iff: "wf t \<Longrightarrow> count_cid c t = 0 \<longleftrightarrow> c \<notin> referenced t"
  using count_cid [of t c] by (auto simp: referenced_def)

lemma referenced_upsert: "referenced (upsert c b k ct sz now t) \<subseteq> insert c (referenced t)"
  by (auto simp: referenced_def select_upsert split: if_splits)

lemma referenced_upsert_self: "c \<in> referenced (upsert c b k ct sz now t)"
proof -
  have "select b k (upsert c b k ct sz now t) =
      Some \<lparr>md_cid = c, md_size = sz, md_content_type = ct, md_key = k, md_bucket = b,
            md_updated_at = now\<rparr>"
    by (simp add: select_upsert)
  then show ?thesis unfolding referenced_def by force
qed

lemma referenced_delete: "referenced (delete b k t) \<subseteq> referenced t"
  by (auto simp: referenced_def select_delete split: if_splits)

lemma delete_upsert: "select b' k' (delete b k (upsert c b k ct sz now t)) = select b' k' (delete b k t)"
  by (simp add: select_delete select_upsert)

end

lemma find_map_other:
  "(\<And>x. P x \<Longrightarrow> Q x = Q (f x)) \<Longrightarrow> (\<And>x. \<not> P x \<Longrightarrow> f x = x) \<Longrightarrow> (\<And>x. P x \<Longrightarrow> \<not> Q x) \<Longrightarrow>
     find Q (map f xs) = find Q xs"
proof (induction xs)
  case (Cons x xs)
  then show ?case by (cases "P x") auto
qed simp

lemma sql_select_upsert:
  "sql_select b' k' (sql_upsert c b k ct sz now rows) =
     (if (b', k') = (b, k)
      then Some \<lparr>md_cid = c, md_size = sz, md_content_type = ct, md_key = k, md_bucket = b,
                 md_updated_at = now\<rparr>
      else sql_select b' k' rows)"
proof (induction rows)
  case Nil
  then show ?case by (simp add: sql_defs row_id_def metadata_of_row_def)
next
  case (Cons r rows)
  show ?case
  proof (cases "row_id r = (b, k)")
    case True
    have "find (\<lambda>r. row_id r = (b', k'))
        (map (\<lambda>r. if row_id r = (b, k)
                 then r\<lparr>row_cid := c, row_size := sz, row_content_type := ct, row_updated_at := now\<rparr>
                 else r) rows) = find (\<lambda>r. row_id r = (b', k')) rows" if "(b', k') \<noteq> (b, k)"
      using that by (intro find_map_other [where P = "\<lambda>r. row_id r = (b, k)"]) (auto simp: row_id_def)
    with True show ?thesis
      by (auto simp: sql_defs row_id_def metadata_of_row_def)
  next
    case False
    with Cons.IH show ?thesis
      by (auto simp: sql_defs row_id_def metadata_of_row_def split: if_splits)
  qed
qed

lemma sql_select_delete:
  "sql_select b' k' (sql_delete b k rows) = (if (b', k') = (b, k) then None else sql_select b' k' rows)"
  by (induction rows) (auto simp: sql_defs)

lemma sql_select_ids: "sql_select b k rows = Some m \<Longrightarrow> md_bucket m = b \<and> md_key m = k"
  by (auto simp: sql_select_def metadata_of_row_def find_Some_iff row_id_def)

lemma map_row_id_upsert:
  "map row_id (sql_upsert c b k ct sz now rows) =
     (if (b, k) \<in> row_id ` set rows then map row_id rows else map row_id rows @ [(b, k)])"
  by (auto simp: sql_upsert_def row_id_def list_ex_iff image_iff)

lemma primary_key_upsert: "primary_key rows \<Longrightarrow> primary_key (sql_upsert c b k ct sz now rows)"
  by (simp add: primary_key_def map_row_id_upsert)

lemma primary_key_delete: "primary_key rows \<Longrightarrow> primary_key (sql_delete b k rows)"
  unfolding primary_key_def sql_delete_def by (induction rows) auto

lemma sql_select_Some_iff:
  "primary_key rows \<Longrightarrow>
     sql_select b k rows = Some m \<longleftrightarrow> (\<exists>r \<in> set rows. row_id r = (b, k) \<and> m = metadata_of_row r)"
proof (induction rows)
  case (Cons r rows)
  then show ?case
    by (auto simp: sql_select_def primary_key_def) (metis imageI)+
qed (simp add: sql_select_def)

lemma sql_count_cid_card:
  assumes "primary_key rows"
  shows "{(b, k). \<exists>m. sql_select b k rows = Some m \<and> md_cid m = c}
           = row_id ` set (filter (\<lambda>r. row_cid r = c) rows)"
    and "sql_count_cid c rows = card (row_id ` set (filter (\<lambda>r. row_cid r = c) rows))"
proof -
  show "{(b, k). \<exists>m. sql_select b k rows = Some m \<and> md_cid m = c}
           = row_id ` set (filter (\<lambda>r. row_cid r = c) rows)"
    using sql_select_Some_iff [OF assms]
    by (auto simp: metadata_of_row_def image_iff row_id_def)
  have "distinct (map row_id (filter (\<lambda>r. row_cid r = c) rows))"
    using assms unfolding primary_key_def by (rule distinct_map_filter)
  then show "sql_count_cid c rows = card (row_id ` set (filter (\<lambda>r. row_cid r = c) rows))"
    unfolding sql_count_cid_def by (metis distinct_card length_map set_map)
qed

interpretation sql: object_store sql_upsert sql_select sql_delete sql_count_cid primary_key
  by unfold_locales
    (auto simp: sql_select_upsert sql_select_delete sql_count_cid_card
      dest: sql_select_ids intro: primary_key_upsert primary_key_delete)

text \<open>The content identifiers the table mentions.\<close>

definition referenced_cids :: "row list \<Rightarrow> string set" where
  "referenced_cids rows = set (map row_cid rows)"

lemma sql_referenced:
  assumes pk: "primary_key rows"
  shows "sql.referenced rows = referenced_cids rows"
proof
  show "sql.referenced rows \<subseteq> referenced_cids rows"
    using sql_select_Some_iff [OF pk]
    by (auto simp: sql.referenced_def referenced_cids_def metadata_of_row_def)
  show "referenced_cids rows \<subseteq> sql.referenced rows"
  proof
    fix c assume "c \<in> referenced_cids rows"
    then obtain r where r: "r \<in> set rows" "c = row_cid r"
      by (auto simp: referenced_cids_def)
    then have "sql_select (row_bucket r) (row_object_key r) rows = Some (metadata_of_row r)"
      by (auto simp: sql_select_Some_iff [OF pk] row_id_def)
    then show "c \<in> sql.referenced rows"
      using r(2) unfolding sql.referenced_def by (force simp: metadata_of_row_def)
  qed
qed

lemma referenced_cids_upsert:
  "primary_key rows \<Longrightarrow>
     referenced_cids (sql_upsert c b k ct sz now rows) \<subseteq> insert c (referenced_cids rows)"
  using sql.referenced_upsert [of c b k ct sz now rows]
  by (simp add: sql_referenced sql.wf_upsert)

lemma referenced_cids_delete:
  "primary_key rows \<Longrightarrow> referenced_cids (sql_delete b k rows) \<subseteq> referenced_cids rows"
  using sql.referenced_delete [of b k rows] by (simp add: sql_referenced sql.wf_delete)

lemma sql_count_zero: "primary_key rows \<Longrightarrow> sql_count_cid c rows = 0 \<longleftrightarrow> c \<notin> referenced_cids rows"
  using sql.count_zero_iff [of rows c] by (simp add: sql_referenced)

section \<open>The directory search\<close>

lemma sql_count_like_zero:
  "sql_count_like b (d @ ''/%'') rows = 0 \<Longrightarrow> r \<in> set rows \<Longrightarrow> row_bucket r = b \<Longrightarrow>
     \<not> starts_with (d @ ''/'') (row_object_key r)"
proof
  assume zero: "sql_count_like b (d @ ''/%'') rows = 0" and r: "r \<in> set rows" "row_bucket r = b"
    and "starts_with (d @ ''/'') (row_object_key r)"
  then obtain rest where "row_object_key r = (d @ ''/'') @ rest"
    by (auto simp: starts_with_iff)
  then have "sql_like (d @ ''/%'') (row_object_key r)"
    using sql_like_literal_prefix [of "d @ ''/''" rest] by simp
  with zero r show False
    by (auto simp: sql_count_like_def filter_empty_conv)
qed

lemma shallowest_loop_rows [frame]:
  "shallowest_loop exec b as sh db = (r, db') \<Longrightarrow> db_rows db' = db_rows db"
proof (induction as arbitrary: sh db)
  case (Cons a as)
  obtain q db1 where q: "run_statement exec (\<lambda>_ rows. (sql_count_like b (a @ ''/%'') rows, rows)) db = (q, db1)"
    by fastforce
  with Cons show ?case
    using run_query_rows [OF q] by (auto split: sum.splits if_splits)
qed simp

text \<open>When every query succeeds, the loop's result is the last of the leading ancestors under which
  the bucket holds no matching key.\<close>

lemma shallowest_loop_result:
  assumes "shallowest_loop exec b as sh db = (Inr res, db')"
  shows "res = (let empties = takeWhile (\<lambda>a. sql_count_like b (a @ ''/%'') (db_rows db) = 0) as
                in if empties = [] then sh else Some (last empties))"
  using assms
proof (induction as arbitrary: sh db)
  case (Cons a as)
  obtain q db1 where q: "run_statement exec (\<lambda>_ rows. (sql_count_like b (a @ ''/%'') rows, rows)) db = (q, db1)"
    by fastforce
  then obtain n where n: "q = Inr n"
    using Cons.prems by (cases q) auto
  have rows: "db_rows db1 = db_rows db" "n = sql_count_like b (a @ ''/%'') (db_rows db)"
    using run_query_rows [OF q] n by auto
  show ?case
  proof (cases "n = 0")
    case True
    with Cons.prems q n have "shallowest_loop exec b as (Some a) db1 = (Inr res, db')" by simp
    from Cons.IH [OF this] show ?thesis using True rows by (auto simp: Let_def)
  next
    case False
    with Cons.prems q n rows show ?thesis by (auto simp: Let_def)
  qed
qed simp

end
