(* ===== verification/Ipfs.thy ===== *)
theory Ipfs imports Database begin

text \<open>
  \<^verbatim>\<open>src/src/ipfs.rs\<close>: the client for the IPFS node's RPC interface. The node is a service
  and the RPC library a crate, so the node's state is a type variable and its RPC calls are the
  record \<open>ipfs_api\<close>, each a state transformer that may fail in any way. What the handlers
  rely on is stated by three separate predicates over an observation of the node: the pinned
  content (\<open>pin_laws\<close>), the MFS directory tree (\<open>mfs_laws\<close>) and the stored bytes
  (\<open>content_laws\<close>); they follow Kubo's documentation of \<^verbatim>\<open>add\<close>,
  \<^verbatim>\<open>files cp\<close>, \<^verbatim>\<open>files rm\<close>, \<^verbatim>\<open>pin rm\<close> and \<^verbatim>\<open>cat\<close>.
\<close>

datatype ipfs_error = ClientError string | IpfsIoError string

record add_response =
  ar_name :: string
  ar_hash :: string
  ar_size :: string

record files_cp_request =
  cp_path :: string
  cp_dest :: string
  cp_parents :: "bool option"
  cp_force :: "bool option"

record version_response =
  vr_version :: string
  vr_commit :: string

record rpc_version =
  rpc_version_version :: string
  rpc_version_commit :: string

record 'i ipfs_api =
  api_add :: "bytes \<Rightarrow> 'i \<Rightarrow> (string + add_response) \<times> 'i"
  api_files_cp :: "files_cp_request \<Rightarrow> 'i \<Rightarrow> (string + unit) \<times> 'i"
  api_files_rm :: "string \<Rightarrow> bool \<Rightarrow> 'i \<Rightarrow> (string + unit) \<times> 'i"
  api_pin_rm :: "string \<Rightarrow> bool \<Rightarrow> 'i \<Rightarrow> (string + unit) \<times> 'i"
  api_cat :: "string \<Rightarrow> 'i \<Rightarrow> (string + bytes) list"
  api_version :: "'i \<Rightarrow> (string + version_response) \<times> 'i"

section \<open>The client\<close>

record ipfs_client_config =
  client_base_uri :: string
  client_credentials :: "(string \<times> string) option"

definition new_with_config :: "string \<Rightarrow> (string \<times> string) option \<Rightarrow> ipfs_client_config" where
  "new_with_config rpc_address credentials =
     (let client = \<lparr>client_base_uri = rpc_address, client_credentials = None\<rparr>
      in case credentials of
           Some (username, password) \<Rightarrow> client\<lparr>client_credentials := Some (username, password)\<rparr>
         | None \<Rightarrow> client)"

definition rpc_version_from :: "version_response \<Rightarrow> rpc_version" where
  "rpc_version_from v = \<lparr>rpc_version_version = vr_version v, rpc_version_commit = vr_commit v\<rparr>"

definition add_content ::
  "'i ipfs_api \<Rightarrow> string \<Rightarrow> bytes \<Rightarrow> 'i \<Rightarrow> (ipfs_error + add_response) \<times> 'i" where
  "add_content A path content i =
     (case api_add A content i of
        (Inl e, i1) \<Rightarrow> (Inl (ClientError e), i1)
      | (Inr add_response, i1) \<Rightarrow>
          (case api_files_cp A
                  \<lparr>cp_path = ''/ipfs/'' @ ar_hash add_response, cp_dest = path,
                   cp_parents = Some True, cp_force = Some True\<rparr> i1 of
             (Inl e, i2) \<Rightarrow> (Inl (ClientError e), i2)
           | (Inr _, i2) \<Rightarrow> (Inr add_response, i2)))"

definition get_content :: "'i ipfs_api \<Rightarrow> string \<Rightarrow> 'i \<Rightarrow> (ipfs_error + bytes) list" where
  "get_content A cid i = map (map_sum ClientError id) (api_cat A cid i)"

definition ipfs_ping :: "'i ipfs_api \<Rightarrow> 'i \<Rightarrow> (ipfs_error + rpc_version) \<times> 'i" where
  "ipfs_ping A i =
     (case api_version A i of
        (Inl e, i') \<Rightarrow> (Inl (ClientError e), i')
      | (Inr v, i') \<Rightarrow> (Inr (rpc_version_from v), i'))"

definition unlink :: "'i ipfs_api \<Rightarrow> string \<Rightarrow> 'i \<Rightarrow> (ipfs_error + unit) \<times> 'i" where
  "unlink A path i =
     (case api_files_rm A path True i of
        (Inl e, i') \<Rightarrow> (Inl (ClientError e), i')
      | (Inr _, i') \<Rightarrow> (Inr (), i'))"

definition unpin :: "'i ipfs_api \<Rightarrow> metadata_response \<Rightarrow> 'i \<Rightarrow> (ipfs_error + unit) \<times> 'i" where
  "unpin A metadata i =
     (case api_pin_rm A (md_cid metadata) True i of
        (Inl e, i') \<Rightarrow> (Inl (ClientError e), i')
      | (Inr _, i') \<Rightarrow> (Inr (), i'))"

lemmas ipfs_defs = add_content_def get_content_def ipfs_ping_def unlink_def unpin_def

section \<open>What is assumed of the node\<close>

text \<open>Pins: \<^verbatim>\<open>add\<close> pins what it adds; only \<^verbatim>\<open>pin rm\<close> takes a pin away, and only the
  one it names, whether or not the call reports success.\<close>

definition pin_laws :: "'i ipfs_api \<Rightarrow> ('i \<Rightarrow> string set) \<Rightarrow> bool" where
  "pin_laws A pins \<longleftrightarrow>
     (\<forall>d i. pins i \<subseteq> pins (snd (api_add A d i))) \<and>
     (\<forall>d i a. fst (api_add A d i) = Inr a \<longrightarrow> ar_hash a \<in> pins (snd (api_add A d i))) \<and>
     (\<forall>r i. pins (snd (api_files_cp A r i)) = pins i) \<and>
     (\<forall>p b i. pins (snd (api_files_rm A p b i)) = pins i) \<and>
     (\<forall>c b i. pins i - {c} \<subseteq> pins (snd (api_pin_rm A c b i)) \<and> pins (snd (api_pin_rm A c b i)) \<subseteq> pins i) \<and>
     (\<forall>c b i. is_ok (fst (api_pin_rm A c b i)) \<longrightarrow> c \<notin> pins (snd (api_pin_rm A c b i)))"

text \<open>A path and everything below it.\<close>

definition at_or_below :: "string \<Rightarrow> string \<Rightarrow> bool" where
  "at_or_below p q \<longleftrightarrow> q = p \<or> starts_with (p @ ''/'') q"

text \<open>MFS: a path holds a file (a link to content), a directory, or nothing.
  a \<^verbatim>\<open>files cp\<close> that succeeds links its destination, and no \<^verbatim>\<open>files cp\<close> changes
  anything but what is at or below its destination and the directories it creates above it; a
  \<^verbatim>\<open>files rm -r\<close> that succeeds removes the path with everything below it, none removes anything else,
  and it fails when there is nothing at the path. What a failed call leaves at or below its own path is open: it
  may have done all, a part or nothing of its work. The other calls do not touch the tree.\<close>

datatype mfs_entry = MfsFile string | MfsDir

abbreviation link_request :: "string \<Rightarrow> string \<Rightarrow> files_cp_request" where
  "link_request c dest \<equiv>
     \<lparr>cp_path = ''/ipfs/'' @ c, cp_dest = dest, cp_parents = Some True, cp_force = Some True\<rparr>"

definition mfs_laws :: "'i ipfs_api \<Rightarrow> ('i \<Rightarrow> string \<Rightarrow> mfs_entry option) \<Rightarrow> bool" where
  "mfs_laws A mfs \<longleftrightarrow>
     (\<forall>d i. mfs (snd (api_add A d i)) = mfs i) \<and>
     (\<forall>c b i. mfs (snd (api_pin_rm A c b i)) = mfs i) \<and>
     (\<forall>c d i. is_ok (fst (api_files_cp A (link_request c d) i)) \<longrightarrow>
        mfs (snd (api_files_cp A (link_request c d) i)) d = Some (MfsFile c)) \<and>
     (\<forall>r i p. \<not> at_or_below (cp_dest r) p \<longrightarrow>
        mfs (snd (api_files_cp A r i)) p = mfs i p \<or>
        mfs i p = None \<and> at_or_below p (cp_dest r) \<and> mfs (snd (api_files_cp A r i)) p = Some MfsDir) \<and>
     (\<forall>p i. is_ok (fst (api_files_rm A p True i)) \<longrightarrow>
        mfs (snd (api_files_rm A p True i)) = (\<lambda>q. if at_or_below p q then None else mfs i q)) \<and>
     (\<forall>p i q. mfs (snd (api_files_rm A p True i)) q = mfs i q \<or>
        at_or_below p q \<and> mfs (snd (api_files_rm A p True i)) q = None) \<and>
     (\<forall>p i. mfs i p = None \<longrightarrow> \<not> is_ok (fst (api_files_rm A p True i)))"

text \<open>Content: what \<^verbatim>\<open>add\<close> returned identifies the bytes added; pinned content stays
  available through every call; a \<^verbatim>\<open>cat\<close> that reports no error yields the bytes.\<close>

definition content_laws ::
  "'i ipfs_api \<Rightarrow> ('i \<Rightarrow> string set) \<Rightarrow> ('i \<Rightarrow> string \<Rightarrow> bytes option) \<Rightarrow> bool" where
  "content_laws A pins content \<longleftrightarrow>
     (\<forall>d i a. fst (api_add A d i) = Inr a \<longrightarrow> content (snd (api_add A d i)) (ar_hash a) = Some d) \<and>
     (\<forall>d i c. c \<in> pins i \<longrightarrow> content i c \<noteq> None \<longrightarrow> content (snd (api_add A d i)) c = content i c) \<and>
     (\<forall>r i c. c \<in> pins i \<longrightarrow> content (snd (api_files_cp A r i)) c = content i c) \<and>
     (\<forall>p b i c. c \<in> pins i \<longrightarrow> content (snd (api_files_rm A p b i)) c = content i c) \<and>
     (\<forall>c b i c'. c' \<in> pins i \<longrightarrow> c' \<noteq> c \<longrightarrow> content (snd (api_pin_rm A c b i)) c' = content i c') \<and>
     (\<forall>c i d. content i c = Some d \<longrightarrow> list_all is_ok (api_cat A c i) \<longrightarrow>
        concat (map projr (api_cat A c i)) = d)"

section \<open>The interface of the node to the handlers: pinned content\<close>

locale pin_store =
  fixes add :: "string \<Rightarrow> bytes \<Rightarrow> 'i \<Rightarrow> (ipfs_error + add_response) \<times> 'i"
    and drop_link :: "string \<Rightarrow> 'i \<Rightarrow> (ipfs_error + unit) \<times> 'i"
    and drop_pin :: "metadata_response \<Rightarrow> 'i \<Rightarrow> (ipfs_error + unit) \<times> 'i"
    and pins :: "'i \<Rightarrow> string set"
    and lawful :: bool
  assumes add_keeps: "lawful \<Longrightarrow> pins i \<subseteq> pins (snd (add p d i))"
    and add_pins: "lawful \<Longrightarrow> fst (add p d i) = Inr a \<Longrightarrow> ar_hash a \<in> pins (snd (add p d i))"
    and drop_link_keeps: "lawful \<Longrightarrow> pins (snd (drop_link p i)) = pins i"
    and drop_pin_keeps: "lawful \<Longrightarrow> pins i - {md_cid m} \<subseteq> pins (snd (drop_pin m i))"
    and drop_pin_drops: "lawful \<Longrightarrow> is_ok (fst (drop_pin m i)) \<Longrightarrow>
      pins (snd (drop_pin m i)) = pins i - {md_cid m}"
begin

text \<open>Every identifier of a set is pinned, before and after each operation.\<close>

definition covers :: "'i \<Rightarrow> string set \<Rightarrow> bool" where
  "covers i cs \<longleftrightarrow> cs \<subseteq> pins i"

lemma covers_mono: "covers i cs \<Longrightarrow> ds \<subseteq> cs \<Longrightarrow> covers i ds"
  by (auto simp: covers_def)

lemma covers_add: "lawful \<Longrightarrow> covers i cs \<Longrightarrow> add p d i = (r, i') \<Longrightarrow> covers i' cs"
  using add_keeps [of i p d] by (auto simp: covers_def)

lemma covers_added:
  "lawful \<Longrightarrow> covers i cs \<Longrightarrow> add p d i = (Inr a, i') \<Longrightarrow> covers i' (insert (ar_hash a) cs)"
  using add_keeps [of i p d] add_pins [of p d i a] by (auto simp: covers_def)

lemma covers_drop_link: "lawful \<Longrightarrow> covers i cs \<Longrightarrow> drop_link p i = (r, i') \<Longrightarrow> covers i' cs"
  using drop_link_keeps [of p i] by (simp add: covers_def)

lemma covers_drop_pin:
  "lawful \<Longrightarrow> covers i cs \<Longrightarrow> md_cid m \<notin> cs \<Longrightarrow> drop_pin m i = (r, i') \<Longrightarrow> covers i' cs"
  using drop_pin_keeps [of i m] by (auto simp: covers_def)

end

lemma add_content_pins:
  assumes "pin_laws A pins"
  shows "pins i \<subseteq> pins (snd (add_content A p d i))"
    and "fst (add_content A p d i) = Inr a \<Longrightarrow> ar_hash a \<in> pins (snd (add_content A p d i))"
proof -
  obtain r1 i1 where add: "api_add A d i = (r1, i1)" by fastforce
  have le: "pins i \<subseteq> pins i1"
    using assms add unfolding pin_laws_def by (metis snd_conv)
  have cp: "pins (snd (api_files_cp A q i1)) = pins i1" for q
    using assms unfolding pin_laws_def by blast
  show "pins i \<subseteq> pins (snd (add_content A p d i))"
    using add le cp by (auto simp: add_content_def split: sum.splits prod.splits)
      (metis in_mono snd_conv)+
  assume ok: "fst (add_content A p d i) = Inr a"
  then have "r1 = Inr a"
    using add by (auto simp: add_content_def split: sum.splits prod.splits)
  then have "ar_hash a \<in> pins i1"
    using assms add unfolding pin_laws_def by (metis fst_conv snd_conv)
  then show "ar_hash a \<in> pins (snd (add_content A p d i))"
    using add cp by (auto simp: add_content_def split: sum.splits prod.splits) (metis snd_conv)+
qed

interpretation node: pin_store "add_content A" "unlink A" "unpin A" pins "pin_laws A pins"
  for A :: "'i ipfs_api" and pins
proof
  fix i p d a and m :: metadata_response
  assume laws: "pin_laws A pins"
  show "pins i \<subseteq> pins (snd (add_content A p d i))"
    by (rule add_content_pins(1) [OF laws])
  show "ar_hash a \<in> pins (snd (add_content A p d i))" if "fst (add_content A p d i) = Inr a"
    by (rule add_content_pins(2) [OF laws that])
  show "pins (snd (unlink A p i)) = pins i"
    using laws by (auto simp: pin_laws_def unlink_def split: prod.splits sum.splits) (metis snd_conv)+
  have rm: "pins i - {md_cid m} \<subseteq> pins (snd (api_pin_rm A (md_cid m) True i))"
      "pins (snd (api_pin_rm A (md_cid m) True i)) \<subseteq> pins i"
      "is_ok (fst (api_pin_rm A (md_cid m) True i)) \<Longrightarrow> md_cid m \<notin> pins (snd (api_pin_rm A (md_cid m) True i))"
    using laws unfolding pin_laws_def by blast+
  have same: "snd (unpin A m i) = snd (api_pin_rm A (md_cid m) True i)"
      "is_ok (fst (unpin A m i)) = is_ok (fst (api_pin_rm A (md_cid m) True i))"
    by (auto simp: unpin_def split: prod.splits sum.splits)
  show "pins i - {md_cid m} \<subseteq> pins (snd (unpin A m i))"
    using rm(1) same by simp
  show "pins (snd (unpin A m i)) = pins i - {md_cid m}" if "is_ok (fst (unpin A m i))"
    using rm that same by auto
qed

section \<open>The interface of the node to the handlers: the tree and the content\<close>

locale mfs_links =
  fixes add :: "string \<Rightarrow> bytes \<Rightarrow> 'i \<Rightarrow> (ipfs_error + add_response) \<times> 'i"
    and drop_link :: "string \<Rightarrow> 'i \<Rightarrow> (ipfs_error + unit) \<times> 'i"
    and mfs :: "'i \<Rightarrow> string \<Rightarrow> mfs_entry option"
    and lawful :: bool
  assumes add_links: "lawful \<Longrightarrow> fst (add p d i) = Inr a \<Longrightarrow>
      mfs (snd (add p d i)) p = Some (MfsFile (ar_hash a))"
    and add_elsewhere: "lawful \<Longrightarrow> \<not> at_or_below p q \<Longrightarrow> mfs i q \<noteq> None \<or> \<not> at_or_below q p \<Longrightarrow>
      mfs (snd (add p d i)) q = mfs i q"
    and drop_link_ok: "lawful \<Longrightarrow> is_ok (fst (drop_link p i)) \<Longrightarrow>
      mfs (snd (drop_link p i)) = (\<lambda>q. if at_or_below p q then None else mfs i q)"
    and drop_link_removes: "lawful \<Longrightarrow> mfs (snd (drop_link p i)) q = mfs i q \<or>
      at_or_below p q \<and> mfs (snd (drop_link p i)) q = None"
    and drop_link_missing: "lawful \<Longrightarrow> mfs i p = None \<Longrightarrow> \<not> is_ok (fst (drop_link p i))"
begin

lemma drop_link_twice:
  "lawful \<Longrightarrow> is_ok (fst (drop_link p i)) \<Longrightarrow> \<not> is_ok (fst (drop_link p (snd (drop_link p i))))"
  using drop_link_ok [of p i] by (intro drop_link_missing) (simp_all add: at_or_below_def)

lemma drop_link_elsewhere: "lawful \<Longrightarrow> \<not> at_or_below p q \<Longrightarrow> mfs (snd (drop_link p i)) q = mfs i q"
  using drop_link_removes [of p i q] by blast

lemma drop_link_nothing: "lawful \<Longrightarrow> mfs i q = None \<Longrightarrow> mfs (snd (drop_link p i)) q = None"
  using drop_link_removes [of p i q] by auto

end

locale content_store =
  fixes add :: "string \<Rightarrow> bytes \<Rightarrow> 'i \<Rightarrow> (ipfs_error + add_response) \<times> 'i"
    and get :: "string \<Rightarrow> 'i \<Rightarrow> (ipfs_error + bytes) list"
    and content :: "'i \<Rightarrow> string \<Rightarrow> bytes option"
    and lawful :: bool
  assumes add_stores: "lawful \<Longrightarrow> fst (add p d i) = Inr a \<Longrightarrow> content (snd (add p d i)) (ar_hash a) = Some d"
    and get_content: "lawful \<Longrightarrow> content i c = Some d \<Longrightarrow> list_all is_ok (get c i) \<Longrightarrow>
      concat (map projr (get c i)) = d"
begin

lemma add_get:
  "lawful \<Longrightarrow> add p d i = (Inr a, i') \<Longrightarrow> list_all is_ok (get (ar_hash a) i') \<Longrightarrow>
     concat (map projr (get (ar_hash a) i')) = d"
  using add_stores [of p d i a] by (intro get_content) simp_all

end

lemma pin_rm_subset:
  assumes "pin_laws A pins"
  shows "pins (snd (unpin A m i)) \<subseteq> pins i"
proof -
  have "snd (unpin A m i) = snd (api_pin_rm A (md_cid m) True i)"
    by (auto simp: unpin_def split: prod.splits sum.splits)
  then show ?thesis using assms unfolding pin_laws_def by simp
qed

lemma mfs_lawsD:
  assumes "mfs_laws A mfs"
  shows "mfs (snd (api_add A d i)) = mfs i"
    and "mfs (snd (api_pin_rm A c b i)) = mfs i"
    and "is_ok (fst (api_files_cp A (link_request c p) i)) \<Longrightarrow>
      mfs (snd (api_files_cp A (link_request c p) i)) p = Some (MfsFile c)"
    and "\<not> at_or_below (cp_dest r) q \<Longrightarrow> mfs i q \<noteq> None \<or> \<not> at_or_below q (cp_dest r) \<Longrightarrow>
      mfs (snd (api_files_cp A r i)) q = mfs i q"
    and "is_ok (fst (api_files_rm A p True i)) \<Longrightarrow>
      mfs (snd (api_files_rm A p True i)) = (\<lambda>q. if at_or_below p q then None else mfs i q)"
    and "mfs (snd (api_files_rm A p True i)) q = mfs i q \<or>
      at_or_below p q \<and> mfs (snd (api_files_rm A p True i)) q = None"
    and "mfs i p = None \<Longrightarrow> \<not> is_ok (fst (api_files_rm A p True i))"
proof -
  note l1 = assms [unfolded mfs_laws_def]
  note l2 = conjunct2 [OF l1] note l3 = conjunct2 [OF l2] note l4 = conjunct2 [OF l3]
  note l5 = conjunct2 [OF l4] note l6 = conjunct2 [OF l5]
  note add = conjunct1 [OF l1] and pin = conjunct1 [OF l2] and cp = conjunct1 [OF l3]
    and cp_else = conjunct1 [OF l4] and rm = conjunct1 [OF l5] and rm_removes = conjunct1 [OF l6]
    and rm_missing = conjunct2 [OF l6]
  show "mfs (snd (api_add A d i)) = mfs i" by (rule spec [OF spec [OF add]])
  show "mfs (snd (api_pin_rm A c b i)) = mfs i" by (rule spec [OF spec [OF spec [OF pin]]])
  show "mfs (snd (api_files_cp A (link_request c p) i)) p = Some (MfsFile c)"
    if "is_ok (fst (api_files_cp A (link_request c p) i))"
    by (rule mp [OF spec [OF spec [OF spec [OF cp]]]]) (rule that)
  show "mfs (snd (api_files_cp A r i)) q = mfs i q"
    if "\<not> at_or_below (cp_dest r) q" "mfs i q \<noteq> None \<or> \<not> at_or_below q (cp_dest r)"
    using mp [OF spec [OF spec [OF spec [OF cp_else, of r], of i]] that(1)] that(2) by (elim disjE conjE) simp_all
  show "mfs (snd (api_files_rm A p True i)) = (\<lambda>q. if at_or_below p q then None else mfs i q)"
    if "is_ok (fst (api_files_rm A p True i))"
    by (rule mp [OF spec [OF spec [OF rm]]]) (rule that)
  show "mfs (snd (api_files_rm A p True i)) q = mfs i q \<or>
      at_or_below p q \<and> mfs (snd (api_files_rm A p True i)) q = None"
    by (rule spec [OF spec [OF spec [OF rm_removes]]])
  show "\<not> is_ok (fst (api_files_rm A p True i))" if "mfs i p = None"
    by (rule mp [OF spec [OF spec [OF rm_missing]]]) (rule that)
qed

text \<open>\<open>add_content\<close> is an \<open>add\<close>, then a \<open>files cp\<close>.\<close>

lemma add_content_cases:
  obtains (add_failed) e i1 where "api_add A d i = (Inl e, i1)" "add_content A p d i = (Inl (ClientError e), i1)"
  | (cp_failed) a i1 e i2 where "api_add A d i = (Inr a, i1)"
      "api_files_cp A (link_request (ar_hash a) p) i1 = (Inl e, i2)"
      "add_content A p d i = (Inl (ClientError e), i2)"
  | (added) a i1 i2 where "api_add A d i = (Inr a, i1)"
      "api_files_cp A (link_request (ar_hash a) p) i1 = (Inr (), i2)" "add_content A p d i = (Inr a, i2)"
proof -
  obtain r1 i1 where add: "api_add A d i = (r1, i1)" by fastforce
  show thesis
  proof (cases r1)
    case (Inl e)
    with add show thesis by (intro add_failed [of e i1]) (simp_all add: add_content_def)
  next
    case (Inr a)
    obtain r2 i2 where cp: "api_files_cp A (link_request (ar_hash a) p) i1 = (r2, i2)" by fastforce
    show thesis
    proof (cases r2)
      case (Inl e)
      with add cp Inr show thesis by (intro cp_failed [of a i1 e i2]) (simp_all add: add_content_def)
    next
      case r2: (Inr u)
      with add cp Inr show thesis by (intro added [of a i1 i2]) (simp_all add: add_content_def)
    qed
  qed
qed

lemma unlink_same:
  "snd (unlink A p i) = snd (api_files_rm A p True i)"
  "is_ok (fst (unlink A p i)) = is_ok (fst (api_files_rm A p True i))"
  by (simp_all add: unlink_def split: prod.split sum.split)

interpretation tree: mfs_links "add_content A" "unlink A" mfs "mfs_laws A mfs"
  for A :: "'i ipfs_api" and mfs
proof
  fix p q d i a
  assume laws: "mfs_laws A mfs"
  show "mfs (snd (add_content A p d i)) p = Some (MfsFile (ar_hash a))" if "fst (add_content A p d i) = Inr a"
    using mfs_lawsD(3) [OF laws] that by (cases rule: add_content_cases [of A d i p]) (simp_all, metis fst_conv snd_conv sum.disc(2))
  show "mfs (snd (add_content A p d i)) q = mfs i q"
    if "\<not> at_or_below p q" "mfs i q \<noteq> None \<or> \<not> at_or_below q p"
  proof (cases rule: add_content_cases [of A d i p])
    case (add_failed e i1)
    with mfs_lawsD(1) [OF laws, of d i] show ?thesis by simp
  next
    case (cp_failed a i1 e i2)
    with mfs_lawsD(1) [OF laws, of d i] mfs_lawsD(4) [OF laws, of "link_request (ar_hash a) p" q i1] that
    show ?thesis by simp
  next
    case (added a i1 i2)
    with mfs_lawsD(1) [OF laws, of d i] mfs_lawsD(4) [OF laws, of "link_request (ar_hash a) p" q i1] that
    show ?thesis by simp
  qed
  show "mfs (snd (unlink A p i)) = (\<lambda>q. if at_or_below p q then None else mfs i q)" if "is_ok (fst (unlink A p i))"
    using mfs_lawsD(5) [OF laws] that by (simp add: unlink_same)
  show "mfs (snd (unlink A p i)) q = mfs i q \<or> at_or_below p q \<and> mfs (snd (unlink A p i)) q = None"
    using mfs_lawsD(6) [OF laws] by (simp add: unlink_same)
  show "\<not> is_ok (fst (unlink A p i))" if "mfs i p = None"
    using mfs_lawsD(7) [OF laws] that by (simp add: unlink_same)
qed

lemma content_lawsD:
  assumes "content_laws A pins content"
  shows "fst (api_add A d i) = Inr a \<Longrightarrow> content (snd (api_add A d i)) (ar_hash a) = Some d"
    and "c \<in> pins i \<Longrightarrow> content (snd (api_files_cp A r i)) c = content i c"
    and "content i c = Some d \<Longrightarrow> list_all is_ok (api_cat A c i) \<Longrightarrow> concat (map projr (api_cat A c i)) = d"
  using assms unfolding content_laws_def by simp_all

interpretation blocks: content_store "add_content A" "get_content A" content
    "pin_laws A pins \<and> content_laws A pins content"
  for A :: "'i ipfs_api" and pins content
proof
  fix p d i a c
  assume "pin_laws A pins \<and> content_laws A pins content"
  then have pin: "pin_laws A pins" and laws: "content_laws A pins content" by simp_all
  show "content (snd (add_content A p d i)) (ar_hash a) = Some d" if "fst (add_content A p d i) = Inr a"
  proof (cases rule: add_content_cases [of A d i p])
    case (added a' i1 i2)
    have "ar_hash a' \<in> pins i1"
      using pin added(1) unfolding pin_laws_def by (metis fst_conv snd_conv)
    then show ?thesis
      using content_lawsD(1) [OF laws, of d i a'] content_lawsD(2) [OF laws, of "ar_hash a'" i1] added that
      by (metis fst_conv snd_conv sum.inject(2))
  qed (use that in simp_all)
  show "concat (map projr (get_content A c i)) = d" if "content i c = Some d" "list_all is_ok (get_content A c i)"
  proof -
    have "is_ok (map_sum ClientError id x) = is_ok x"
        "is_ok x \<Longrightarrow> projr (map_sum ClientError id x) = projr x" for x :: "string + bytes"
      by (cases x; simp)+
    then have ok: "list_all is_ok (api_cat A c i)"
        and "list_all is_ok xs \<Longrightarrow> map projr (map (map_sum ClientError id) xs) = map projr xs"
      for xs :: "(string + bytes) list"
      using that(2) by (simp_all add: get_content_def list_all_iff)
    with content_lawsD(3) [OF laws that(1) ok] show ?thesis by (simp only: get_content_def)
  qed
qed

end
