(* ===== verification/App.thy ===== *)
theory App imports Config Slots Ipfs begin

text \<open>
  The state a handler works on (\<open>App\<close> of \<^verbatim>\<open>src/src/main.rs\<close>), the record of everything
  outside the repository that the handlers call, and the helpers of
  \<^verbatim>\<open>src/src/s3/mod.rs\<close>.

  A handler is a function from the state to its result and the new state. The configuration does not
  change while the server runs, so it is an argument. \<open>tokio::spawn\<close> puts a task on the list
  \<open>app_tasks\<close>, to be run at some later time (\<^verbatim>\<open>Server.thy\<close>).
\<close>

datatype background =
    UnpinOld "metadata_response option" add_response
  | TrimEmpty metadata_response

record ('p, 'i, 'm) app_state =
  app_db :: "'p database"
  app_node :: 'i
  app_slots :: 'm
  app_tasks :: "background list"

text \<open>The payloads of \<open>DeleteObjects\<close> (\<^verbatim>\<open>s3/post_bucket.rs\<close>), as \<^verbatim>\<open>serde\<close> reads and
  prints them.\<close>

record delete_object_object =
  object_key :: string

record delete_objects_payload =
  payload_object :: "delete_object_object list"

record deleted_objects_response =
  response_deleted :: "delete_object_object list"
  response_error :: "delete_object_object list"

text \<open>The world outside the repository: the connection pool, the node, the two concurrent maps, the
  \<^verbatim>\<open>typed_path\<close> operations, \<^verbatim>\<open>mime_guess\<close>, the
  \<^verbatim>\<open>http\<close> crate's checks and \<open>Uri\<close> rendering, \<^verbatim>\<open>chrono\<close>'s date
  format, the address tables of \<^verbatim>\<open>iprfc\<close> and \<^verbatim>\<open>ipnet\<close>, and the XML reader
  and writer of \<^verbatim>\<open>quick_xml\<close>.\<close>

record ('p, 'i, 'm, 'n, 'net, 'ip) env =
  sqlx_exec :: "'p sqlx"
  node_api :: "'i ipfs_api"
  slot_ops :: "('m, string, 'n) dashmap_ops"
  part_ops :: "('n, i8, bytes) dashmap_ops"
  path_push_checked :: "string \<Rightarrow> string \<Rightarrow> string + string"
  path_normalize :: "string \<Rightarrow> string"
  path_ancestors :: "string \<Rightarrow> string list"
  guess_mime :: "string \<Rightarrow> string"
  octet_stream :: string
  header_value_ok :: "string \<Rightarrow> bool"
  header_to_str :: "string \<Rightarrow> string option"
  http_date :: "timestamp \<Rightarrow> string"
  path_and_query_from_str :: "string \<Rightarrow> string option"
  uri_from_parts :: "uri_parts \<Rightarrow> string option"
  uri_default :: string
  rfc6890_contains :: "'ip \<Rightarrow> bool"
  net_contains :: "'net \<Rightarrow> 'ip \<Rightarrow> bool"
  xml_read_delete :: "bytes \<Rightarrow> delete_objects_payload option"
  xml_write_result :: "string \<Rightarrow> deleted_objects_response \<Rightarrow> string option"

definition response_with_capacity :: "nat \<Rightarrow> deleted_objects_response" where
  "response_with_capacity capacity = \<lparr>response_deleted = [], response_error = []\<rparr>"

definition response_to_string ::
  "('p, 'i, 'm, 'n, 'net, 'ip) env \<Rightarrow> deleted_objects_response \<Rightarrow> string option" where
  "response_to_string E r = xml_write_result E ''DeleteResult'' r"

text \<open>The keys a payload names, in its order, and the report on two lists of keys.\<close>

definition parse_delete_payload ::
  "('p, 'i, 'm, 'n, 'net, 'ip) env \<Rightarrow> bytes \<Rightarrow> string list option" where
  "parse_delete_payload E body =
     map_option (\<lambda>to_delete. map object_key (payload_object to_delete)) (xml_read_delete E body)"

definition print_delete_result ::
  "('p, 'i, 'm, 'n, 'net, 'ip) env \<Rightarrow> string list \<Rightarrow> string list \<Rightarrow> string option" where
  "print_delete_result E deleted errors =
     response_to_string E
       ((response_with_capacity (length deleted + length errors))
          \<lparr>response_deleted := map (\<lambda>k. \<lparr>object_key = k\<rparr>) deleted,
           response_error := map (\<lambda>k. \<lparr>object_key = k\<rparr>) errors\<rparr>)"

definition with_db ::
  "('p database \<Rightarrow> 'a \<times> 'p database) \<Rightarrow> ('p, 'i, 'm) app_state \<Rightarrow> 'a \<times> ('p, 'i, 'm) app_state" where
  "with_db f s = (case f (app_db s) of (a, db) \<Rightarrow> (a, s\<lparr>app_db := db\<rparr>))"

definition with_node ::
  "('i \<Rightarrow> 'a \<times> 'i) \<Rightarrow> ('p, 'i, 'm) app_state \<Rightarrow> 'a \<times> ('p, 'i, 'm) app_state" where
  "with_node f s = (case f (app_node s) of (a, i) \<Rightarrow> (a, s\<lparr>app_node := i\<rparr>))"

definition with_slots ::
  "('m \<Rightarrow> 'a \<times> 'm) \<Rightarrow> ('p, 'i, 'm) app_state \<Rightarrow> 'a \<times> ('p, 'i, 'm) app_state" where
  "with_slots f s = (case f (app_slots s) of (a, m) \<Rightarrow> (a, s\<lparr>app_slots := m\<rparr>))"

definition spawn :: "background \<Rightarrow> ('p, 'i, 'm) app_state \<Rightarrow> ('p, 'i, 'm) app_state" where
  "spawn t s = s\<lparr>app_tasks := app_tasks s @ [t]\<rparr>"

abbreviation rows_of :: "('p, 'i, 'm) app_state \<Rightarrow> row list" where
  "rows_of s \<equiv> db_rows (app_db s)"

section \<open>Helpers of the S3 module\<close>

definition normalized_path ::
  "('p, 'i, 'm, 'n, 'net, 'ip) env \<Rightarrow> string \<Rightarrow> string \<Rightarrow> string \<Rightarrow> string + string" where
  "normalized_path E start bucket key =
     (case path_push_checked E ''/'' start of
        Inl e \<Rightarrow> Inl e
      | Inr root1 \<Rightarrow>
          (case path_push_checked E root1 bucket of
             Inl e \<Rightarrow> Inl e
           | Inr root2 \<Rightarrow>
               (case path_push_checked E root2 key of
                  Inl e \<Rightarrow> Inl e
                | Inr root3 \<Rightarrow> Inr (path_normalize E root3))))"

definition etag_value :: "string \<Rightarrow> string" where
  "etag_value cid = ''W/'' @ cid"

definition ipfs_path_of :: "string \<Rightarrow> string" where
  "ipfs_path_of cid = ''/ipfs/'' @ cid"

definition unpin_if_orphan ::
  "('p, 'i, 'm, 'n, 'net, 'ip) env \<Rightarrow> metadata_response \<Rightarrow> ('p, 'i, 'm) app_state
     \<Rightarrow> (status + unit) \<times> ('p, 'i, 'm) app_state" where
  "unpin_if_orphan E metadata s =
     (case with_db (cid_count (sqlx_exec E) (md_cid metadata)) s of
        (Inl _, s1) \<Rightarrow> (Inl INTERNAL_SERVER_ERROR, s1)
      | (Inr remaining, s1) \<Rightarrow>
          if remaining = 0 then
            (case with_node (unpin (node_api E) metadata) s1 of
               (Inl _, s2) \<Rightarrow> (Inl INTERNAL_SERVER_ERROR, s2)
             | (Inr _, s2) \<Rightarrow> (Inr (), s2))
          else (Inr (), s1))"

section \<open>Components touched\<close>

lemma with_db_simps [simp]:
  "app_node (snd (with_db f s)) = app_node s" "app_slots (snd (with_db f s)) = app_slots s"
  "app_tasks (snd (with_db f s)) = app_tasks s" "fst (with_db f s) = fst (f (app_db s))"
  "app_db (snd (with_db f s)) = snd (f (app_db s))"
  by (simp_all add: with_db_def split: prod.splits)

lemma with_node_simps [simp]:
  "app_db (snd (with_node f s)) = app_db s" "app_slots (snd (with_node f s)) = app_slots s"
  "app_tasks (snd (with_node f s)) = app_tasks s" "fst (with_node f s) = fst (f (app_node s))"
  "app_node (snd (with_node f s)) = snd (f (app_node s))"
  by (simp_all add: with_node_def split: prod.splits)

lemma with_dbE:
  assumes "with_db f s = (r, s')"
  obtains db' where "f (app_db s) = (r, db')" and "s' = s\<lparr>app_db := db'\<rparr>"
  using assms by (auto simp: with_db_def split: prod.splits)

lemma with_nodeE:
  assumes "with_node f s = (r, s')"
  obtains i' where "f (app_node s) = (r, i')" and "s' = s\<lparr>app_node := i'\<rparr>"
  using assms by (auto simp: with_node_def split: prod.splits)

lemma with_slotsE:
  assumes "with_slots f s = (r, s')"
  obtains m' where "f (app_slots s) = (r, m')" and "s' = s\<lparr>app_slots := m'\<rparr>"
  using assms by (auto simp: with_slots_def split: prod.splits)

lemma spawn_simps [simp]:
  "app_db (spawn t s) = app_db s" "app_node (spawn t s) = app_node s"
  "app_slots (spawn t s) = app_slots s" "app_tasks (spawn t s) = app_tasks s @ [t]"
  by (simp_all add: spawn_def)

section \<open>The pin invariant\<close>

text \<open>The table has its primary key and every content identifier it mentions is pinned.\<close>

definition pins_ok :: "('i \<Rightarrow> string set) \<Rightarrow> ('p, 'i, 'm) app_state \<Rightarrow> bool" where
  "pins_ok pins s \<longleftrightarrow>
     primary_key (rows_of s) \<and> referenced_cids (rows_of s) \<subseteq> pins (app_node s)"

lemma pins_ok_cong:
  "rows_of s' = rows_of s \<Longrightarrow> app_node s' = app_node s \<Longrightarrow> pins_ok pins s' = pins_ok pins s"
  by (simp add: pins_ok_def)

lemma pins_ok_query:
  "with_db f s = (r, s') \<Longrightarrow> (\<And>q db'. f (app_db s) = (q, db') \<Longrightarrow> db_rows db' = rows_of s) \<Longrightarrow>
     pins_ok pins s \<Longrightarrow> pins_ok pins s'"
  by (elim with_dbE) (simp add: pins_ok_def)

text \<open>The two ways through \<open>unpin_if_orphan\<close>: it leaves the node alone, or it calls \<open>unpin\<close> after a
  count of zero.\<close>

lemma unpin_if_orphan_cases:
  assumes "unpin_if_orphan E md s = (r, s')"
  obtains (kept) db' where "s' = s\<lparr>app_db := db'\<rparr>" "db_rows db' = rows_of s"
  | (unpinned) db' u i' where "s' = s\<lparr>app_db := db', app_node := i'\<rparr>" "db_rows db' = rows_of s"
      "sql_count_cid (md_cid md) (rows_of s) = 0" "unpin (node_api E) md (app_node s) = (u, i')"
proof -
  obtain q s1 where q: "with_db (cid_count (sqlx_exec E) (md_cid md)) s = (q, s1)" by fastforce
  then obtain db1 where db1: "cid_count (sqlx_exec E) (md_cid md) (app_db s) = (q, db1)"
      "s1 = s\<lparr>app_db := db1\<rparr>"
    by (rule with_dbE)
  have rows: "db_rows db1 = rows_of s" using cid_count_rows [OF db1(1)] by simp
  show thesis
  proof (cases "q = Inr 0")
    case False
    with assms q have "s' = s1"
      by (auto simp: unpin_if_orphan_def split: sum.splits)
    with db1(2) rows show thesis by (intro kept [of db1]) simp_all
  next
    case True
    then have zero: "sql_count_cid (md_cid md) (rows_of s) = 0" using cid_count_rows [OF db1(1)] by auto
    obtain u s2 where u: "with_node (unpin (node_api E) md) s1 = (u, s2)" by fastforce
    then obtain i2 where i2: "unpin (node_api E) md (app_node s1) = (u, i2)" "s2 = s1\<lparr>app_node := i2\<rparr>"
      by (rule with_nodeE)
    have "s' = s2"
      using assms q True u by (auto simp: unpin_if_orphan_def split: sum.splits)
    with i2 db1(2) rows zero show thesis by (intro unpinned [of i2 db1 u]) simp_all
  qed
qed

lemma unpin_if_orphan_rows:
  "unpin_if_orphan E md s = (r, s') \<Longrightarrow> rows_of s' = rows_of s"
  by (erule unpin_if_orphan_cases) simp_all

lemma unpin_if_orphan_frame:
  "unpin_if_orphan E md s = (r, s') \<Longrightarrow> app_slots s' = app_slots s \<and> app_tasks s' = app_tasks s"
  by (erule unpin_if_orphan_cases) simp_all

lemma unpin_if_orphan_pins:
  assumes laws: "pin_laws (node_api E) pins" and ok: "pins_ok pins s"
    and run: "unpin_if_orphan E md s = (r, s')"
  shows "pins_ok pins s'"
  using run
proof (cases rule: unpin_if_orphan_cases)
  case (kept db')
  with ok show ?thesis by (simp add: pins_ok_def)
next
  case (unpinned db' u i')
  have "md_cid md \<notin> referenced_cids (rows_of s)"
    using unpinned(3) ok by (simp add: pins_ok_def flip: sql_count_zero)
  then have "node.covers pins i' (referenced_cids (rows_of s))"
    using node.covers_drop_pin [OF laws _ _ unpinned(4)] ok by (simp add: node.covers_def pins_ok_def)
  with ok unpinned show ?thesis by (simp add: node.covers_def pins_ok_def)
qed

text \<open>When it succeeds, \<open>unpin_if_orphan\<close> has taken the pin away exactly if no row has the content; it
  leaves the tree alone.\<close>

lemma orphan_unpinned:
  assumes "pin_laws (node_api E) pins" and "mfs_laws (node_api E) mfs" and "primary_key (rows_of s)"
    and run: "unpin_if_orphan E md s = (Inr (), s')"
  shows "mfs (app_node s') = mfs (app_node s)"
    and "pins (app_node s') = (if md_cid md \<in> referenced_cids (rows_of s) then pins (app_node s)
                               else pins (app_node s) - {md_cid md})"
proof -
  obtain q s1 where q: "with_db (cid_count (sqlx_exec E) (md_cid md)) s = (q, s1)" by fastforce
  then obtain db1 where db1: "cid_count (sqlx_exec E) (md_cid md) (app_db s) = (q, db1)"
      "s1 = s\<lparr>app_db := db1\<rparr>"
    by (rule with_dbE)
  obtain n where n: "q = Inr n" using run q by (cases q) (simp_all add: unpin_if_orphan_def)
  then have count: "n = sql_count_cid (md_cid md) (rows_of s)" using cid_count_rows [OF db1(1)] by simp
  obtain u s2 where u: "with_node (unpin (node_api E) md) s1 = (u, s2)" by fastforce
  then obtain i2 where i2: "unpin (node_api E) md (app_node s1) = (u, i2)" "s2 = s1\<lparr>app_node := i2\<rparr>"
    by (rule with_nodeE)
  have s': "if n = 0 then is_ok u \<and> s' = s2 else s' = s1"
    using run q n u by (auto simp: unpin_if_orphan_def split: sum.splits if_splits)
  have zero: "n = 0 \<longleftrightarrow> md_cid md \<notin> referenced_cids (rows_of s)"
    unfolding count by (rule sql_count_zero [OF assms(3)])
  have tree: "mfs i2 = mfs (app_node s1)"
    using mfs_lawsD(2) [OF assms(2), of "md_cid md" True "app_node s1"] i2(1)
    by (auto simp: unpin_def split: prod.splits sum.splits)
  have pin: "pins i2 = pins (app_node s1) - {md_cid md}" if "is_ok u"
    using node.drop_pin_drops [OF assms(1), of md "app_node s1"] i2(1) that by simp
  show "mfs (app_node s') = mfs (app_node s)"
    using s' tree i2(2) db1(2) by (simp split: if_splits)
  show "pins (app_node s') = (if md_cid md \<in> referenced_cids (rows_of s) then pins (app_node s)
                               else pins (app_node s) - {md_cid md})"
    using s' zero pin i2(2) db1(2) by (simp split: if_splits)
qed

end
