(* ===== verification/PutObject.thy ===== *)
theory PutObject imports App begin

text \<open>
  \<^verbatim>\<open>src/src/s3/put_object.rs\<close>: the query parameters that make a \<open>PUT\<close> an
  \<open>UploadPart\<close>, and the handler. The content type is the header's rendered value when the
  request has a well-formed one.
\<close>

record multi_part_params =
  part_number :: i8
  upload_id :: string

text \<open>\<open>Option<PutObjectMultiPartParams>\<close> flattened into the query: both keys exactly once and a
  part number that \<open>i8\<close> can hold; a struct that fails to deserialize under a flattened
  \<open>Option\<close> is \<open>None\<close>.\<close>

definition upload_part_from_query :: "(string \<times> string) list \<Rightarrow> multi_part_params option" where
  "upload_part_from_query q =
     (case (filter (\<lambda>(k, _). k = ''partNumber'') q, filter (\<lambda>(k, _). k = ''uploadId'') q) of
        ([(_, p)], [(_, u)]) \<Rightarrow>
          (case i8_from_str p of
             Inl _ \<Rightarrow> None
           | Inr n \<Rightarrow> Some \<lparr>part_number = n, upload_id = u\<rparr>)
      | _ \<Rightarrow> None)"

text \<open>The first branch of the handler: \<open>UploadPart\<close>. The part is written into the upload's own
  map, which the slot map refers to.\<close>

definition upload_part ::
  "('p, 'i, 'm, 'n, 'net, 'ip) env \<Rightarrow> multi_part_params \<Rightarrow> bytes \<Rightarrow> ('p, 'i, 'm) app_state
     \<Rightarrow> handler \<times> ('p, 'i, 'm) app_state" where
  "upload_part E part body s =
     (case slot_get (slot_ops E) (upload_id part) (app_slots s) of
        Some slot \<Rightarrow>
          (let slot' = snd (dm_insert (part_ops E) (part_number part) body slot)
           in (Inr (unwrap_or_default (build (header_value_ok E) OK [] no_body)),
               s\<lparr>app_slots := dm_write_ref (slot_ops E) (upload_id part) slot' (app_slots s)\<rparr>))
      | None \<Rightarrow> (Inl (Status BAD_REQUEST), s))"

definition content_type_of ::
  "('p, 'i, 'm, 'n, 'net, 'ip) env \<Rightarrow> 'net run_config \<Rightarrow> string option \<Rightarrow> string \<Rightarrow> string" where
  "content_type_of E cfg content_type key =
     (case content_type of
        Some ct \<Rightarrow> ct
      | None \<Rightarrow> if flag (auto_mime (experimental cfg)) then guess_mime E key else octet_stream E)"

definition put_headers :: "string \<Rightarrow> header list" where
  "put_headers cid =
     [(''content-length'', ''0''), (''etag'', etag_value cid), (''x-ipfs-roots'', cid),
      (''x-ipfs-path'', ipfs_path_of cid)]"

definition store_object ::
  "('p, 'i, 'm, 'n, 'net, 'ip) env \<Rightarrow> 'net run_config \<Rightarrow> string \<Rightarrow> string \<Rightarrow> string option \<Rightarrow> bytes
     \<Rightarrow> ('p, 'i, 'm) app_state \<Rightarrow> handler \<times> ('p, 'i, 'm) app_state" where
  "store_object E cfg bucket key content_type body s =
     (case with_db (get_object_metadata (sqlx_exec E) bucket key) s of
        (Inl _, s1) \<Rightarrow> (Inl (Status INTERNAL_SERVER_ERROR), s1)
      | (Inr old, s1) \<Rightarrow>
          (let ct = content_type_of E cfg content_type key
           in case normalized_path E (folder_prefix cfg) bucket key of
                Inl _ \<Rightarrow> (Inl (Status BAD_REQUEST), s1)
              | Inr path \<Rightarrow>
                  (case with_node (add_content (node_api E) path body) s1 of
                     (Inl _, s2) \<Rightarrow> (Inl (Status INTERNAL_SERVER_ERROR), s2)
                   | (Inr added, s2) \<Rightarrow>
                       (let cid = ar_hash added
                        in case with_db (store_object_metadata (sqlx_exec E) bucket key cid
                                           (usize_as_i64 (length body)) ct) s2 of
                             (Inl _, s3) \<Rightarrow> (Inl (Status INTERNAL_SERVER_ERROR), s3)
                           | (Inr _, s3) \<Rightarrow>
                               (let s4 = spawn (UnpinOld old added) s3
                                in case build (header_value_ok E) OK (put_headers cid) no_body of
                                     Inl _ \<Rightarrow> (Inl Panicked, s4)
                                   | Inr r \<Rightarrow> (Inr r, s4))))))"

definition put_object ::
  "('p, 'i, 'm, 'n, 'net, 'ip) env \<Rightarrow> 'net run_config \<Rightarrow> string \<times> string \<Rightarrow> string option
     \<Rightarrow> multi_part_params option \<Rightarrow> bytes \<Rightarrow> ('p, 'i, 'm) app_state
     \<Rightarrow> handler \<times> ('p, 'i, 'm) app_state" where
  "put_object E cfg bk content_type part body s =
     (case part of
        Some p \<Rightarrow> upload_part E p body s
      | None \<Rightarrow> store_object E cfg (fst bk) (snd bk) content_type body s)"

text \<open>The task that \<open>put_object\<close> spawns.\<close>

definition unpin_old ::
  "('p, 'i, 'm, 'n, 'net, 'ip) env \<Rightarrow> metadata_response option \<Rightarrow> add_response
     \<Rightarrow> ('p, 'i, 'm) app_state \<Rightarrow> ('p, 'i, 'm) app_state" where
  "unpin_old E old added s =
     (case old of
        Some md \<Rightarrow> if md_cid md \<noteq> ar_hash added then snd (unpin_if_orphan E md s) else s
      | None \<Rightarrow> s)"

section \<open>Outcomes of \<open>store_object\<close>\<close>

text \<open>Every way through the handler, with what is known of the state at its end.\<close>

lemma store_object_cases:
  assumes "store_object E cfg b k ct body s = (r, s')"
  obtains
    (select_failed) "r = Inl (Status INTERNAL_SERVER_ERROR)" "rows_of s' = rows_of s" "app_node s' = app_node s"
      "app_slots s' = app_slots s" "app_tasks s' = app_tasks s"
  | (bad_path) e where "r = Inl (Status BAD_REQUEST)" "normalized_path E (folder_prefix cfg) b k = Inl e"
      "rows_of s' = rows_of s" "app_node s' = app_node s" "app_slots s' = app_slots s" "app_tasks s' = app_tasks s"
  | (add_failed) path e where "r = Inl (Status INTERNAL_SERVER_ERROR)"
      "normalized_path E (folder_prefix cfg) b k = Inr path"
      "add_content (node_api E) path body (app_node s) = (Inl e, app_node s')"
      "rows_of s' = rows_of s" "app_slots s' = app_slots s" "app_tasks s' = app_tasks s"
  | (store_failed) path added where "r = Inl (Status INTERNAL_SERVER_ERROR)"
      "normalized_path E (folder_prefix cfg) b k = Inr path"
      "add_content (node_api E) path body (app_node s) = (Inr added, app_node s')"
      "rows_of s' = rows_of s" "app_slots s' = app_slots s" "app_tasks s' = app_tasks s"
      "\<not> reliable (sqlx_exec E)"
  | (stored) path added now where
      "normalized_path E (folder_prefix cfg) b k = Inr path"
      "add_content (node_api E) path body (app_node s) = (Inr added, app_node s')"
      "rows_of s' = sql_upsert (ar_hash added) b k (content_type_of E cfg ct k)
         (usize_as_i64 (length body)) now (rows_of s)"
      "app_slots s' = app_slots s"
      "app_tasks s' = app_tasks s @ [UnpinOld (sql_select b k (rows_of s)) added]"
      "r = (case build (header_value_ok E) OK (put_headers (ar_hash added)) no_body of
              Inl _ \<Rightarrow> Inl Panicked | Inr x \<Rightarrow> Inr x)"
proof -
  obtain q s1 where q: "with_db (get_object_metadata (sqlx_exec E) b k) s = (q, s1)" by fastforce
  then obtain db1 where db1: "get_object_metadata (sqlx_exec E) b k (app_db s) = (q, db1)"
      "s1 = s\<lparr>app_db := db1\<rparr>"
    by (rule with_dbE)
  note sel = get_object_metadata_rows [OF db1(1)]
  have s1: "rows_of s1 = rows_of s" "app_node s1 = app_node s" "app_slots s1 = app_slots s"
      "app_tasks s1 = app_tasks s"
    using db1 sel by simp_all
  show thesis
  proof (cases q)
    case (Inl e)
    with assms q have "r = Inl (Status INTERNAL_SERVER_ERROR)" "s' = s1"
      by (simp_all add: store_object_def)
    with s1 show thesis by (intro select_failed) simp_all
  next
    case (Inr old)
    have old: "old = sql_select b k (rows_of s)" using sel Inr by simp
    show thesis
    proof (cases "normalized_path E (folder_prefix cfg) b k")
      case (Inl e)
      with assms q Inr have "r = Inl (Status BAD_REQUEST)" "s' = s1"
        by (simp_all add: store_object_def Let_def)
      with s1 Inl show thesis by (intro bad_path) simp_all
    next
      case path: (Inr path)
      obtain a s2 where a: "with_node (add_content (node_api E) path body) s1 = (a, s2)" by fastforce
      then obtain i2 where i2: "add_content (node_api E) path body (app_node s1) = (a, i2)"
          "s2 = s1\<lparr>app_node := i2\<rparr>"
        by (rule with_nodeE)
      show thesis
      proof (cases a)
        case (Inl e)
        with assms q Inr path a have "r = Inl (Status INTERNAL_SERVER_ERROR)" "s' = s2"
          by (simp_all add: store_object_def Let_def)
        with s1 i2 Inl path show thesis by (intro add_failed [of path e]) simp_all
      next
        case added: (Inr added)
        let ?store = "store_object_metadata (sqlx_exec E) b k (ar_hash added)
            (usize_as_i64 (length body)) (content_type_of E cfg ct k)"
        obtain w s3 where w: "with_db ?store s2 = (w, s3)" by fastforce
        then obtain db3 where db3: "?store (app_db s2) = (w, db3)" "s3 = s2\<lparr>app_db := db3\<rparr>"
          by (rule with_dbE)
        note wr = store_object_metadata_rows [OF db3(1)]
        show thesis
        proof (cases w)
          case (Inl e)
          with assms q Inr path a added w have "r = Inl (Status INTERNAL_SERVER_ERROR)" "s' = s3"
            by (simp_all add: store_object_def Let_def)
          moreover have "\<not> reliable (sqlx_exec E)" using reliable_methods(1) [OF _ db3(1)] Inl by auto
          ultimately show thesis using s1 i2 db3 wr(2) Inl added path
            by (intro store_failed [of path added]) simp_all
        next
          case ok: (Inr u)
          then obtain now where "db_rows db3 = sql_upsert (ar_hash added) b k (content_type_of E cfg ct k)
              (usize_as_i64 (length body)) now (rows_of s2)"
            using wr(1) by auto
          moreover have "s' = spawn (UnpinOld old added) s3"
              "r = (case build (header_value_ok E) OK (put_headers (ar_hash added)) no_body of
                  Inl _ \<Rightarrow> Inl Panicked | Inr x \<Rightarrow> Inr x)"
            using assms q Inr path a added w ok
            by (auto simp: store_object_def Let_def split: sum.splits)
          ultimately show thesis
            using s1 i2 db3 added path old by (intro stored [of path added now]) simp_all
        qed
      qed
    qed
  qed
qed

lemma store_object_pins:
  assumes laws: "pin_laws (node_api E) pins" and ok: "pins_ok pins s"
    and run: "store_object E cfg b k ct body s = (r, s')"
  shows "pins_ok pins s'"
  using run
proof (cases rule: store_object_cases)
  case (add_failed path e)
  then show ?thesis
    using node.covers_add [OF laws _ add_failed(3)] ok by (simp add: pins_ok_def node.covers_def)
next
  case (store_failed path added)
  then show ?thesis
    using node.covers_add [OF laws _ store_failed(3)] ok by (simp add: pins_ok_def node.covers_def)
next
  case (stored path added now)
  have "node.covers pins (app_node s') (insert (ar_hash added) (referenced_cids (rows_of s)))"
    by (rule node.covers_added [OF laws _ stored(2)])
      (use ok in \<open>simp add: pins_ok_def node.covers_def\<close>)
  moreover have "referenced_cids (rows_of s') \<subseteq> insert (ar_hash added) (referenced_cids (rows_of s))"
    using ok stored(3) by (simp add: pins_ok_def referenced_cids_upsert)
  ultimately show ?thesis
    using ok stored(3) by (auto simp: pins_ok_def node.covers_def primary_key_upsert)
qed (use ok in \<open>simp_all add: pins_ok_def\<close>)

lemma upload_part_frame:
  "upload_part E p body s = (r, s') \<Longrightarrow>
     app_db s' = app_db s \<and> app_node s' = app_node s \<and> app_tasks s' = app_tasks s"
  by (auto simp: upload_part_def Let_def split: option.splits)

lemma put_object_pins:
  assumes "pin_laws (node_api E) pins" and "pins_ok pins s"
    and "put_object E cfg bk ct part body s = (r, s')"
  shows "pins_ok pins s'"
proof (cases part)
  case None
  with assms show ?thesis by (auto simp: put_object_def intro: store_object_pins)
next
  case (Some p)
  with assms(3) have "upload_part E p body s = (r, s')" by (simp add: put_object_def)
  from upload_part_frame [OF this] assms(2) show ?thesis by (simp add: pins_ok_def)
qed

lemma unpin_old_pins:
  assumes "pin_laws (node_api E) pins" and "pins_ok pins s"
  shows "pins_ok pins (unpin_old E old added s)"
  using assms unpin_if_orphan_pins [OF assms] by (auto simp: unpin_old_def split: option.splits)
    (metis prod.collapse)

end
