(* ===== verification/Multipart.thy ===== *)
theory Multipart imports PutObject "HOL-Library.AList" "HOL-Library.Multiset" begin

text \<open>
  \<^verbatim>\<open>src/src/s3/post_object.rs\<close>: \<open>CreateMultipartUpload\<close> and
  \<open>CompleteMultipartUpload\<close>. The random upload id is the argument \<open>fresh\<close>. An upload is the
  map of its parts held in a slot; completing it takes the slot out and stores the parts in the order
  of their numbers, by \<open>put_object\<close> without content type or query.
\<close>

record post_object_params =
  uploads_param :: "string option"
  upload_id_param :: "string option"

definition newline :: string where
  "newline = [CHR 0x0A]"

definition spaces :: "nat \<Rightarrow> string" where
  "spaces n = replicate n CHR '' ''"

definition xml_header :: string where
  "xml_header = ''<?xml version=\"1.0\" encoding=\"UTF-8\"?>''"

definition initiate_body :: "string \<Rightarrow> string \<Rightarrow> string \<Rightarrow> string" where
  "initiate_body bucket key upload =
     xml_header @ newline @
     spaces 16 @ ''<InitiateMultipartUploadResult xmlns=\"http://s3.amazonaws.com/doc/2006-03-01/\">'' @ newline @
     spaces 20 @ ''<Bucket>'' @ bucket @ ''</Bucket>'' @ newline @
     spaces 20 @ ''<Key>'' @ key @ ''</Key>'' @ newline @
     spaces 20 @ ''<UploadId>'' @ upload @ ''</UploadId>'' @ newline @
     spaces 16 @ ''</InitiateMultipartUploadResult>'' @ newline @ spaces 16"

definition complete_body :: "string \<Rightarrow> string \<Rightarrow> string \<Rightarrow> string" where
  "complete_body bucket key etag =
     newline @ spaces 16 @ xml_header @ newline @
     spaces 16 @ ''<CompleteMultipartUploadResult xmlns=\"http://s3.amazonaws.com/doc/2006-03-01/\">'' @ newline @
     spaces 20 @ ''<Bucket>'' @ bucket @ ''</Bucket>'' @ newline @
     spaces 20 @ ''<Key>'' @ key @ ''</Key>'' @ newline @
     spaces 20 @ ''<ETag>'' @ etag @ ''</ETag>'' @ newline @
     spaces 16 @ ''</CompleteMultipartUploadResult>''"

text \<open>\<open>DashMap::new()\<close> is a map of capacity 0.\<close>

definition new_parts :: "('p, 'i, 'm, 'n, 'net, 'ip) env \<Rightarrow> 'n" where
  "new_parts E = dm_with_capacity (part_ops E) 0"

definition assemble_parts :: "('p, 'i, 'm, 'n, 'net, 'ip) env \<Rightarrow> 'n \<Rightarrow> bytes" where
  "assemble_parts E parts =
     concat (map snd (sort_key (\<lambda>(k, _). Part k) (dm_entries (part_ops E) parts)))"

definition create_upload ::
  "('p, 'i, 'm, 'n, 'net, 'ip) env \<Rightarrow> string \<times> string \<Rightarrow> string \<Rightarrow> ('p, 'i, 'm) app_state
     \<Rightarrow> handler \<times> ('p, 'i, 'm) app_state" where
  "create_upload E bk fresh s =
     (case with_slots (slot_insert (slot_ops E) fresh (new_parts E)) s of
        (Inr _, s1) \<Rightarrow>
          (Inr (unwrap_or_default (build (header_value_ok E) OK [(''content-type'', ''text/xml'')]
                 (Full (initiate_body (fst bk) (snd bk) fresh)))), s1)
      | (Inl _, s1) \<Rightarrow> (Inl (Status SERVICE_UNAVAILABLE), s1))"

definition complete_upload ::
  "('p, 'i, 'm, 'n, 'net, 'ip) env \<Rightarrow> 'net run_config \<Rightarrow> string \<times> string \<Rightarrow> string
     \<Rightarrow> ('p, 'i, 'm) app_state \<Rightarrow> handler \<times> ('p, 'i, 'm) app_state" where
  "complete_upload E cfg bk upload s =
     (case with_slots (slot_remove (slot_ops E) upload) s of
        (Some (_, parts), s1) \<Rightarrow>
          (case put_object E cfg bk None None (assemble_parts E parts) s1 of
             (Inl e, s2) \<Rightarrow> (Inl e, s2)
           | (Inr r, s2) \<Rightarrow>
               (let etag = (case Option.bind (header_get ''etag'' r) (header_to_str E) of
                              None \<Rightarrow> [] | Some v \<Rightarrow> v)
                in (Inr (unwrap_or_default (build (header_value_ok E) OK []
                      (Full (complete_body (fst bk) (snd bk) etag)))), s2)))
      | (None, s1) \<Rightarrow> (Inl (Status BAD_REQUEST), s1))"

definition multipart_upload ::
  "('p, 'i, 'm, 'n, 'net, 'ip) env \<Rightarrow> 'net run_config \<Rightarrow> string \<times> string \<Rightarrow> post_object_params
     \<Rightarrow> string \<Rightarrow> ('p, 'i, 'm) app_state \<Rightarrow> handler \<times> ('p, 'i, 'm) app_state" where
  "multipart_upload E cfg bk params fresh s =
     (if uploads_param params \<noteq> None then create_upload E bk fresh s
      else (case upload_id_param params of
              Some upload \<Rightarrow> complete_upload E cfg bk upload s
            | None \<Rightarrow> (Inl (Status BAD_REQUEST), s)))"

section \<open>The parts of an upload\<close>

text \<open>A list of parts in the order they are uploaded; the last upload of a number counts.\<close>

fun upload_all ::
  "('p, 'i, 'm, 'n, 'net, 'ip) env \<Rightarrow> 'net run_config \<Rightarrow> string \<times> string \<Rightarrow> string
     \<Rightarrow> (i8 \<times> bytes) list \<Rightarrow> ('p, 'i, 'm) app_state \<Rightarrow> ('p, 'i, 'm) app_state" where
  "upload_all E cfg bk upload [] s = s"
| "upload_all E cfg bk upload ((n, b) # parts) s =
     upload_all E cfg bk upload parts
       (snd (put_object E cfg bk None (Some \<lparr>part_number = n, upload_id = upload\<rparr>) b s))"

text \<open>What the client means by the object: of each part number the bytes sent last, in the order of
  the numbers.\<close>

definition intended_object :: "(i8 \<times> bytes) list \<Rightarrow> bytes" where
  "intended_object parts =
     concat (map snd (sort_key (\<lambda>(k, _). Part k) (AList.clearjunk (rev parts))))"

definition map_laws ::
  "('p, 'i, 'm, 'n, 'net, 'ip) env \<Rightarrow> ('m \<Rightarrow> string \<Rightarrow> 'n option) \<Rightarrow> ('n \<Rightarrow> i8 \<Rightarrow> bytes option) \<Rightarrow> bool" where
  "map_laws E \<alpha> \<beta> \<longleftrightarrow> dashmap_laws (slot_ops E) \<alpha> \<and> dashmap_laws (part_ops E) \<beta>"

lemma sort_key_by_map_of:
  assumes "map_of xs = map_of ys" and "distinct (map fst xs)" and "distinct (map fst ys)"
  shows "sort_key (\<lambda>(k :: i8, _). Part k) xs = sort_key (\<lambda>(k, _). Part k) ys"
proof (rule sort_key_inj_key_eq)
  have "set xs = set ys"
    using assms by (metis set_map_of_compr)
  then show "mset xs = mset (sort_key (\<lambda>(k, _). Part k) ys)"
    using assms by (simp add: distinct_map set_eq_iff_mset_eq_distinct)
  show "inj_on (\<lambda>(k, _). Part k) (set xs)"
    using assms(2) by (auto simp: inj_on_def) (metis Some_eq_map_of_iff option.inject)
  show "sorted (map (\<lambda>(k, _). Part k) (sort_key (\<lambda>(k, _). Part k) ys))"
    by simp
qed

lemma assemble_parts_intended:
  assumes "dashmap_laws (part_ops E) \<beta>" and "\<beta> p = map_of (rev parts)"
  shows "assemble_parts E p = intended_object parts"
proof -
  have "sort_key (\<lambda>(k, _). Part k) (dm_entries (part_ops E) p)
      = sort_key (\<lambda>(k, _). Part k) (AList.clearjunk (rev parts))"
    by (rule sort_key_by_map_of)
      (simp_all add: dashmap_lawsD(11,12) [OF assms(1)] assms(2) map_of_clearjunk distinct_clearjunk)
  then show ?thesis by (simp add: assemble_parts_def intended_object_def)
qed

lemma upload_part_ok:
  assumes "map_laws E \<alpha> \<beta>" and "\<alpha> (app_slots s) u = Some p"
  obtains m' p' where
    "upload_part E \<lparr>part_number = n, upload_id = u\<rparr> b s =
       (Inr \<lparr>resp_status = OK, resp_headers = [], resp_body = no_body\<rparr>, s\<lparr>app_slots := m'\<rparr>)"
    "\<alpha> m' = (\<alpha> (app_slots s))(u \<mapsto> p')" "\<beta> p' = (\<beta> p)(n \<mapsto> b)"
proof -
  have slot: "dashmap_laws (slot_ops E) \<alpha>" and part: "dashmap_laws (part_ops E) \<beta>"
    using assms(1) by (simp_all add: map_laws_def)
  have get: "slot_get (slot_ops E) u (app_slots s) = Some p"
    using limited.get_content [OF slot] assms(2) by simp
  let ?p' = "snd (dm_insert (part_ops E) n b p)"
  show thesis
  proof (rule that)
    show "upload_part E \<lparr>part_number = n, upload_id = u\<rparr> b s =
       (Inr \<lparr>resp_status = OK, resp_headers = [], resp_body = no_body\<rparr>,
        s\<lparr>app_slots := dm_write_ref (slot_ops E) u ?p' (app_slots s)\<rparr>)"
      using get by (simp add: upload_part_def Let_def)
    show "\<alpha> (dm_write_ref (slot_ops E) u ?p' (app_slots s)) = (\<alpha> (app_slots s))(u \<mapsto> ?p')"
      by (rule dashmap_lawsD(13) [OF slot]) (simp add: domIff assms(2))
    show "\<beta> ?p' = (\<beta> p)(n \<mapsto> b)"
      by (rule dashmap_lawsD(7) [OF part])
  qed
qed

lemma upload_all_frame:
  "app_db (upload_all E cfg bk u parts s) = app_db s \<and> app_node (upload_all E cfg bk u parts s) = app_node s \<and>
   app_tasks (upload_all E cfg bk u parts s) = app_tasks s"
proof (induction parts arbitrary: s)
  case (Cons q parts)
  obtain n b where q: "q = (n, b)" by fastforce
  obtain r s1 where run: "upload_part E \<lparr>part_number = n, upload_id = u\<rparr> b s = (r, s1)" by fastforce
  show ?case using Cons.IH [of s1] upload_part_frame [OF run] run q by (simp add: put_object_def)
qed simp

lemma upload_all_content:
  assumes "map_laws E \<alpha> \<beta>" and "\<alpha> (app_slots s) u = Some p"
  shows "\<exists>p'. \<alpha> (app_slots (upload_all E cfg bk u parts s)) = (\<alpha> (app_slots s))(u \<mapsto> p') \<and>
              \<beta> p' = \<beta> p ++ map_of (rev parts)"
  using assms(2)
proof (induction parts arbitrary: s p)
  case Nil
  then show ?case by (auto intro!: exI [of _ p])
next
  case (Cons q parts)
  obtain n b where q: "q = (n, b)" by fastforce
  obtain m1 p1 where run: "upload_part E \<lparr>part_number = n, upload_id = u\<rparr> b s =
       (Inr \<lparr>resp_status = OK, resp_headers = [], resp_body = no_body\<rparr>, s\<lparr>app_slots := m1\<rparr>)"
      and m1: "\<alpha> m1 = (\<alpha> (app_slots s))(u \<mapsto> p1)" and p1: "\<beta> p1 = (\<beta> p)(n \<mapsto> b)"
    by (rule upload_part_ok [OF assms(1) Cons.prems])
  have step: "upload_all E cfg bk u (q # parts) s = upload_all E cfg bk u parts (s\<lparr>app_slots := m1\<rparr>)"
    using run q by (simp add: put_object_def)
  have "\<alpha> (app_slots (s\<lparr>app_slots := m1\<rparr>)) u = Some p1"
    by (simp add: m1)
  from Cons.IH [OF this] obtain p' where
      p': "\<alpha> (app_slots (upload_all E cfg bk u parts (s\<lparr>app_slots := m1\<rparr>))) =
          (\<alpha> (app_slots (s\<lparr>app_slots := m1\<rparr>)))(u \<mapsto> p')"
        "\<beta> p' = \<beta> p1 ++ map_of (rev parts)"
    by blast
  have "\<beta> p' = \<beta> p ++ map_of (rev (q # parts))"
    by (simp add: p' p1 q map_add_assoc)
  with p' step m1 show ?case
    by (intro exI [of _ p']) simp
qed

lemma complete_upload_assembles:
  assumes laws: "map_laws E \<alpha> \<beta>" and slot: "\<alpha> (app_slots s) u = Some p"
    and parts: "\<beta> p = map_of (rev parts)"
  shows "complete_upload E cfg bk u s =
    (case store_object E cfg (fst bk) (snd bk) None (intended_object parts)
            (s\<lparr>app_slots := snd (slot_remove (slot_ops E) u (app_slots s))\<rparr>) of
       (Inl e, s2) \<Rightarrow> (Inl e, s2)
     | (Inr r, s2) \<Rightarrow>
         (Inr \<lparr>resp_status = OK, resp_headers = [],
               resp_body = Full (complete_body (fst bk) (snd bk)
                 (case Option.bind (header_get ''etag'' r) (header_to_str E) of None \<Rightarrow> [] | Some v \<Rightarrow> v))\<rparr>,
          s2))"
proof -
  have "fst (slot_remove (slot_ops E) u (app_slots s)) = Some (u, p)"
    using laws slot limited.rem_content [where D = "slot_ops E" and \<alpha> = \<alpha> and m = "app_slots s" and k = u]
    by (simp add: map_laws_def)
  then obtain m' where "slot_remove (slot_ops E) u (app_slots s) = (Some (u, p), m')"
    by (metis prod.collapse)
  moreover have "assemble_parts E p = intended_object parts"
    using laws assemble_parts_intended [of E \<beta> p parts, OF _ parts] by (simp add: map_laws_def)
  ultimately show ?thesis
    by (simp add: complete_upload_def with_slots_def put_object_def Let_def split: prod.splits sum.splits)
qed

lemma create_upload_ok:
  assumes laws: "map_laws E \<alpha> \<beta>" and room: "has_room (slot_ops E) (app_slots s)"
    and hdr: "header_value_ok E ''text/xml''"
  obtains m' p where
    "create_upload E bk u s =
       (Inr \<lparr>resp_status = OK, resp_headers = [(''content-type'', ''text/xml'')],
             resp_body = Full (initiate_body (fst bk) (snd bk) u)\<rparr>, s\<lparr>app_slots := m'\<rparr>)"
    "\<alpha> m' = (\<alpha> (app_slots s))(u \<mapsto> p)" "\<beta> p = Map.empty"
proof -
  have slot: "dashmap_laws (slot_ops E) \<alpha>" and part: "dashmap_laws (part_ops E) \<beta>"
    using laws by (simp_all add: map_laws_def)
  obtain r m' where run: "slot_insert (slot_ops E) u (new_parts E) (app_slots s) = (r, m')" by fastforce
  note ins = limited.ins_room [OF slot room, of u "new_parts E", unfolded run]
  show thesis
  proof (rule that)
    show "create_upload E bk u s =
       (Inr \<lparr>resp_status = OK, resp_headers = [(''content-type'', ''text/xml'')],
             resp_body = Full (initiate_body (fst bk) (snd bk) u)\<rparr>, s\<lparr>app_slots := m'\<rparr>)"
      using run ins hdr by (simp add: create_upload_def with_slots_def build_def)
    show "\<alpha> m' = (\<alpha> (app_slots s))(u \<mapsto> new_parts E)" using ins by simp
    show "\<beta> (new_parts E) = Map.empty"
      unfolding new_parts_def by (rule dashmap_lawsD(1) [OF part])
  qed
qed

section \<open>Frames\<close>

lemma create_upload_frame:
  "create_upload E bk u s = (r, s') \<Longrightarrow>
     app_db s' = app_db s \<and> app_node s' = app_node s \<and> app_tasks s' = app_tasks s"
  by (auto simp: create_upload_def split: sum.splits prod.splits elim!: with_slotsE)

lemma multipart_upload_pins:
  assumes "pin_laws (node_api E) pins" and "pins_ok pins s"
    and "multipart_upload E cfg bk params u s = (r, s')"
  shows "pins_ok pins s'"
proof (cases "uploads_param params")
  case (Some x)
  with assms(3) have "create_upload E bk u s = (r, s')" by (simp add: multipart_upload_def)
  from create_upload_frame [OF this] assms(2) show ?thesis by (simp add: pins_ok_def)
next
  case None
  show ?thesis
  proof (cases "upload_id_param params")
    case None
    with assms \<open>uploads_param params = None\<close> show ?thesis by (simp add: multipart_upload_def)
  next
    case (Some upload)
    with assms(3) None have run: "complete_upload E cfg bk upload s = (r, s')"
      by (simp add: multipart_upload_def)
    obtain q s1 where q: "with_slots (slot_remove (slot_ops E) upload) s = (q, s1)" by fastforce
    then have ok1: "pins_ok pins s1" using assms(2) by (auto simp: pins_ok_def elim!: with_slotsE)
    show ?thesis
    proof (cases q)
      case None
      with run q ok1 show ?thesis by (simp add: complete_upload_def)
    next
      case (Some kp)
      obtain k p where kp: "kp = (k, p)" by fastforce
      obtain w s2 where w: "put_object E cfg bk None None (assemble_parts E p) s1 = (w, s2)" by fastforce
      have "s' = s2"
        using run q Some kp w by (auto simp: complete_upload_def Let_def split: sum.splits)
      with put_object_pins [OF assms(1) ok1 w] show ?thesis by simp
    qed
  qed
qed

end
