(* ===== verification/DeleteObject.thy ===== *)
theory DeleteObject imports Multipart begin

text \<open>
  \<^verbatim>\<open>src/src/s3/delete_object.rs\<close> (\<open>DeleteObject\<close>,
  \<open>AbortMultipartUpload\<close> and the background task that trims empty directories) and
  \<^verbatim>\<open>src/src/s3/post_bucket.rs\<close> (\<open>DeleteObjects\<close>). Reading and printing the XML of
  \<open>DeleteObjects\<close> is the \<^verbatim>\<open>quick_xml\<close> crate's.
\<close>

definition delete_headers :: "string \<Rightarrow> header list" where
  "delete_headers cid = [(''x-ipfs-path'', ipfs_path_of cid), (''x-ipfs-roots'', cid)]"

definition abort_upload ::
  "('p, 'i, 'm, 'n, 'net, 'ip) env \<Rightarrow> string \<Rightarrow> ('p, 'i, 'm) app_state
     \<Rightarrow> handler \<times> ('p, 'i, 'm) app_state" where
  "abort_upload E upload s =
     (case with_slots (slot_remove (slot_ops E) upload) s of
        (_, s1) \<Rightarrow> (Inr (unwrap_or_default (build (header_value_ok E) NO_CONTENT [] no_body)), s1))"

definition remove_object ::
  "('p, 'i, 'm, 'n, 'net, 'ip) env \<Rightarrow> 'net run_config \<Rightarrow> string \<Rightarrow> string
     \<Rightarrow> ('p, 'i, 'm) app_state \<Rightarrow> handler \<times> ('p, 'i, 'm) app_state" where
  "remove_object E cfg bucket key s =
     (case with_db (get_object_metadata (sqlx_exec E) bucket key) s of
        (Inl _, s1) \<Rightarrow> (Inl (Status INTERNAL_SERVER_ERROR), s1)
      | (Inr None, s1) \<Rightarrow> (Inl (Status NOT_FOUND), s1)
      | (Inr (Some metadata), s1) \<Rightarrow>
          (case normalized_path E (folder_prefix cfg) (md_bucket metadata) (md_key metadata) of
             Inl _ \<Rightarrow> (Inl (Status INTERNAL_SERVER_ERROR), s1)
           | Inr path \<Rightarrow>
               (case with_node (unlink (node_api E) path) s1 of
                  (Inl _, s2) \<Rightarrow> (Inl (Status INTERNAL_SERVER_ERROR), s2)
                | (Inr _, s2) \<Rightarrow>
                    (case with_db (db_delete_object (sqlx_exec E) metadata) s2 of
                       (Inl _, s3) \<Rightarrow> (Inl (Status INTERNAL_SERVER_ERROR), s3)
                     | (Inr _, s3) \<Rightarrow>
                         (case unpin_if_orphan E metadata s3 of
                            (Inl st, s4) \<Rightarrow> (Inl (Status st), s4)
                          | (Inr _, s4) \<Rightarrow>
                              (let s5 = (if flag (trim_empty_folders (experimental cfg))
                                         then spawn (TrimEmpty metadata) s4 else s4)
                               in (Inr (unwrap_or_default (build (header_value_ok E) NO_CONTENT
                                          (delete_headers (md_cid metadata)) no_body)), s5)))))))"

definition delete_object ::
  "('p, 'i, 'm, 'n, 'net, 'ip) env \<Rightarrow> 'net run_config \<Rightarrow> string \<times> string \<Rightarrow> string option
     \<Rightarrow> ('p, 'i, 'm) app_state \<Rightarrow> handler \<times> ('p, 'i, 'm) app_state" where
  "delete_object E cfg bk upload s =
     (case upload of
        Some u \<Rightarrow> abort_upload E u s
      | None \<Rightarrow> remove_object E cfg (fst bk) (snd bk) s)"

text \<open>The spawned task.\<close>

definition trim_empty ::
  "('p, 'i, 'm, 'n, 'net, 'ip) env \<Rightarrow> 'net run_config \<Rightarrow> metadata_response
     \<Rightarrow> ('p, 'i, 'm) app_state \<Rightarrow> ('p, 'i, 'm) app_state" where
  "trim_empty E cfg metadata s =
     (case with_db (find_shallowest_removable_directory (sqlx_exec E) (path_ancestors E)
                      (md_bucket metadata) (md_key metadata)) s of
        (Inr (Some to_remove), s1) \<Rightarrow>
          (case normalized_path E (folder_prefix cfg) (md_bucket metadata) to_remove of
             Inr path \<Rightarrow> snd (with_node (unlink (node_api E) path) s1)
           | Inl _ \<Rightarrow> s1)
      | (_, s1) \<Rightarrow> s1)"

definition run_background ::
  "('p, 'i, 'm, 'n, 'net, 'ip) env \<Rightarrow> 'net run_config \<Rightarrow> background
     \<Rightarrow> ('p, 'i, 'm) app_state \<Rightarrow> ('p, 'i, 'm) app_state" where
  "run_background E cfg t s =
     (case t of
        UnpinOld old added \<Rightarrow> unpin_old E old added s
      | TrimEmpty md \<Rightarrow> trim_empty E cfg md s)"

section \<open>\<open>DeleteObjects\<close>\<close>

fun delete_each ::
  "('p, 'i, 'm, 'n, 'net, 'ip) env \<Rightarrow> 'net run_config \<Rightarrow> string \<Rightarrow> string list
     \<Rightarrow> ('p, 'i, 'm) app_state \<Rightarrow> string list \<times> string list \<times> ('p, 'i, 'm) app_state" where
  "delete_each E cfg bucket [] s = ([], [], s)"
| "delete_each E cfg bucket (key # keys) s =
     (case delete_object E cfg (bucket, key) None s of
        (result, s1) \<Rightarrow>
          (case delete_each E cfg bucket keys s1 of
             (deleted, errors, s2) \<Rightarrow>
               (case result of
                  Inr _ \<Rightarrow> (key # deleted, errors, s2)
                | Inl _ \<Rightarrow> (deleted, key # errors, s2))))"

definition modify_bucket ::
  "('p, 'i, 'm, 'n, 'net, 'ip) env \<Rightarrow> 'net run_config \<Rightarrow> string \<Rightarrow> string option \<Rightarrow> bytes
     \<Rightarrow> ('p, 'i, 'm) app_state \<Rightarrow> handler \<times> ('p, 'i, 'm) app_state" where
  "modify_bucket E cfg bucket delete_param body s =
     (if delete_param \<noteq> None then
        (case parse_delete_payload E body of
           None \<Rightarrow> (Inl (Status BAD_REQUEST), s)
         | Some keys \<Rightarrow>
             (case delete_each E cfg bucket keys s of
                (deleted, errors, s1) \<Rightarrow>
                  (Inr (unwrap_or_default (build (header_value_ok E) OK
                          [(''content-type'', ''application/xml'')]
                          (Full (case print_delete_result E deleted errors of None \<Rightarrow> [] | Some x \<Rightarrow> x)))),
                   s1)))
      else (Inl (Status NOT_IMPLEMENTED), s))"

section \<open>Outcomes of \<open>remove_object\<close>\<close>

lemma remove_object_cases:
  assumes "remove_object E cfg b k s = (r, s')"
  obtains
    (select_failed) "r = Inl (Status INTERNAL_SERVER_ERROR)" "rows_of s' = rows_of s" "app_node s' = app_node s"
      "app_slots s' = app_slots s" "app_tasks s' = app_tasks s"
  | (missing) "r = Inl (Status NOT_FOUND)" "sql_select b k (rows_of s) = None" "rows_of s' = rows_of s"
      "app_node s' = app_node s" "app_slots s' = app_slots s" "app_tasks s' = app_tasks s"
  | (bad_path) md e where "r = Inl (Status INTERNAL_SERVER_ERROR)" "sql_select b k (rows_of s) = Some md"
      "normalized_path E (folder_prefix cfg) b k = Inl e" "rows_of s' = rows_of s"
      "app_node s' = app_node s" "app_slots s' = app_slots s" "app_tasks s' = app_tasks s"
  | (unlink_failed) md path e where "r = Inl (Status INTERNAL_SERVER_ERROR)"
      "sql_select b k (rows_of s) = Some md" "normalized_path E (folder_prefix cfg) b k = Inr path"
      "unlink (node_api E) path (app_node s) = (Inl e, app_node s')" "rows_of s' = rows_of s"
      "app_slots s' = app_slots s" "app_tasks s' = app_tasks s"
  | (delete_failed) md path where "r = Inl (Status INTERNAL_SERVER_ERROR)"
      "sql_select b k (rows_of s) = Some md" "normalized_path E (folder_prefix cfg) b k = Inr path"
      "unlink (node_api E) path (app_node s) = (Inr (), app_node s')" "rows_of s' = rows_of s"
      "app_slots s' = app_slots s" "app_tasks s' = app_tasks s" "\<not> reliable (sqlx_exec E)"
  | (removed) md path s3 w s4 where
      "sql_select b k (rows_of s) = Some md" "normalized_path E (folder_prefix cfg) b k = Inr path"
      "unlink (node_api E) path (app_node s) = (Inr (), app_node s3)"
      "rows_of s3 = sql_delete b k (rows_of s)" "app_slots s3 = app_slots s" "app_tasks s3 = app_tasks s"
      "unpin_if_orphan E md s3 = (w, s4)"
      "(r, s') = (case w of
         Inl st \<Rightarrow> (Inl (Status st), s4)
       | Inr _ \<Rightarrow> (Inr (unwrap_or_default (build (header_value_ok E) NO_CONTENT
                     (delete_headers (md_cid md)) no_body)),
                   if flag (trim_empty_folders (experimental cfg)) then spawn (TrimEmpty md) s4 else s4))"
proof -
  obtain q s1 where q: "with_db (get_object_metadata (sqlx_exec E) b k) s = (q, s1)" by fastforce
  then obtain db1 where db1: "get_object_metadata (sqlx_exec E) b k (app_db s) = (q, db1)"
      "s1 = s\<lparr>app_db := db1\<rparr>"
    by (rule with_dbE)
  note sel = get_object_metadata_rows [OF db1(1)]
  have s1: "rows_of s1 = rows_of s" "app_node s1 = app_node s" "app_slots s1 = app_slots s"
      "app_tasks s1 = app_tasks s"
    using db1 sel by simp_all
  consider (err) e where "q = Inl e" | (none) "q = Inr None" | (some) md where "q = Inr (Some md)"
    by (cases q) auto
  then show thesis
  proof cases
    case err
    with assms q s1 show thesis by (intro select_failed) (simp_all add: remove_object_def)
  next
    case none
    with assms q s1 sel show thesis by (intro missing) (simp_all add: remove_object_def)
  next
    case (some md)
    then have md: "sql_select b k (rows_of s) = Some md" using sel by simp
    then have ids: "md_bucket md = b" "md_key md = k" by (auto dest: sql_select_ids)
    show thesis
    proof (cases "normalized_path E (folder_prefix cfg) b k")
      case (Inl e)
      with assms q some ids s1 md show thesis
        by (intro bad_path [of md e]) (simp_all add: remove_object_def)
    next
      case path: (Inr path)
      obtain u s2 where u: "with_node (unlink (node_api E) path) s1 = (u, s2)" by fastforce
      then obtain i2 where i2: "unlink (node_api E) path (app_node s1) = (u, i2)" "s2 = s1\<lparr>app_node := i2\<rparr>"
        by (rule with_nodeE)
      show thesis
      proof (cases u)
        case (Inl e)
        with assms q some ids path u have "r = Inl (Status INTERNAL_SERVER_ERROR)" "s' = s2"
          by (simp_all add: remove_object_def)
        with Inl path i2 s1 md show thesis by (intro unlink_failed [of md path e]) simp_all
      next
        case uok: (Inr x)
        obtain d s3 where d: "with_db (db_delete_object (sqlx_exec E) md) s2 = (d, s3)" by fastforce
        then obtain db3 where db3: "db_delete_object (sqlx_exec E) md (app_db s2) = (d, db3)"
            "s3 = s2\<lparr>app_db := db3\<rparr>"
          by (rule with_dbE)
        note del = db_delete_object_rows [OF db3(1)]
        show thesis
        proof (cases d)
          case (Inl e)
          with assms q some ids path u uok d have "r = Inl (Status INTERNAL_SERVER_ERROR)" "s' = s3"
            by (simp_all add: remove_object_def)
          moreover have "\<not> reliable (sqlx_exec E)" using reliable_methods(2) [OF _ db3(1)] Inl by auto
          ultimately show thesis using Inl path uok i2 db3 del s1 md
            by (intro delete_failed [of md path]) simp_all
        next
          case dok: (Inr y)
          obtain w s4 where w: "unpin_if_orphan E md s3 = (w, s4)" by fastforce
          have "(r, s') = (case w of
               Inl st \<Rightarrow> (Inl (Status st), s4)
             | Inr _ \<Rightarrow> (Inr (unwrap_or_default (build (header_value_ok E) NO_CONTENT
                     (delete_headers (md_cid md)) no_body)),
                   if flag (trim_empty_folders (experimental cfg)) then spawn (TrimEmpty md) s4 else s4))"
            using assms q some ids path u uok d dok w
            by (auto simp: remove_object_def Let_def split: sum.splits)
          then show thesis
            using ids path uok dok w i2 db3 del s1 md
            by (intro removed [of md path s3 w s4]) simp_all
        qed
      qed
    qed
  qed
qed

section \<open>Pins\<close>

lemma remove_object_pins:
  assumes laws: "pin_laws (node_api E) pins" and ok: "pins_ok pins s"
    and run: "remove_object E cfg b k s = (r, s')"
  shows "pins_ok pins s'"
  using run
proof (cases rule: remove_object_cases)
  case (unlink_failed md path e)
  then show ?thesis
    using node.covers_drop_link [OF laws _ unlink_failed(4)] ok by (simp add: pins_ok_def node.covers_def)
next
  case (delete_failed md path)
  then show ?thesis
    using node.covers_drop_link [OF laws _ delete_failed(4)] ok by (simp add: pins_ok_def node.covers_def)
next
  case (removed md path s3 w s4)
  have "node.covers pins (app_node s3) (referenced_cids (rows_of s))"
    by (rule node.covers_drop_link [OF laws _ removed(3)])
      (use ok in \<open>simp add: pins_ok_def node.covers_def\<close>)
  moreover have "referenced_cids (rows_of s3) \<subseteq> referenced_cids (rows_of s)"
    using ok removed(4) by (simp add: pins_ok_def referenced_cids_delete)
  ultimately have "pins_ok pins s3"
    using ok removed(4) by (auto simp: pins_ok_def node.covers_def primary_key_delete)
  then have "pins_ok pins s4" by (rule unpin_if_orphan_pins [OF laws _ removed(7)])
  with removed(8) show ?thesis by (auto simp: pins_ok_def split: sum.splits if_splits)
qed (use ok in \<open>simp_all add: pins_ok_def\<close>)

lemma delete_object_pins:
  assumes "pin_laws (node_api E) pins" and "pins_ok pins s" and "delete_object E cfg bk u s = (r, s')"
  shows "pins_ok pins s'"
proof (cases u)
  case None
  with assms show ?thesis by (auto simp: delete_object_def intro: remove_object_pins)
next
  case (Some x)
  with assms(2,3) show ?thesis
    by (auto simp: delete_object_def abort_upload_def pins_ok_def split: prod.splits elim!: with_slotsE)
qed

lemma delete_each_pins:
  assumes "pin_laws (node_api E) pins"
  shows "pins_ok pins s \<Longrightarrow> delete_each E cfg b ks s = (ds, es, s') \<Longrightarrow> pins_ok pins s'"
proof (induction ks arbitrary: s ds es s')
  case (Cons k ks)
  obtain r s1 where r: "delete_object E cfg (b, k) None s = (r, s1)" by fastforce
  obtain ds1 es1 s2 where rest: "delete_each E cfg b ks s1 = (ds1, es1, s2)" by (metis prod_cases3)
  have "s' = s2" using Cons.prems(2) r rest by (auto split: sum.splits)
  with Cons.IH [OF delete_object_pins [OF assms Cons.prems(1) r] rest] show ?case by simp
qed simp

lemma modify_bucket_pins:
  assumes "pin_laws (node_api E) pins" and "pins_ok pins s"
    and "modify_bucket E cfg b d body s = (r, s')"
  shows "pins_ok pins s'"
  using assms(2,3) delete_each_pins [OF assms(1)]
  by (auto simp: modify_bucket_def split: if_splits option.splits prod.splits)

lemma trim_empty_rows: "rows_of (trim_empty E cfg md s) = rows_of s"
proof -
  obtain q s1 where q: "with_db (find_shallowest_removable_directory (sqlx_exec E) (path_ancestors E)
      (md_bucket md) (md_key md)) s = (q, s1)" by fastforce
  then have "rows_of s1 = rows_of s"
    by (auto simp: find_shallowest_removable_directory_def elim!: with_dbE dest: shallowest_loop_rows)
  with q show ?thesis
    by (auto simp: trim_empty_def split: sum.splits option.splits)
qed

text \<open>The task leaves the node alone, or it unlinks the path of an ancestor below which the search has
  found no key.\<close>

lemma trim_empty_cases:
  obtains (nothing) "app_node (trim_empty E cfg md s) = app_node s"
  | (unlinked) d p where "d \<in> set (path_ancestors E (md_key md))" "d \<noteq> []"
      "sql_count_like (md_bucket md) (d @ ''/%'') (rows_of s) = 0"
      "normalized_path E (folder_prefix cfg) (md_bucket md) d = Inr p"
      "app_node (trim_empty E cfg md s) = snd (unlink (node_api E) p (app_node s))"
proof -
  let ?find = "find_shallowest_removable_directory (sqlx_exec E) (path_ancestors E) (md_bucket md) (md_key md)"
  obtain f s1 where f: "with_db ?find s = (f, s1)" by fastforce
  then obtain db1 where db1: "?find (app_db s) = (f, db1)" "s1 = s\<lparr>app_db := db1\<rparr>" by (rule with_dbE)
  show thesis
  proof (cases "\<exists>d p. f = Inr (Some d) \<and> normalized_path E (folder_prefix cfg) (md_bucket md) d = Inr p")
    case False
    then have "app_node (trim_empty E cfg md s) = app_node s"
      using f db1(2) by (auto simp: trim_empty_def split: sum.split option.split)
    then show thesis by (rule nothing)
  next
    case True
    then obtain d p where d: "f = Inr (Some d)" "normalized_path E (folder_prefix cfg) (md_bucket md) d = Inr p"
      by blast
    let ?as = "filter (\<lambda>a. a \<noteq> []) (path_ancestors E (md_key md))"
    let ?empty = "\<lambda>a. sql_count_like (md_bucket md) (a @ ''/%'') (rows_of s) = 0"
    have "d \<in> set (takeWhile ?empty ?as)"
      using shallowest_loop_result [of "sqlx_exec E" "md_bucket md" ?as None "app_db s" "Some d" db1] db1(1) d(1)
      by (auto simp: find_shallowest_removable_directory_def Let_def split: if_splits)
    from set_takeWhileD [OF this] have "d \<in> set (path_ancestors E (md_key md))" "d \<noteq> []" "?empty d" by simp_all
    moreover have "app_node (trim_empty E cfg md s) = snd (unlink (node_api E) p (app_node s))"
      using f d db1(2) by (simp add: trim_empty_def)
    ultimately show thesis using d(2) by (intro unlinked)
  qed
qed

lemma trim_empty_pins:
  assumes "pin_laws (node_api E) pins" and "pins_ok pins s"
  shows "pins_ok pins (trim_empty E cfg md s)"
proof -
  obtain q s1 where q: "with_db (find_shallowest_removable_directory (sqlx_exec E) (path_ancestors E)
      (md_bucket md) (md_key md)) s = (q, s1)" by fastforce
  then have "app_node s1 = app_node s" by (auto elim: with_dbE)
  then have "pins (app_node (trim_empty E cfg md s)) = pins (app_node s)"
    using q node.drop_link_keeps [OF assms(1)]
    by (auto simp: trim_empty_def split: sum.splits option.splits)
  with assms(2) show ?thesis by (simp add: pins_ok_def trim_empty_rows)
qed

lemma run_background_pins:
  "pin_laws (node_api E) pins \<Longrightarrow> pins_ok pins s \<Longrightarrow> pins_ok pins (run_background E cfg t s)"
  by (cases t) (auto simp: run_background_def intro: unpin_old_pins trim_empty_pins)

end
