(* ===== verification/ReadObject.thy ===== *)
theory ReadObject imports DeleteObject begin

text \<open>
  The handlers that only read: \<^verbatim>\<open>src/src/s3/get_object.rs\<close>,
  \<^verbatim>\<open>src/src/s3/head_object.rs\<close>, \<^verbatim>\<open>src/src/s3/get_bucket.rs\<close> and
  \<^verbatim>\<open>src/src/info.rs\<close>. The current time is an argument. The body of a proxied object is the
  node's \<^verbatim>\<open>cat\<close> stream, read from the node's state at the time of the request.
\<close>

text \<open>The \<open>Display\<close> of the errors in the body stream.\<close>

definition ipfs_error_text :: "ipfs_error \<Rightarrow> string" where
  "ipfs_error_text e =
     (case e of ClientError m \<Rightarrow> ''IPFS client error: '' @ m | IpfsIoError m \<Rightarrow> ''IO error: '' @ m)"

definition cache_forever :: string where
  "cache_forever = ''public, max-age=29030400, immutable''"

definition redirect ::
  "('p, 'i, 'm, 'n, 'net, 'ip) env \<Rightarrow> 'net run_config \<Rightarrow> metadata_response \<Rightarrow> http_error + response" where
  "redirect E cfg metadata =
     (let ipfs_path = ipfs_path_of (md_cid metadata);
          parts = (gateway cfg)\<lparr>uri_path_and_query := path_and_query_from_str E ipfs_path\<rparr>;
          location = (case uri_from_parts E parts of None \<Rightarrow> uri_default E | Some u \<Rightarrow> u)
      in build (header_value_ok E) TEMPORARY_REDIRECT
           [(''location'', location), (''x-ipfs-path'', ipfs_path), (''x-ipfs-roots'', md_cid metadata),
            (''content-type'', md_content_type metadata)] no_body)"

definition proxy ::
  "('p, 'i, 'm, 'n, 'net, 'ip) env \<Rightarrow> metadata_response \<Rightarrow> ('p, 'i, 'm) app_state
     \<Rightarrow> http_error + response" where
  "proxy E metadata s =
     (let ipfs_path = ipfs_path_of (md_cid metadata);
          stream = get_content (node_api E) (md_cid metadata) (app_node s)
      in build (header_value_ok E) OK
           [(''x-ipfs-path'', ipfs_path), (''x-ipfs-roots'', md_cid metadata),
            (''cache-control'', cache_forever), (''last-modified'', http_date E (md_updated_at metadata)),
            (''priority'', ''i''), (''x-robots-tag'', ''noindex, nofollow''),
            (''etag'', etag_value (md_cid metadata)), (''content-type'', md_content_type metadata)]
           (Streamed (map (map_sum ipfs_error_text id) stream)))"

text \<open>Whether a client address is served directly in \<open>auto\<close> mode.\<close>

definition is_private :: "('p, 'i, 'm, 'n, 'net, 'ip) env \<Rightarrow> 'net run_config \<Rightarrow> 'ip \<Rightarrow> bool" where
  "is_private E cfg ip \<longleftrightarrow>
     rfc6890_contains E ip \<or> list_ex (\<lambda>cidr. net_contains E cidr ip) (private_cidrs (experimental cfg))"

definition get_object ::
  "('p, 'i, 'm, 'n, 'net, 'ip) env \<Rightarrow> 'net run_config \<Rightarrow> string \<times> string \<Rightarrow> 'ip
     \<Rightarrow> ('p, 'i, 'm) app_state \<Rightarrow> handler \<times> ('p, 'i, 'm) app_state" where
  "get_object E cfg bk client_ip s =
     (case with_db (get_object_metadata (sqlx_exec E) (fst bk) (snd bk)) s of
        (Inl _, s1) \<Rightarrow> (Inl (Status INTERNAL_SERVER_ERROR), s1)
      | (Inr None, s1) \<Rightarrow> (Inl (Status NOT_FOUND), s1)
      | (Inr (Some metadata), s1) \<Rightarrow>
          (let response =
             (case mode cfg of
                Redirect \<Rightarrow> redirect E cfg metadata
              | Proxy \<Rightarrow> proxy E metadata s1
              | Auto \<Rightarrow> if is_private E cfg client_ip then proxy E metadata s1
                        else redirect E cfg metadata)
           in (Inr (unwrap_or_default response), s1)))"

definition head_headers :: "('p, 'i, 'm, 'n, 'net, 'ip) env \<Rightarrow> metadata_response \<Rightarrow> header list" where
  "head_headers E metadata =
     [(''content-length'', show_i64 (md_size metadata)), (''content-type'', md_content_type metadata),
      (''cache-control'', cache_forever), (''etag'', etag_value (md_cid metadata)),
      (''last-modified'', http_date E (md_updated_at metadata)),
      (''x-ipfs-path'', ipfs_path_of (md_cid metadata)), (''x-ipfs-roots'', md_cid metadata)]"

definition head_object_metadata ::
  "('p, 'i, 'm, 'n, 'net, 'ip) env \<Rightarrow> string \<times> string \<Rightarrow> ('p, 'i, 'm) app_state
     \<Rightarrow> response \<times> ('p, 'i, 'm) app_state" where
  "head_object_metadata E bk s =
     (case with_db (get_object_metadata (sqlx_exec E) (fst bk) (snd bk)) s of
        (Inl _, s1) \<Rightarrow>
          (unwrap_or_default (build (header_value_ok E) INTERNAL_SERVER_ERROR [] no_body), s1)
      | (Inr None, s1) \<Rightarrow> (unwrap_or_default (build (header_value_ok E) NOT_FOUND [] no_body), s1)
      | (Inr (Some metadata), s1) \<Rightarrow>
          (unwrap_or_default (build (header_value_ok E) OK (head_headers E metadata) no_body), s1))"

definition location_body :: string where
  "location_body = xml_header @ newline @ ''<LocationConstraint>ipfs</LocationConstraint>''"

definition get_bucket_body :: "string \<Rightarrow> string \<Rightarrow> string" where
  "get_bucket_body bucket now =
     newline @ spaces 16 @ xml_header @ newline @
     spaces 8 @ ''<GetBucketResult>'' @ newline @
     spaces 11 @ ''<Bucket>'' @ bucket @ ''</Bucket>'' @ newline @
     spaces 11 @ ''<PublicAccessBlockEnabled>true</PublicAccessBlockEnabled>'' @ newline @
     spaces 11 @ ''<CreationDate>'' @ now @ ''</CreationDate>'' @ newline @
     spaces 8 @ ''</GetBucketResult>'' @ newline @ spaces 8"

definition get_bucket ::
  "('p, 'i, 'm, 'n, 'net, 'ip) env \<Rightarrow> string \<Rightarrow> string option \<Rightarrow> string \<Rightarrow> handler" where
  "get_bucket E bucket location now =
     (if location \<noteq> None then
        Inr (unwrap_or_default (build (header_value_ok E) OK [(''content-type'', ''text/xml'')]
               (Full location_body)))
      else
        Inr (unwrap_or_default (build (header_value_ok E) OK
               [(''content-type'', ''application/xml''), (''x-amz-bucket-region'', ''ipfs'')]
               (Full (get_bucket_body bucket now)))))"

section \<open>Health check\<close>

record health_check_response =
  hc_status :: string
  hc_timestamp :: timestamp
  hc_db_status :: "string option"
  hc_rpc_status :: "rpc_version option"
  hc_mode :: operation_mode

definition health_check ::
  "('p, 'i, 'm, 'n, 'net, 'ip) env \<Rightarrow> 'net run_config \<Rightarrow> timestamp \<Rightarrow> ('p, 'i, 'm) app_state
     \<Rightarrow> (status \<times> health_check_response) \<times> ('p, 'i, 'm) app_state" where
  "health_check E cfg now s =
     (case with_db (db_ping (sqlx_exec E)) s of
        (pong, s1) \<Rightarrow>
          (let db_status = (if pong then Some ''connected'' else None)
           in case with_node (ipfs_ping (node_api E)) s1 of
                (rpc, s2) \<Rightarrow>
                  (let rpc_status = result_ok rpc;
                       (status, shown) = (case (db_status, rpc_status) of
                                            (Some _, Some _) \<Rightarrow> (OK, ''200 OK'')
                                          | _ \<Rightarrow> (SERVICE_UNAVAILABLE, ''503 Service Unavailable''))
                   in ((status, \<lparr>hc_status = shown, hc_timestamp = now, hc_db_status = db_status,
                                 hc_rpc_status = rpc_status, hc_mode = mode cfg\<rparr>), s2))))"

section \<open>Outcomes\<close>

text \<open>Reading changes nothing but the state of the connection pool.\<close>

definition same_data :: "('p, 'i, 'm) app_state \<Rightarrow> ('p, 'i, 'm) app_state \<Rightarrow> bool" where
  "same_data s s' \<longleftrightarrow> rows_of s' = rows_of s \<and> app_node s' = app_node s \<and>
     app_slots s' = app_slots s \<and> app_tasks s' = app_tasks s"

lemma same_data_refl [simp]: "same_data s s"
  by (simp add: same_data_def)

lemma pins_ok_same_data: "same_data s s' \<Longrightarrow> pins_ok pins s \<Longrightarrow> pins_ok pins s'"
  by (simp add: same_data_def pins_ok_def)

lemma lookup_cases:
  assumes "with_db (get_object_metadata (sqlx_exec E) b k) s = (q, s1)"
  shows "same_data s s1" and "q = Inr m \<Longrightarrow> m = sql_select b k (rows_of s)"
  using assms by (auto simp: same_data_def elim!: with_dbE dest!: get_object_metadata_rows)

lemma get_object_cases:
  assumes "get_object E cfg (b, k) ip s = (r, s')"
  obtains
    (select_failed) "r = Inl (Status INTERNAL_SERVER_ERROR)" "same_data s s'"
  | (missing) "r = Inl (Status NOT_FOUND)" "sql_select b k (rows_of s) = None" "same_data s s'"
  | (found) md where "sql_select b k (rows_of s) = Some md" "same_data s s'"
      "r = Inr (unwrap_or_default
             (if mode cfg = Proxy \<or> mode cfg = Auto \<and> is_private E cfg ip
              then proxy E md s else redirect E cfg md))"
proof -
  obtain q s1 where q: "with_db (get_object_metadata (sqlx_exec E) b k) s = (q, s1)" by fastforce
  note look = lookup_cases [OF q]
  have node: "proxy E md s1 = proxy E md s" for md
    using look(1) by (simp add: proxy_def same_data_def)
  consider (err) e where "q = Inl e" | (none) "q = Inr None" | (some) md where "q = Inr (Some md)"
    by (cases q) auto
  then show thesis
  proof cases
    case err
    with assms q look show thesis by (intro select_failed) (simp_all add: get_object_def)
  next
    case none
    with assms q look show thesis by (intro missing) (simp_all add: get_object_def)
  next
    case (some md)
    with assms q look node show thesis
      by (intro found [of md]) (auto simp: get_object_def Let_def split: operation_mode.splits if_splits)
  qed
qed

lemma head_object_cases:
  assumes "head_object_metadata E (b, k) s = (r, s')"
  obtains
    (select_failed) "r = \<lparr>resp_status = INTERNAL_SERVER_ERROR, resp_headers = [], resp_body = no_body\<rparr>"
      "same_data s s'"
  | (missing) "r = \<lparr>resp_status = NOT_FOUND, resp_headers = [], resp_body = no_body\<rparr>"
      "sql_select b k (rows_of s) = None" "same_data s s'"
  | (found) md where "sql_select b k (rows_of s) = Some md" "same_data s s'"
      "r = unwrap_or_default (build (header_value_ok E) OK (head_headers E md) no_body)"
proof -
  obtain q s1 where q: "with_db (get_object_metadata (sqlx_exec E) b k) s = (q, s1)" by fastforce
  note look = lookup_cases [OF q]
  consider (err) e where "q = Inl e" | (none) "q = Inr None" | (some) md where "q = Inr (Some md)"
    by (cases q) auto
  then show thesis
  proof cases
    case err
    with assms q look show thesis by (intro select_failed) (simp_all add: head_object_metadata_def)
  next
    case none
    with assms q look show thesis by (intro missing) (simp_all add: head_object_metadata_def)
  next
    case (some md)
    with assms q look show thesis by (intro found [of md]) (simp_all add: head_object_metadata_def)
  qed
qed

end
