(* ===== verification/Startup.thy ===== *)
theory Startup imports ReadObject begin

text \<open>
  Start-up: \<open>Database::new_with_config\<close> and \<open>Database::initialize\<close> of
  \<^verbatim>\<open>src/src/database.rs\<close>, and the first half of \<open>run\<close> in
  \<^verbatim>\<open>src/src/main.rs\<close>, which builds the state the handlers share. The file system, the
  connection to SQLite and the migration runner are the fields of \<open>init_env\<close>.
\<close>

text \<open>What \<open>new_with_config\<close> sets, in the order of the builder calls. A time is in seconds.\<close>

record connect_options =
  co_url :: string
  co_create_if_missing :: bool
  co_auto_vacuum :: string
  co_journal_mode :: string
  co_synchronous :: string
  co_busy_timeout :: nat
  co_optimize_on_close :: bool
  co_acquire_timeout :: nat
  co_max_connections :: nat

text \<open>\<open>ie_defaults\<close> are the three \<open>Default\<close> values that \<^verbatim>\<open>sqlx\<close> has for the
  pragmas; \<open>'f\<close> is the file system.\<close>

record ('f, 'p) init_env =
  ie_exists :: "string \<Rightarrow> 'f \<Rightarrow> bool"
  ie_parent :: "string \<Rightarrow> string option"
  ie_create_dir_all :: "string \<Rightarrow> 'f \<Rightarrow> (string + unit) \<times> 'f"
  ie_display :: "string \<Rightarrow> string"
  ie_url_ok :: "string \<Rightarrow> string + unit"
  ie_defaults :: sqlite_config
  ie_connect :: "connect_options \<Rightarrow> 'f \<Rightarrow> (string + 'p) \<times> 'f"
  ie_migrate :: "'p \<Rightarrow> 'f \<Rightarrow> (string + row list) \<times> 'f"

definition or_pragma :: "string option \<Rightarrow> string option \<Rightarrow> string" where
  "or_pragma x d = (case x of Some v \<Rightarrow> v | None \<Rightarrow> (case d of Some v \<Rightarrow> v | None \<Rightarrow> []))"

definition sqlite_options :: "('f, 'p) init_env \<Rightarrow> string \<Rightarrow> sqlite_config \<Rightarrow> connect_options" where
  "sqlite_options I url config =
     \<lparr>co_url = url, co_create_if_missing = True,
      co_auto_vacuum = or_pragma (auto_vacuum config) (auto_vacuum (ie_defaults I)),
      co_journal_mode = or_pragma (journal_mode config) (journal_mode (ie_defaults I)),
      co_synchronous = or_pragma (synchronous config) (synchronous (ie_defaults I)),
      co_busy_timeout = 30, co_optimize_on_close = True,
      co_acquire_timeout = 1, co_max_connections = 8\<rparr>"

definition db_new_with_config ::
  "('f, 'p) init_env \<Rightarrow> string \<Rightarrow> sqlite_config \<Rightarrow> 'f \<Rightarrow> (string + 'p) \<times> 'f" where
  "db_new_with_config I url config fs =
     (case ie_url_ok I url of
        Inl e \<Rightarrow> (Inl e, fs)
      | Inr _ \<Rightarrow> ie_connect I (sqlite_options I url config) fs)"

text \<open>The directory of a file that is not there yet.\<close>

definition prepare_directory ::
  "('f, 'p) init_env \<Rightarrow> string \<Rightarrow> 'f \<Rightarrow> (database_error + unit) \<times> 'f" where
  "prepare_directory I path fs =
     (if ie_exists I path fs then (Inr (), fs)
      else
        (case ie_parent I path of
           None \<Rightarrow> (Inr (), fs)
         | Some parent \<Rightarrow>
             (case ie_create_dir_all I parent fs of
                (Inl e, fs1) \<Rightarrow> (Inl (IoError e), fs1)
              | (Inr _, fs1) \<Rightarrow> (Inr (), fs1))))"

definition initialize ::
  "('f, 'p) init_env \<Rightarrow> string \<Rightarrow> sqlite_config \<Rightarrow> 'f \<Rightarrow> (database_error + 'p database) \<times> 'f" where
  "initialize I path config fs =
     (case prepare_directory I path fs of
        (Inl e, fs1) \<Rightarrow> (Inl e, fs1)
      | (Inr _, fs1) \<Rightarrow>
          (case db_new_with_config I (''sqlite:'' @ ie_display I path) config fs1 of
             (Inl e, fs2) \<Rightarrow> (Inl (SqlxError e), fs2)
           | (Inr pool, fs2) \<Rightarrow>
               (case ie_migrate I pool fs2 of
                  (Inl e, fs3) \<Rightarrow> (Inl (InitializationFailed e), fs3)
                | (Inr rows, fs3) \<Rightarrow> (Inr \<lparr>db_pool = pool, db_rows = rows\<rparr>, fs3))))"

text \<open>\<open>run\<close> up to the point where the server listens: the process ends with code 1, or the shared
  state is there. The node is reached through a client, so its state is an argument; the client's
  configuration is part of the result.\<close>

datatype ('p, 'i, 'm) started =
    Exited nat
  | Ready "('p, 'i, 'm) app_state" ipfs_client_config

definition run_setup ::
  "('f, 'p) init_env \<Rightarrow> ('p, 'i, 'm, 'n, 'net, 'ip) env \<Rightarrow> 'net run_config \<Rightarrow> 'i \<Rightarrow> 'f
     \<Rightarrow> ('p, 'i, 'm) started \<times> 'f" where
  "run_setup I E config node fs =
     (case initialize I (database_path config) (sqlite config) fs of
        (Inl _, fs1) \<Rightarrow> (Exited 1, fs1)
      | (Inr db, fs1) \<Rightarrow>
          (Ready \<lparr>app_db = db, app_node = node,
                  app_slots = with_capacity (slot_ops E) (concurrent_multipart_upload config),
                  app_tasks = []\<rparr>
             (new_with_config (rpc_address config) (map_option rpc_credentials_pair (rpc_creds config))),
           fs1))"

lemma initialize_rows:
  assumes "initialize I path config fs = (Inr db, fs')"
  shows "\<exists>fs1. ie_migrate I (db_pool db) fs1 = (Inr (db_rows db), fs')"
  using assms by (auto simp: initialize_def split: prod.splits sum.splits)

lemma run_setup_ready:
  assumes "run_setup I E config node fs = (Ready s client, fs')"
  shows "app_slots s = with_capacity (slot_ops E) (concurrent_multipart_upload config)"
    and "app_tasks s = []" and "app_node s = node"
    and "\<exists>fs1. initialize I (database_path config) (sqlite config) fs = (Inr (app_db s), fs1)"
  using assms by (auto simp: run_setup_def split: prod.splits sum.splits)

end
