(* ===== verification/Chunks.thy ===== *)
theory Chunks imports Numbers begin

text \<open>
  \<open>streaming_chunk_body\<close> of \<^verbatim>\<open>src/src/s3/authorization.rs\<close>: the decoder of the
  \<^verbatim>\<open>aws-chunked\<close> body of a request with a streaming signature. The body is the bytes that
  arrive, followed by the end of the stream or by a read error. A slice or an allocation that is out of
  bounds panics.
\<close>

record body_stream =
  stream_data :: bytes
  stream_fault :: bool

datatype streaming_error = Parsing | ParseInt parse_int_error | IoRead

datatype chunk_result =
    NextChunk bytes body_stream
  | EndOfChunks
  | ChunkError streaming_error
  | ChunkPanic

text \<open>\<open>AsyncBufReadExt::read_until\<close>: up to and including the delimiter, or to the end.\<close>

definition read_until :: "char \<Rightarrow> body_stream \<Rightarrow> streaming_error + bytes \<times> body_stream" where
  "read_until c b =
     (let pre = takeWhile (\<lambda>x. x \<noteq> c) (stream_data b)
      in if c \<in> set (stream_data b) then
           Inr (pre @ [c], b\<lparr>stream_data := drop (Suc (length pre)) (stream_data b)\<rparr>)
         else if stream_fault b then Inl IoRead
         else Inr (stream_data b, b\<lparr>stream_data := []\<rparr>))"

text \<open>\<open>AsyncReadExt::read_exact\<close>: too few bytes are an error.\<close>

definition read_exact :: "nat \<Rightarrow> body_stream \<Rightarrow> streaming_error + bytes \<times> body_stream" where
  "read_exact n b =
     (if n \<le> length (stream_data b) then
        Inr (take n (stream_data b), b\<lparr>stream_data := drop n (stream_data b)\<rparr>)
      else Inl IoRead)"

definition signature_len :: nat where
  "signature_len = 82"

definition next_chunk :: "body_stream \<Rightarrow> chunk_result" where
  "next_chunk b0 =
     (case read_until CHR '';'' b0 of
        Inl e \<Rightarrow> ChunkError e
      | Inr (size_varint, b1) \<Rightarrow>
          if size_varint = [] then ChunkPanic
          else
            (let digits = take (length size_varint - 1) size_varint
             in if \<not> utf8_valid digits then ChunkError Parsing
                else
                  (case usize_from_str_radix digits 16 of
                     Inl e \<Rightarrow> ChunkError (ParseInt e)
                   | Inr chunk_size \<Rightarrow>
                       if chunk_size = 0 then EndOfChunks
                       else
                         (case read_exact signature_len b1 of
                            Inl e \<Rightarrow> ChunkError e
                          | Inr (_, b2) \<Rightarrow>
                              if isize_max < chunk_size then ChunkPanic
                              else
                                (case read_exact chunk_size b2 of
                                   Inl e \<Rightarrow> ChunkError e
                                 | Inr (chunk, b3) \<Rightarrow>
                                     (case read_exact 2 b3 of
                                        Inl e \<Rightarrow> ChunkError e
                                      | Inr (_, b4) \<Rightarrow> NextChunk chunk b4))))))"

lemma read_exact_length:
  "read_exact n b = Inr (x, b') \<Longrightarrow> length x = n \<and> length (stream_data b) = n + length (stream_data b')"
  by (auto simp: read_exact_def split: if_splits)

lemma read_until_length:
  assumes "read_until c b = Inr (x, b')"
  shows "length (stream_data b) = length x + length (stream_data b')"
proof (cases "c \<in> set (stream_data b)")
  case True
  then obtain p q where "stream_data b = p @ c # q" and "c \<notin> set p"
    by (meson split_list_first)
  then have "length (takeWhile (\<lambda>x. x \<noteq> c) (stream_data b)) < length (stream_data b)"
    by (simp add: takeWhile_append)
  moreover have "x = takeWhile (\<lambda>x. x \<noteq> c) (stream_data b) @ [c]"
      "stream_data b' = drop (Suc (length (takeWhile (\<lambda>x. x \<noteq> c) (stream_data b)))) (stream_data b)"
    using assms True by (auto simp: read_until_def Let_def)
  ultimately show ?thesis by simp
next
  case False
  with assms show ?thesis by (auto simp: read_until_def Let_def split: if_splits)
qed

lemma next_chunk_shorter:
  "next_chunk b = NextChunk c b' \<Longrightarrow> length c + length (stream_data b') + 85 \<le> length (stream_data b)"
  by (auto simp: next_chunk_def signature_len_def Let_def Suc_le_eq
      split: sum.splits prod.splits if_splits dest!: read_exact_length read_until_length)

text \<open>The stream of chunks: \<open>try_unfold\<close> yields until the step returns \<open>None\<close> or an error.\<close>

datatype stream_end = Finished | Failed streaming_error | StreamPanic

function streaming_chunk_body :: "body_stream \<Rightarrow> bytes list \<times> stream_end" where
  "streaming_chunk_body b =
     (case next_chunk b of
        EndOfChunks \<Rightarrow> ([], Finished)
      | ChunkError e \<Rightarrow> ([], Failed e)
      | ChunkPanic \<Rightarrow> ([], StreamPanic)
      | NextChunk c b' \<Rightarrow>
          (case streaming_chunk_body b' of (cs, fin) \<Rightarrow> (c # cs, fin)))"
  by pat_completeness auto
termination
  by (relation "measure (\<lambda>b. length (stream_data b))") (auto dest: next_chunk_shorter)

declare streaming_chunk_body.simps [simp del]

section \<open>The client's side\<close>

text \<open>The format of the AWS documentation: each chunk's size in hexadecimal, its signature, the bytes;
  last an empty chunk.\<close>

definition crlf :: string where
  "crlf = [CHR 0x0D, CHR 0x0A]"

definition aws_chunk :: "string \<times> bytes \<Rightarrow> bytes" where
  "aws_chunk sc =
     hex_of_nat (length (snd sc)) @ '';chunk-signature='' @ fst sc @ crlf @ snd sc @ crlf"

definition aws_chunked :: "(string \<times> bytes) list \<Rightarrow> string \<Rightarrow> bytes" where
  "aws_chunked scs last_sig =
     concat (map aws_chunk scs) @ ''0;chunk-signature='' @ last_sig @ crlf @ crlf"

section \<open>Facts\<close>

lemma read_until_here:
  "c \<notin> set p \<Longrightarrow> stream_data b = p @ c # s \<Longrightarrow> read_until c b = Inr (p @ [c], b\<lparr>stream_data := s\<rparr>)"
  by (simp add: read_until_def Let_def takeWhile_append)

lemma read_exact_here:
  "stream_data b = p @ s \<Longrightarrow> length p = n \<Longrightarrow> read_exact n b = Inr (p, b\<lparr>stream_data := s\<rparr>)"
  by (auto simp: read_exact_def)

lemma hex_of_nat_no_semicolon: "CHR '';'' \<notin> set (hex_of_nat n)"
  using hex_of_nat_chars hex_digit_plain(2) by metis

lemma hex_of_nat_utf8: "utf8_valid (hex_of_nat n)"
  using hex_of_nat_chars hex_digit_plain(1) by (intro utf8_valid_ascii) metis

lemma isize_max_le_usize_max: "isize_max \<le> usize_max"
  by (simp add: isize_max_def usize_max_def)

lemma next_chunk_aws:
  assumes "length sig = 64" and "data \<noteq> []" and "length data \<le> isize_max"
    and "stream_data b = aws_chunk (sig, data) @ rest"
  shows "next_chunk b = NextChunk data (b\<lparr>stream_data := rest\<rparr>)"
proof -
  let ?hex = "hex_of_nat (length data)"
  let ?b1 = "b\<lparr>stream_data := (''chunk-signature='' @ sig @ crlf) @ data @ crlf @ rest\<rparr>"
  have 1: "read_until CHR '';'' b = Inr (?hex @ [CHR '';''], ?b1)"
    by (rule read_until_here [OF hex_of_nat_no_semicolon]) (simp add: assms(4) aws_chunk_def)
  have 2: "read_exact signature_len ?b1 =
      Inr (''chunk-signature='' @ sig @ crlf, ?b1\<lparr>stream_data := data @ crlf @ rest\<rparr>)"
    by (rule read_exact_here) (simp_all add: signature_len_def crlf_def assms(1))
  have 3: "read_exact (length data) (?b1\<lparr>stream_data := data @ crlf @ rest\<rparr>) =
      Inr (data, ?b1\<lparr>stream_data := crlf @ rest\<rparr>)"
    by (simp add: read_exact_def)
  have 4: "read_exact 2 (?b1\<lparr>stream_data := crlf @ rest\<rparr>) = Inr (crlf, b\<lparr>stream_data := rest\<rparr>)"
    by (simp add: read_exact_def crlf_def)
  have hex: "usize_from_str_radix ?hex 16 = Inr (length data)"
    using assms(3) isize_max_le_usize_max by (intro usize_from_hex) simp
  show ?thesis
    unfolding next_chunk_def 1
    using 2 3 4 hex hex_of_nat_utf8 assms(2,3) by (simp add: Let_def)
qed

lemma next_chunk_last:
  assumes "stream_data b = ''0;'' @ rest"
  shows "next_chunk b = EndOfChunks"
proof -
  have "read_until CHR '';'' b = Inr (''0;'', b\<lparr>stream_data := rest\<rparr>)"
    using read_until_here [of "CHR '';''" "''0''" b rest] assms by simp
  then show ?thesis
    by (simp add: next_chunk_def usize_from_str_radix_def to_digit_def Let_def byte_def usize_max_def)
qed

lemma next_chunk_truncated:
  "stream_data b = [] \<Longrightarrow> next_chunk b = (if stream_fault b then ChunkError IoRead else ChunkPanic)"
  by (simp add: next_chunk_def read_until_def)

lemma streaming_aws_chunks:
  assumes "\<forall>(sig, data) \<in> set scs. length sig = 64 \<and> data \<noteq> [] \<and> length data \<le> isize_max"
    and "stream_data b = concat (map aws_chunk scs) @ rest"
  shows "streaming_chunk_body b =
    (case streaming_chunk_body (b\<lparr>stream_data := rest\<rparr>) of (cs, fin) \<Rightarrow> (map snd scs @ cs, fin))"
  using assms
proof (induction scs arbitrary: b)
  case Nil
  then have "b\<lparr>stream_data := rest\<rparr> = b" by simp
  then show ?case by simp
next
  case (Cons sc scs)
  obtain sig data where sc: "sc = (sig, data)" by fastforce
  have "next_chunk b = NextChunk data (b\<lparr>stream_data := concat (map aws_chunk scs) @ rest\<rparr>)"
    using Cons.prems sc by (intro next_chunk_aws [of sig]) auto
  moreover have "streaming_chunk_body (b\<lparr>stream_data := concat (map aws_chunk scs) @ rest\<rparr>) =
    (case streaming_chunk_body (b\<lparr>stream_data := rest\<rparr>) of (cs, fin) \<Rightarrow> (map snd scs @ cs, fin))"
    using Cons.IH [of "b\<lparr>stream_data := concat (map aws_chunk scs) @ rest\<rparr>"] Cons.prems(1) by simp
  ultimately show ?case
    by (subst streaming_chunk_body.simps) (simp add: sc split: prod.splits)
qed

lemma streaming_total_length:
  "length (concat (fst (streaming_chunk_body b))) \<le> length (stream_data b)"
proof (induction b rule: streaming_chunk_body.induct)
  case (1 b)
  show ?case
  proof (cases "next_chunk b")
    case (NextChunk c b')
    with 1 have "length (concat (fst (streaming_chunk_body b'))) \<le> length (stream_data b')" by simp
    moreover have "fst (streaming_chunk_body b) = c # fst (streaming_chunk_body b')"
      by (subst streaming_chunk_body.simps) (simp add: NextChunk case_prod_unfold)
    ultimately show ?thesis using next_chunk_shorter [OF NextChunk] by simp
  qed (simp_all add: streaming_chunk_body.simps [of b])
qed

text \<open>The whole body: the chunks, then the empty one.\<close>

lemma streaming_aws_chunked:
  assumes "\<forall>(sig, data) \<in> set scs. length sig = 64 \<and> data \<noteq> [] \<and> length data \<le> isize_max"
  shows "streaming_chunk_body \<lparr>stream_data = aws_chunked scs last_sig, stream_fault = f\<rparr> = (map snd scs, Finished)"
proof -
  let ?b = "\<lparr>stream_data = aws_chunked scs last_sig, stream_fault = f\<rparr>"
  let ?rest = "''0;chunk-signature='' @ last_sig @ crlf @ crlf"
  have "streaming_chunk_body ?b =
      (case streaming_chunk_body (?b\<lparr>stream_data := ?rest\<rparr>) of (cs, fin) \<Rightarrow> (map snd scs @ cs, fin))"
    by (rule streaming_aws_chunks [OF assms]) (simp add: aws_chunked_def)
  moreover have "next_chunk (?b\<lparr>stream_data := ?rest\<rparr>) = EndOfChunks"
    by (rule next_chunk_last [of _ "''chunk-signature='' @ last_sig @ crlf @ crlf"]) simp
  then have "streaming_chunk_body (?b\<lparr>stream_data := ?rest\<rparr>) = ([], Finished)"
    by (subst streaming_chunk_body.simps) simp
  ultimately show ?thesis by simp
qed

end
