(* ===== verification/SigV4.thy ===== *)
theory SigV4 imports Chunks Config begin

text \<open>
  The request authentication of \<^verbatim>\<open>src/src/s3/authorization.rs\<close>: AWS Signature Version 4
  from the \<^verbatim>\<open>Authorization\<close> header or from the query, and the service that guards the S3
  routes. The cryptographic primitives, the percent encoder, URL parsing and the header map belong to
  crates: they are the fields of \<open>sig_env\<close> and of \<open>request\<close>.
\<close>

record sig_env =
  hmac_sha256 :: "bytes \<Rightarrow> bytes \<Rightarrow> bytes"
  sha256 :: "bytes \<Rightarrow> bytes"
  hex_encode :: "bytes \<Rightarrow> string"
  percent_encode :: "bytes \<Rightarrow> (char \<Rightarrow> bool) \<Rightarrow> string"
  non_alphanumeric :: "char \<Rightarrow> bool"
  url_query_pairs :: "string \<Rightarrow> (string \<times> string) list option"
  sig_to_str :: "string \<Rightarrow> string option"

text \<open>A request: \<open>req_uri\<close> is the URI as it is displayed, \<open>req_path\<close> its \<open>path()\<close>;
  \<open>req_headers\<close> looks a header name up (without regard to case, in the
  \<^verbatim>\<open>http\<close> crate) and gives the raw value.\<close>

datatype request_body = Plain body_stream | Decoded "bytes list" stream_end

record request =
  req_method :: string
  req_uri :: string
  req_path :: string
  req_headers :: "string \<Rightarrow> string option"
  req_body :: request_body

record authentication_request =
  ar_credential :: string
  ar_date :: string
  ar_signature :: string
  ar_region :: string
  ar_service :: string
  ar_string_to_sign :: string

section \<open>Signatures\<close>

definition sign :: "sig_env \<Rightarrow> bytes \<Rightarrow> bytes \<Rightarrow> bytes" where
  "sign S key data = hmac_sha256 S key data"

definition is_valid :: "sig_env \<Rightarrow> authentication_request \<Rightarrow> auth_config \<Rightarrow> bool" where
  "is_valid S a config =
     (if ar_credential a \<noteq> access_key config then False
      else
        (let date_key = sign S (''AWS4'' @ secret_key config) (ar_date a);
             date_region_key = sign S date_key (ar_region a);
             date_region_service_key = sign S date_region_key (ar_service a);
             sign_key = sign S date_region_service_key ''aws4_request'';
             hmac_result = sign S sign_key (ar_string_to_sign a)
         in hex_encode S hmac_result = ar_signature a))"

text \<open>\<open>PERCENT_ENCODE_SET\<close>: everything but letters, digits and four marks.\<close>

definition percent_encode_set :: "sig_env \<Rightarrow> char \<Rightarrow> bool" where
  "percent_encode_set S =
     (non_alphanumeric S)(CHR ''-'' := False, CHR ''.'' := False, CHR ''_'' := False, CHR 0x7E := False)"

definition empty_body_hash :: string where
  "empty_body_hash = ''e3b0c44298fc1c149afbf4c8996fb92427ae41e4649b934ca495991b7852b855''"

definition encode :: "sig_env \<Rightarrow> string \<Rightarrow> string" where
  "encode S s = percent_encode S s (percent_encode_set S)"

definition canonicalize_uri :: "sig_env \<Rightarrow> string \<Rightarrow> string" where
  "canonicalize_uri S path = join_with ''/'' (map (encode S) (split_on CHR ''/'' path))"

definition canonicalize_query_string :: "sig_env \<Rightarrow> string \<Rightarrow> string option" where
  "canonicalize_query_string S uri =
     (case url_query_pairs S (''http://example.com/'' @ uri) of
        None \<Rightarrow> None
      | Some pairs \<Rightarrow>
          Some (join_with ''&'' (sort
            (map (\<lambda>(k, v). k @ ''='' @ v)
              (map (\<lambda>(k, v). (encode S k, encode S v))
                (filter (\<lambda>(k, _). to_lower k \<noteq> ''x-amz-signature'') pairs))))))"

definition header_text :: "sig_env \<Rightarrow> (string \<Rightarrow> string option) \<Rightarrow> string \<Rightarrow> string option" where
  "header_text S headers name = Option.bind (headers name) (sig_to_str S)"

definition canonicalize_headers :: "sig_env \<Rightarrow> (string \<Rightarrow> string option) \<Rightarrow> string list \<Rightarrow> string" where
  "canonicalize_headers S headers signed_headers =
     join_with [CHR 0x0A] (sort
       (map (\<lambda>(k, v). k @ '':'' @ v)
         (map (\<lambda>name. (to_lower name,
                        case map_option trim (header_text S headers name) of None \<Rightarrow> [] | Some v \<Rightarrow> v))
           signed_headers)))"

definition lines :: "string list \<Rightarrow> string" where
  "lines = join_with [CHR 0x0A]"

definition canonical_request ::
  "string \<Rightarrow> string \<Rightarrow> string \<Rightarrow> string \<Rightarrow> string \<Rightarrow> string \<Rightarrow> string" where
  "canonical_request http_method uri query headers signed_list body_hash =
     lines [http_method, uri, query, headers, [], signed_list, body_hash]"

definition string_to_sign :: "sig_env \<Rightarrow> string \<Rightarrow> string \<Rightarrow> string \<Rightarrow> string \<Rightarrow> string \<Rightarrow> string" where
  "string_to_sign S date_time date region service canonical =
     lines [''AWS4-HMAC-SHA256'', date_time,
            date @ ''/'' @ region @ ''/'' @ service @ ''/aws4_request'',
            hex_encode S (sha256 S canonical)]"

definition or_default :: "string option \<Rightarrow> string" where
  "or_default x = (case x of None \<Rightarrow> [] | Some v \<Rightarrow> v)"

section \<open>Extraction\<close>

text \<open>One parameter of the header: the first part with the prefix, without it.\<close>

definition header_param :: "string \<Rightarrow> string list \<Rightarrow> string option" where
  "header_param prefix parts =
     map_option (trim_start_matches prefix) (find (starts_with prefix) parts)"

definition from_authorization_header :: "sig_env \<Rightarrow> request \<Rightarrow> authentication_request option" where
  "from_authorization_header S request =
     (case header_text S (req_headers request) ''authorization'' of
        None \<Rightarrow> None
      | Some header_value \<Rightarrow>
     (case header_text S (req_headers request) ''x-amz-date'' of
        None \<Rightarrow> None
      | Some date_time \<Rightarrow>
     (let parts = map trim (split_on CHR '','' (trim_start_matches ''AWS4-HMAC-SHA256 '' header_value))
      in if length parts < 2 then None
         else
     (case header_param ''Credential='' parts of
        None \<Rightarrow> None
      | Some credential_part \<Rightarrow>
     (case take 4 (split_on CHR ''/'' credential_part) of
        [credential, date, region, service] \<Rightarrow>
     (case header_param ''SignedHeaders='' parts of
        None \<Rightarrow> None
      | Some signed_headers_part \<Rightarrow>
     (let signed_headers = split_on CHR '';'' signed_headers_part;
          body_hash = (case header_text S (req_headers request) ''x-amz-content-sha256'' of
                         None \<Rightarrow> empty_body_hash | Some h \<Rightarrow> h);
          canonical = canonical_request (req_method request) (canonicalize_uri S (req_path request))
            (or_default (canonicalize_query_string S (req_uri request)))
            (canonicalize_headers S (req_headers request) signed_headers)
            signed_headers_part body_hash
      in
     (case header_param ''Signature='' parts of
        None \<Rightarrow> None
      | Some signature_part \<Rightarrow>
          Some \<lparr>ar_credential = credential, ar_date = date, ar_signature = signature_part,
                ar_region = region, ar_service = service,
                ar_string_to_sign = string_to_sign S date_time date region service canonical\<rparr>)))
      | _ \<Rightarrow> None)))))"

text \<open>The query as a map: names in lower case, of a repeated name the last value.\<close>

definition query_map :: "(string \<times> string) list \<Rightarrow> string \<rightharpoonup> string" where
  "query_map pairs = map_of (rev (map (\<lambda>(k, v). (to_lower k, v)) pairs))"

definition from_query_params :: "sig_env \<Rightarrow> request \<Rightarrow> authentication_request option" where
  "from_query_params S request =
     (case url_query_pairs S (''http://example.com'' @ req_uri request) of
        None \<Rightarrow> None
      | Some pairs \<Rightarrow>
     (let query = query_map pairs in
     (case query ''x-amz-credential'' of
        None \<Rightarrow> None
      | Some access_key_id \<Rightarrow>
     (case query ''x-amz-signature'' of
        None \<Rightarrow> None
      | Some signature \<Rightarrow>
     (let signed_headers = or_default (query ''x-amz-signedheaders'') in
     (case query ''x-amz-date'' of
        None \<Rightarrow> None
      | Some date_time \<Rightarrow>
     (let credential_parts = split_on CHR ''/'' access_key_id
      in if length credential_parts < 5 then None
         else
     (case credential_parts of
        credential # date # region # service # _ \<Rightarrow>
     (let canonical = canonical_request (req_method request) (canonicalize_uri S (req_path request))
            (or_default (canonicalize_query_string S (req_uri request)))
            (canonicalize_headers S (req_headers request) (split_on CHR '';'' signed_headers))
            signed_headers ''UNSIGNED-PAYLOAD''
      in Some \<lparr>ar_credential = credential, ar_date = date, ar_signature = signature,
               ar_region = region, ar_service = service,
               ar_string_to_sign = string_to_sign S date_time date region service canonical\<rparr>)
      | _ \<Rightarrow> None))))))))"

section \<open>The guarding service\<close>

definition streaming_payload :: string where
  "streaming_payload = ''STREAMING-AWS4-HMAC-SHA256-PAYLOAD''"

definition extract_signature :: "sig_env \<Rightarrow> request \<Rightarrow> authentication_request option" where
  "extract_signature S request =
     (case from_authorization_header S request of
        Some a \<Rightarrow> Some a
      | None \<Rightarrow> from_query_params S request)"

definition decode_body :: "request \<Rightarrow> request_body" where
  "decode_body request =
     (if req_headers request ''x-amz-content-sha256'' = Some streaming_payload then
        (case req_body request of
           Plain b \<Rightarrow> (case streaming_chunk_body b of (cs, fin) \<Rightarrow> Decoded cs fin)
         | d \<Rightarrow> d)
      else req_body request)"

text \<open>\<open>Service::call\<close>: the inner service sees the request, with a decoded body, exactly when the
  signature is valid; otherwise \<open>unauthorized\<close> is the answer.\<close>

definition authorize ::
  "sig_env \<Rightarrow> auth_config \<Rightarrow> (request \<Rightarrow> 'a) \<Rightarrow> 'a \<Rightarrow> request \<Rightarrow> 'a" where
  "authorize S config inner unauthorized request =
     (case extract_signature S request of
        Some a \<Rightarrow>
          if is_valid S a config then inner (request\<lparr>req_body := decode_body request\<rparr>)
          else unauthorized
      | None \<Rightarrow> unauthorized)"

text \<open>\<open>AuthorizationLayer\<close> and \<open>AuthorizationService\<close>: the layer carries the credentials and wraps an inner
  service.\<close>

record authorization_layer =
  layer_config :: auth_config

definition new_authorization_layer :: "auth_config \<Rightarrow> authorization_layer" where
  "new_authorization_layer config = \<lparr>layer_config = config\<rparr>"

definition layer_as_ref :: "authorization_layer \<Rightarrow> auth_config" where
  "layer_as_ref l = layer_config l"

record 'a authorization_service =
  service_inner :: "request \<Rightarrow> 'a"
  service_config :: authorization_layer

definition apply_layer :: "authorization_layer \<Rightarrow> (request \<Rightarrow> 'a) \<Rightarrow> 'a authorization_service" where
  "apply_layer l inner = \<lparr>service_inner = inner, service_config = l\<rparr>"

definition call_service :: "sig_env \<Rightarrow> 'a authorization_service \<Rightarrow> 'a \<Rightarrow> request \<Rightarrow> 'a" where
  "call_service S svc unauthorized request =
     authorize S (layer_as_ref (service_config svc)) (service_inner svc) unauthorized request"

lemma call_layered [simp]:
  "call_service S (apply_layer (new_authorization_layer config) inner) = authorize S config inner"
  by (rule ext)+ (simp add: call_service_def apply_layer_def new_authorization_layer_def layer_as_ref_def)

definition authenticated :: "sig_env \<Rightarrow> auth_config \<Rightarrow> request \<Rightarrow> bool" where
  "authenticated S config request \<longleftrightarrow>
     (\<exists>a. extract_signature S request = Some a \<and> is_valid S a config)"

lemma authorize_eq:
  "authorize S config inner unauthorized request =
     (if authenticated S config request then inner (request\<lparr>req_body := decode_body request\<rparr>)
      else unauthorized)"
  by (auto simp: authorize_def authenticated_def split: option.splits)

end
