(* ===== verification/Server.thy ===== *)
theory Server imports Startup SigV4 begin

text \<open>
  The service as a whole: the routes of \<^verbatim>\<open>src/src/s3/mod.rs\<close> and
  \<^verbatim>\<open>src/src/main.rs\<close>, the extractors in the handlers' argument lists, the layers around
  them, and the running server as a step relation (a request answered, or a spawned task run).

  \<^verbatim>\<open>axum\<close>, \<^verbatim>\<open>tower_http\<close> and \<^verbatim>\<open>axum_client_ip\<close> are the fields
  of \<open>http_env\<close>: matching a path against the patterns, choosing among the registered methods,
  decoding path parameters and query, the limit on a body, the answers to what cannot be extracted, the
  \<^verbatim>\<open>CORS\<close> layer and the outer layers.
\<close>

section \<open>The routes\<close>

datatype endpoint =
    HealthCheck | GetBucket | ModifyBucket | PutObject | DeleteObject | GetObject | HeadObject
  | MultipartUpload

definition s3_routes :: "(string \<times> (string \<times> endpoint) list) list" where
  "s3_routes =
     [(''/{bucket}'', [(''GET'', GetBucket), (''POST'', ModifyBucket)]),
      (''/{bucket}/'', [(''GET'', GetBucket), (''POST'', ModifyBucket)]),
      (''/{bucket}/{*key}'',
        [(''PUT'', PutObject), (''DELETE'', DeleteObject), (''GET'', GetObject),
         (''HEAD'', HeadObject), (''POST'', MultipartUpload)])]"

definition app_routes :: "(string \<times> (string \<times> endpoint) list) list" where
  "app_routes = (''/healthz'', [(''GET'', HealthCheck)]) # s3_routes"

record cors_config =
  allow_headers :: "string list"
  allow_methods :: "string list"
  allow_any_origin :: bool
  expose_headers :: "string list"

definition s3_cors :: cors_config where
  "s3_cors =
     \<lparr>allow_headers = [''content-type'', ''range'', ''user-agent'', ''x-requested-with''],
      allow_methods = [''GET'', ''HEAD'', ''OPTIONS''],
      allow_any_origin = True,
      expose_headers = [''content-length'', ''content-range'', ''x-ipfs-path'', ''x-ipfs-roots'']\<rparr>"

record 'ip http_env =
  hx_match :: "string list \<Rightarrow> string \<Rightarrow> (string \<times> string list) option"
  hx_method :: "string list \<Rightarrow> string \<Rightarrow> string option"
  hx_decode :: "string list \<Rightarrow> response + string list"
  hx_bad_path :: response
  hx_query :: "string \<Rightarrow> response + (string \<times> string) list"
  hx_bad_query :: response
  hx_content_type :: "request \<Rightarrow> response + string option"
  hx_client_ip :: "client_ip_source \<Rightarrow> request \<Rightarrow> response + 'ip"
  hx_body_limit :: nat
  hx_too_large :: response
  hx_bad_body :: response
  hx_not_found :: "request \<Rightarrow> response"
  hx_method_not_allowed :: response
  hx_preflight :: "cors_config \<Rightarrow> request \<Rightarrow> response option"
  hx_cors :: "cors_config \<Rightarrow> request \<Rightarrow> response \<Rightarrow> response"
  hx_outer :: "request \<Rightarrow> response \<Rightarrow> response"
  hx_json :: "health_check_response \<Rightarrow> string"
  hx_show_time :: "timestamp \<Rightarrow> string"

text \<open>What the documentation of \<^verbatim>\<open>axum\<close> says of methods (\<^verbatim>\<open>get\<close> also answers
  \<^verbatim>\<open>HEAD\<close> when nothing else does) and of the patterns used here.\<close>

definition method_laws :: "'ip http_env \<Rightarrow> bool" where
  "method_laws X \<longleftrightarrow>
     (\<forall>ms m. hx_method X ms m =
        (if m \<in> set ms then Some m
         else if m = ''HEAD'' \<and> ''GET'' \<in> set ms then Some ''GET'' else None))"

definition match_laws :: "'ip http_env \<Rightarrow> bool" where
  "match_laws X \<longleftrightarrow>
     hx_match X (map fst app_routes) ''/healthz'' = Some (''/healthz'', []) \<and>
     (\<forall>b. b \<noteq> [] \<longrightarrow> CHR ''/'' \<notin> set b \<longrightarrow> b \<noteq> ''healthz'' \<longrightarrow>
        hx_match X (map fst app_routes) (''/'' @ b) = Some (''/{bucket}'', [b])) \<and>
     (\<forall>b. b \<noteq> [] \<longrightarrow> CHR ''/'' \<notin> set b \<longrightarrow>
        hx_match X (map fst app_routes) (''/'' @ b @ ''/'') = Some (''/{bucket}/'', [b])) \<and>
     (\<forall>b k. b \<noteq> [] \<longrightarrow> CHR ''/'' \<notin> set b \<longrightarrow> k \<noteq> [] \<longrightarrow>
        hx_match X (map fst app_routes) (''/'' @ b @ ''/'' @ k) = Some (''/{bucket}/{*key}'', [b, k]))"

section \<open>Extractors\<close>

definition with_arg :: "response + 'a \<Rightarrow> ('a \<Rightarrow> 's \<Rightarrow> response option \<times> 's) \<Rightarrow> 's \<Rightarrow> response option \<times> 's" where
  "with_arg x k s = (case x of Inl r \<Rightarrow> (Some r, s) | Inr a \<Rightarrow> k a s)"

definition respond :: "handler \<times> 's \<Rightarrow> response option \<times> 's" where
  "respond h = (into_response (fst h), snd h)"

definition bucket_param :: "'ip http_env \<Rightarrow> string list \<Rightarrow> response + string" where
  "bucket_param X raw =
     (case hx_decode X raw of
        Inl r \<Rightarrow> Inl r
      | Inr [b] \<Rightarrow> Inr b
      | Inr _ \<Rightarrow> Inl (hx_bad_path X))"

definition object_param :: "'ip http_env \<Rightarrow> string list \<Rightarrow> response + string \<times> string" where
  "object_param X raw =
     (case hx_decode X raw of
        Inl r \<Rightarrow> Inl r
      | Inr [b, k] \<Rightarrow> Inr (b, k)
      | Inr _ \<Rightarrow> Inl (hx_bad_path X))"

text \<open>A derived \<open>Option<String>\<close> field of a query struct: absent, or there once.\<close>

definition query_field :: "'ip http_env \<Rightarrow> string \<Rightarrow> (string \<times> string) list \<Rightarrow> response + string option" where
  "query_field X name q =
     (case filter (\<lambda>(k, _). k = name) q of
        [] \<Rightarrow> Inr None
      | [(_, v)] \<Rightarrow> Inr (Some v)
      | _ \<Rightarrow> Inl (hx_bad_query X))"

definition post_params :: "'ip http_env \<Rightarrow> (string \<times> string) list \<Rightarrow> response + post_object_params" where
  "post_params X q =
     (case query_field X ''uploads'' q of
        Inl r \<Rightarrow> Inl r
      | Inr u \<Rightarrow>
          (case query_field X ''uploadId'' q of
             Inl r \<Rightarrow> Inl r
           | Inr i \<Rightarrow> Inr \<lparr>uploads_param = u, upload_id_param = i\<rparr>))"

text \<open>The \<open>Bytes\<close> extractor: it reads the body to its end, within the limit. \<open>Inl None\<close> is a panic in
  the stream.\<close>

definition within_limit :: "'ip http_env \<Rightarrow> bytes \<Rightarrow> response option + bytes \<Rightarrow> response option + bytes" where
  "within_limit X data r = (if length data \<le> hx_body_limit X then r else Inl (Some (hx_too_large X)))"

definition collect_body :: "'ip http_env \<Rightarrow> request_body \<Rightarrow> response option + bytes" where
  "collect_body X b =
     (case b of
        Plain st \<Rightarrow>
          within_limit X (stream_data st)
            (if stream_fault st then Inl (Some (hx_bad_body X)) else Inr (stream_data st))
      | Decoded cs fin \<Rightarrow>
          within_limit X (concat cs)
            (case fin of
               Finished \<Rightarrow> Inr (concat cs)
             | Failed _ \<Rightarrow> Inl (Some (hx_bad_body X))
             | StreamPanic \<Rightarrow> Inl None))"

definition extract_body ::
  "'ip http_env \<Rightarrow> request \<Rightarrow> (bytes \<Rightarrow> 's \<Rightarrow> response option \<times> 's) \<Rightarrow> 's \<Rightarrow> response option \<times> 's" where
  "extract_body X r k s =
     (case collect_body X (req_body r) of
        Inl x \<Rightarrow> (x, s)
      | Inr data \<Rightarrow> k data s)"

section \<open>Calling a handler\<close>

definition call_endpoint ::
  "'ip http_env \<Rightarrow> ('p, 'i, 'm, 'n, 'net, 'ip) env \<Rightarrow> 'net run_config \<Rightarrow> timestamp \<Rightarrow> string
     \<Rightarrow> endpoint \<Rightarrow> string list \<Rightarrow> request \<Rightarrow> ('p, 'i, 'm) app_state
     \<Rightarrow> response option \<times> ('p, 'i, 'm) app_state" where
  "call_endpoint X E cfg now fresh ep raw r =
     (case ep of
        HealthCheck \<Rightarrow>
          (\<lambda>s. case health_check E cfg now s of
             ((st, h), s1) \<Rightarrow>
               (Some \<lparr>resp_status = st, resp_headers = [(''content-type'', ''application/json'')],
                      resp_body = Full (hx_json X h)\<rparr>, s1))
      | GetBucket \<Rightarrow>
          with_arg (bucket_param X raw) (\<lambda>b.
          with_arg (hx_query X (req_uri r)) (\<lambda>q.
          with_arg (query_field X ''location'' q) (\<lambda>loc s.
            (into_response (get_bucket E b loc (hx_show_time X now)), s))))
      | ModifyBucket \<Rightarrow>
          with_arg (bucket_param X raw) (\<lambda>b.
          with_arg (hx_query X (req_uri r)) (\<lambda>q.
          with_arg (query_field X ''delete'' q) (\<lambda>del.
          extract_body X r (\<lambda>data s. respond (modify_bucket E cfg b del data s)))))
      | PutObject \<Rightarrow>
          with_arg (object_param X raw) (\<lambda>bk.
          with_arg (hx_content_type X r) (\<lambda>ct.
          with_arg (hx_query X (req_uri r)) (\<lambda>q.
          extract_body X r (\<lambda>data s.
            respond (put_object E cfg bk ct (upload_part_from_query q) data s)))))
      | DeleteObject \<Rightarrow>
          with_arg (object_param X raw) (\<lambda>bk.
          with_arg (hx_query X (req_uri r)) (\<lambda>q.
          with_arg (query_field X ''uploadId'' q) (\<lambda>u s. respond (delete_object E cfg bk u s))))
      | GetObject \<Rightarrow>
          with_arg (object_param X raw) (\<lambda>bk.
          with_arg (hx_client_ip X (ip_extraction cfg) r) (\<lambda>ip s. respond (get_object E cfg bk ip s)))
      | HeadObject \<Rightarrow>
          with_arg (object_param X raw) (\<lambda>bk s.
            (case head_object_metadata E bk s of (h, s1) \<Rightarrow> (Some h, s1)))
      | MultipartUpload \<Rightarrow>
          with_arg (object_param X raw) (\<lambda>bk.
          with_arg (hx_query X (req_uri r)) (\<lambda>q.
          with_arg (post_params X q) (\<lambda>params s.
            respond (multipart_upload E cfg bk params fresh s)))))"

definition dispatch ::
  "'ip http_env \<Rightarrow> ('p, 'i, 'm, 'n, 'net, 'ip) env \<Rightarrow> 'net run_config \<Rightarrow> timestamp \<Rightarrow> string
     \<Rightarrow> (string \<times> endpoint) list \<Rightarrow> string list \<Rightarrow> request \<Rightarrow> ('p, 'i, 'm) app_state
     \<Rightarrow> response option \<times> ('p, 'i, 'm) app_state" where
  "dispatch X E cfg now fresh methods raw r s =
     (case Option.bind (hx_method X (map fst methods) (req_method r)) (map_of methods) of
        None \<Rightarrow> (Some (hx_method_not_allowed X), s)
      | Some ep \<Rightarrow> call_endpoint X E cfg now fresh ep raw r s)"

definition unauthorized_response :: response where
  "unauthorized_response = \<lparr>resp_status = UNAUTHORIZED, resp_headers = [], resp_body = no_body\<rparr>"

text \<open>The S3 routes with their layers: authorization when it is configured, CORS around it.\<close>

definition guarded ::
  "sig_env \<Rightarrow> 'net run_config \<Rightarrow> (request \<Rightarrow> 's \<Rightarrow> response option \<times> 's) \<Rightarrow> request \<Rightarrow> 's
     \<Rightarrow> response option \<times> 's" where
  "guarded S cfg inner r s =
     (case auth cfg of
        None \<Rightarrow> inner r s
      | Some c \<Rightarrow> call_service S (apply_layer (new_authorization_layer c) (\<lambda>r'. inner r' s)) (Some unauthorized_response, s) r)"

definition with_cors ::
  "'ip http_env \<Rightarrow> (request \<Rightarrow> 's \<Rightarrow> response option \<times> 's) \<Rightarrow> request \<Rightarrow> 's
     \<Rightarrow> response option \<times> 's" where
  "with_cors X inner r s =
     (case hx_preflight X s3_cors r of
        Some a \<Rightarrow> (Some a, s)
      | None \<Rightarrow> (case inner r s of (a, s1) \<Rightarrow> (map_option (hx_cors X s3_cors r) a, s1)))"

definition serve ::
  "'ip http_env \<Rightarrow> sig_env \<Rightarrow> ('p, 'i, 'm, 'n, 'net, 'ip) env \<Rightarrow> 'net run_config \<Rightarrow> timestamp
     \<Rightarrow> string \<Rightarrow> request \<Rightarrow> ('p, 'i, 'm) app_state \<Rightarrow> response option \<times> ('p, 'i, 'm) app_state" where
  "serve X S E cfg now fresh r s =
     (case (case hx_match X (map fst app_routes) (req_path r) of
              None \<Rightarrow> (Some (hx_not_found X r), s)
            | Some (pattern, raw) \<Rightarrow>
                (case map_of s3_routes pattern of
                   Some methods \<Rightarrow>
                     with_cors X (guarded S cfg (dispatch X E cfg now fresh methods raw)) r s
                 | None \<Rightarrow> dispatch X E cfg now fresh [(''GET'', HealthCheck)] raw r s)) of
        (a, s1) \<Rightarrow> (map_option (hx_outer X r) a, s1))"

section \<open>The running server\<close>

datatype event = Answered request "response option" | Ran background

inductive server_step ::
  "'ip http_env \<Rightarrow> sig_env \<Rightarrow> ('p, 'i, 'm, 'n, 'net, 'ip) env \<Rightarrow> 'net run_config
     \<Rightarrow> ('p, 'i, 'm) app_state \<Rightarrow> event \<Rightarrow> ('p, 'i, 'm) app_state \<Rightarrow> bool"
  for X S E cfg where
  answer: "serve X S E cfg now fresh r s = (a, s') \<Longrightarrow> server_step X S E cfg s (Answered r a) s'"
| task: "app_tasks s = ts @ t # us \<Longrightarrow>
    server_step X S E cfg s (Ran t) (run_background E cfg t (s\<lparr>app_tasks := ts @ us\<rparr>))"

inductive_cases answer_stepE: "server_step X S E cfg s (Answered r a) s'"
inductive_cases task_stepE: "server_step X S E cfg s (Ran t) s'"
inductive_simps answer_step_iff: "server_step X S E cfg s (Answered r a) s'"

inductive server_run ::
  "'ip http_env \<Rightarrow> sig_env \<Rightarrow> ('p, 'i, 'm, 'n, 'net, 'ip) env \<Rightarrow> 'net run_config
     \<Rightarrow> ('p, 'i, 'm) app_state \<Rightarrow> event list \<Rightarrow> ('p, 'i, 'm) app_state \<Rightarrow> bool"
  for X S E cfg where
  idle: "server_run X S E cfg s [] s"
| next_step: "server_run X S E cfg s es s' \<Longrightarrow> server_step X S E cfg s' e s'' \<Longrightarrow>
    server_run X S E cfg s (es @ [e]) s''"

section \<open>Invariants of the server\<close>

text \<open>A predicate that every handler and every task keeps is kept by the server. The locale names
  what has to be shown of the handlers; it is interpreted on each invariant below.\<close>

locale handler_invariant =
  fixes E :: "('p, 'i, 'm, 'n, 'net, 'ip) env" and cfg :: "'net run_config"
    and P :: "('p, 'i, 'm) app_state \<Rightarrow> bool"
  assumes put: "P s \<Longrightarrow> put_object E cfg bk ct part data s = (h, s') \<Longrightarrow> P s'"
    and delete: "P s \<Longrightarrow> delete_object E cfg bk u s = (h, s') \<Longrightarrow> P s'"
    and multipart: "P s \<Longrightarrow> multipart_upload E cfg bk params fresh s = (h, s') \<Longrightarrow> P s'"
    and modify: "P s \<Longrightarrow> modify_bucket E cfg b del data s = (h, s') \<Longrightarrow> P s'"
    and same: "P s \<Longrightarrow> same_data s s' \<Longrightarrow> P s'"
    and health: "P s \<Longrightarrow> health_check E cfg now s = (x, s') \<Longrightarrow> P s'"
    and background: "P s \<Longrightarrow> P (run_background E cfg t s)"
    and unqueue: "P s \<Longrightarrow> P (s\<lparr>app_tasks := ts\<rparr>)"
begin

definition keeps :: "(('p, 'i, 'm) app_state \<Rightarrow> response option \<times> ('p, 'i, 'm) app_state) \<Rightarrow> bool" where
  "keeps k \<longleftrightarrow> (\<forall>s. P s \<longrightarrow> P (snd (k s)))"

lemma keeps_with_arg [intro]: "(\<And>a. keeps (k a)) \<Longrightarrow> keeps (with_arg x k)"
  by (simp add: keeps_def with_arg_def split: sum.split)

lemma keeps_extract_body [intro]: "(\<And>a. keeps (k a)) \<Longrightarrow> keeps (extract_body X r k)"
  by (simp add: keeps_def extract_body_def split: sum.split)

lemma keeps_respond: "(\<And>s h s'. P s \<Longrightarrow> f s = (h, s') \<Longrightarrow> P s') \<Longrightarrow> keeps (\<lambda>s. respond (f s))"
  unfolding keeps_def respond_def by (metis prod.collapse snd_conv)

lemma keeps_get: "keeps (\<lambda>s. respond (get_object E cfg bk ip s))"
proof (rule keeps_respond)
  fix s h s'
  assume "P s" and run: "get_object E cfg bk ip s = (h, s')"
  obtain b k where "bk = (b, k)" by fastforce
  with run have "get_object E cfg (b, k) ip s = (h, s')" by simp
  then have "same_data s s'" by (rule get_object_cases)
  with \<open>P s\<close> show "P s'" by (rule same)
qed

lemma keeps_head: "keeps (\<lambda>s. case head_object_metadata E bk s of (h, s1) \<Rightarrow> (Some h, s1))"
  unfolding keeps_def
proof (intro allI impI)
  fix s
  assume "P s"
  obtain h s' where run: "head_object_metadata E bk s = (h, s')" by fastforce
  obtain b k where "bk = (b, k)" by fastforce
  with run have "head_object_metadata E (b, k) s = (h, s')" by simp
  then have "same_data s s'" by (rule head_object_cases)
  with \<open>P s\<close> same run show "P (snd (case head_object_metadata E bk s of (h, s1) \<Rightarrow> (Some h, s1)))"
    by simp
qed

lemma keeps_call: "keeps (call_endpoint X E cfg now fresh ep raw r)"
proof (cases ep)
  case HealthCheck
  have "P s'" if "P s" "health_check E cfg now s = ((st, h), s')" for s st h s'
    using health that by blast
  with HealthCheck show ?thesis by (simp add: call_endpoint_def keeps_def split: prod.split)
next
  case GetBucket
  have "keeps (\<lambda>s. (a, s))" for a by (simp add: keeps_def)
  with GetBucket show ?thesis by (auto simp: call_endpoint_def)
next
  case ModifyBucket
  have "keeps (\<lambda>s. respond (modify_bucket E cfg b del data s))" for b del data
    by (rule keeps_respond) (rule modify)
  then show ?thesis
    unfolding call_endpoint_def ModifyBucket endpoint.case
    by (intro keeps_with_arg keeps_extract_body)
next
  case PutObject
  have "keeps (\<lambda>s. respond (put_object E cfg bk ct part data s))" for bk ct part data
    by (rule keeps_respond) (rule put)
  then show ?thesis
    unfolding call_endpoint_def PutObject endpoint.case
    by (intro keeps_with_arg keeps_extract_body)
next
  case DeleteObject
  have "keeps (\<lambda>s. respond (delete_object E cfg bk u s))" for bk u
    by (rule keeps_respond) (rule delete)
  then show ?thesis
    unfolding call_endpoint_def DeleteObject endpoint.case
    by (intro keeps_with_arg keeps_extract_body)
next
  case MultipartUpload
  have "keeps (\<lambda>s. respond (multipart_upload E cfg bk params fresh s))" for bk params
    by (rule keeps_respond) (rule multipart)
  then show ?thesis
    unfolding call_endpoint_def MultipartUpload endpoint.case
    by (intro keeps_with_arg keeps_extract_body)
next
  case GetObject
  then show ?thesis
    unfolding call_endpoint_def GetObject endpoint.case by (intro keeps_with_arg keeps_get)
next
  case HeadObject
  then show ?thesis
    unfolding call_endpoint_def HeadObject endpoint.case by (intro keeps_with_arg keeps_head)
qed

lemma keeps_dispatch: "keeps (dispatch X E cfg now fresh methods raw r)"
  using keeps_call by (auto simp: dispatch_def keeps_def split: option.splits)

lemma keeps_guarded: "(\<And>r. keeps (inner r)) \<Longrightarrow> keeps (guarded S cfg inner r)"
  by (auto simp: guarded_def keeps_def authorize_eq split: option.splits)

lemma keeps_cors: "(\<And>r. keeps (inner r)) \<Longrightarrow> keeps (with_cors X inner r)"
  unfolding keeps_def with_cors_def by (simp split: option.split prod.split) (metis snd_conv)

lemma keeps_serve: "keeps (serve X S E cfg now fresh r)"
proof -
  have routes: "keeps (with_cors X (guarded S cfg (dispatch X E cfg now fresh methods raw)) r)"
      "keeps (dispatch X E cfg now fresh methods raw r)" for methods raw
    by (intro keeps_cors keeps_guarded keeps_dispatch)+
  then show ?thesis
    unfolding keeps_def serve_def by (simp add: case_prod_unfold split: option.split)
qed

lemma keeps_step: "server_step X S E cfg s e s' \<Longrightarrow> P s \<Longrightarrow> P s'"
  proof (induction rule: server_step.induct)
  case (answer now fresh r s a s')
  with keeps_serve [of X S now fresh r] show ?case by (metis keeps_def snd_conv)
qed (intro background unqueue)

lemma keeps_run: "server_run X S E cfg s es s' \<Longrightarrow> P s \<Longrightarrow> P s'"
  by (induction rule: server_run.induct) (auto intro: keeps_step)

end

end
