(* ===== verification/Invariants.thy ===== *)
theory Invariants imports Server begin

text \<open>
  The invariant of the running server (\<open>handler_invariant\<close> of \<^verbatim>\<open>Server.thy\<close>), interpreted on the
  model: every content identifier the table mentions is pinned (\<open>pins_ok\<close>). The last section says which
  operations leave the slot map alone.
\<close>

section \<open>Pins\<close>

lemma health_check_same: "health_check E cfg now s = (x, s') \<Longrightarrow>
    rows_of s' = rows_of s \<and> app_slots s' = app_slots s \<and> app_tasks s' = app_tasks s \<and>
    app_node s' = snd (api_version (node_api E) (app_node s))"
proof -
  assume run: "health_check E cfg now s = (x, s')"
  obtain p s1 where p: "with_db (db_ping (sqlx_exec E)) s = (p, s1)" by fastforce
  then obtain db1 where db1: "db_ping (sqlx_exec E) (app_db s) = (p, db1)" "s1 = s\<lparr>app_db := db1\<rparr>"
    by (rule with_dbE)
  obtain v s2 where v: "with_node (ipfs_ping (node_api E)) s1 = (v, s2)" by fastforce
  then obtain i2 where i2: "ipfs_ping (node_api E) (app_node s1) = (v, i2)" "s2 = s1\<lparr>app_node := i2\<rparr>"
    by (rule with_nodeE)
  have "s' = s2" using run p v by (simp add: health_check_def Let_def split: prod.splits)
  moreover have "i2 = snd (api_version (node_api E) (app_node s1))"
    using i2(1) by (auto simp: ipfs_ping_def split: sum.splits prod.splits)
  ultimately show ?thesis using db1 i2 db_ping_rows [OF db1(1)] by simp
qed

text \<open>Asking the node for its version takes no pin away.\<close>

definition version_laws :: "'i ipfs_api \<Rightarrow> ('i \<Rightarrow> string set) \<Rightarrow> bool" where
  "version_laws A pins \<longleftrightarrow> (\<forall>i. pins (snd (api_version A i)) = pins i)"

interpretation pinned: handler_invariant E cfg
    "\<lambda>s. pin_laws (node_api E) pins \<and> version_laws (node_api E) pins \<and> pins_ok pins s"
  for E :: "('p, 'i, 'm, 'n, 'net, 'ip) env" and cfg pins
proof
  fix s s' :: "('p, 'i, 'm) app_state" and h bk ct part data u params fresh b del now x t ts
  assume "pin_laws (node_api E) pins \<and> version_laws (node_api E) pins \<and> pins_ok pins s"
  then have laws: "pin_laws (node_api E) pins" and version: "version_laws (node_api E) pins"
    and ok: "pins_ok pins s" by simp_all
  show "pin_laws (node_api E) pins \<and> version_laws (node_api E) pins \<and> pins_ok pins s'"
    if "put_object E cfg bk ct part data s = (h, s')"
    using laws version put_object_pins [OF laws ok that] by simp
  show "pin_laws (node_api E) pins \<and> version_laws (node_api E) pins \<and> pins_ok pins s'"
    if "delete_object E cfg bk u s = (h, s')"
    using laws version delete_object_pins [OF laws ok that] by simp
  show "pin_laws (node_api E) pins \<and> version_laws (node_api E) pins \<and> pins_ok pins s'"
    if "multipart_upload E cfg bk params fresh s = (h, s')"
    using laws version multipart_upload_pins [OF laws ok that] by simp
  show "pin_laws (node_api E) pins \<and> version_laws (node_api E) pins \<and> pins_ok pins s'"
    if "modify_bucket E cfg b del data s = (h, s')"
    using laws version modify_bucket_pins [OF laws ok that] by simp
  show "pin_laws (node_api E) pins \<and> version_laws (node_api E) pins \<and> pins_ok pins s'"
    if "same_data s s'"
    using laws version pins_ok_same_data [OF that ok] by simp
  show "pin_laws (node_api E) pins \<and> version_laws (node_api E) pins \<and> pins_ok pins s'"
    if "health_check E cfg now s = (x, s')"
    using laws version ok health_check_same [OF that] by (simp add: pins_ok_def version_laws_def)
  show "pin_laws (node_api E) pins \<and> version_laws (node_api E) pins \<and>
      pins_ok pins (run_background E cfg t s)"
    using laws version run_background_pins [OF laws ok] by simp
  show "pin_laws (node_api E) pins \<and> version_laws (node_api E) pins \<and>
      pins_ok pins (s\<lparr>app_tasks := ts\<rparr>)"
    using laws version ok by (simp add: pins_ok_def)
qed

section \<open>Operations without slots\<close>

lemma store_object_slots: "store_object E cfg b k ct data s = (r, s') \<Longrightarrow> app_slots s' = app_slots s"
  by (erule store_object_cases) simp_all

lemma remove_object_slots:
  assumes "remove_object E cfg b k s = (r, s')"
  shows "app_slots s' = app_slots s"
  using assms
proof (cases rule: remove_object_cases)
  case (removed md path s3 w s4)
  have "s' = s4 \<or> s' = spawn (TrimEmpty md) s4"
    using removed(8) by (auto split: sum.splits if_splits)
  with removed(5) unpin_if_orphan_frame [OF removed(7)] show ?thesis by auto
qed simp_all

lemma run_background_slots: "app_slots (run_background E cfg t s) = app_slots s"
proof (cases t)
  case (UnpinOld old added)
  have "app_slots (snd (unpin_if_orphan E md s)) = app_slots s" for md
    using unpin_if_orphan_frame by (metis prod.collapse)
  with UnpinOld show ?thesis by (simp add: run_background_def unpin_old_def split: option.split)
next
  case (TrimEmpty md)
  obtain q s1 where q: "with_db (find_shallowest_removable_directory (sqlx_exec E) (path_ancestors E)
      (md_bucket md) (md_key md)) s = (q, s1)" by fastforce
  then have "app_slots s1 = app_slots s" by (auto elim: with_dbE)
  with q TrimEmpty show ?thesis
    by (simp add: run_background_def trim_empty_def split: sum.split option.split)
qed

end
