(* ===== verification/SigV4Client.thy ===== *)
theory SigV4Client imports SigV4 "HOL-Library.Multiset" "HOL-Library.Sublist" begin

text \<open>
  The other end of \<^verbatim>\<open>SigV4.thy\<close>: a client that signs by the AWS documentation
  (the documents \<^verbatim>\<open>src/src/s3/authorization.rs\<close> refers to), and the lemmas that the server
  parses what it sends and computes the same strings. The canonical form of the documentation sorts
  headers and query parameters by name; the code sorts the rendered \<open>name:value\<close> and
  \<open>name=value\<close> strings. The two agree when no name is a proper prefix of another
  (\<open>prefix_free\<close>).
\<close>

section \<open>The documented client\<close>

definition aws_signature ::
  "sig_env \<Rightarrow> string \<Rightarrow> string \<Rightarrow> string \<Rightarrow> string \<Rightarrow> string \<Rightarrow> string" where
  "aws_signature S secret date region service to_sign =
     hex_encode S
       (hmac_sha256 S (hmac_sha256 S (hmac_sha256 S (hmac_sha256 S (hmac_sha256 S
          (''AWS4'' @ secret) date) region) service) ''aws4_request'') to_sign)"

definition header_value_of :: "sig_env \<Rightarrow> request \<Rightarrow> string \<Rightarrow> string" where
  "header_value_of S request name =
     (case header_text S (req_headers request) name of None \<Rightarrow> [] | Some v \<Rightarrow> trim v)"

definition aws_canonical_headers :: "sig_env \<Rightarrow> request \<Rightarrow> string list \<Rightarrow> string" where
  "aws_canonical_headers S request names =
     concat (map (\<lambda>n. n @ '':'' @ header_value_of S request n @ [CHR 0x0A]) (sort names))"

definition aws_canonical_query :: "sig_env \<Rightarrow> (string \<times> string) list \<Rightarrow> string" where
  "aws_canonical_query S pairs =
     join_with ''&'' (map (\<lambda>(k, v). k @ ''='' @ v)
       (sort_key fst (map (\<lambda>(k, v). (encode S k, encode S v)) pairs)))"

text \<open>The path in the request line is encoded once already; the documentation for S3 takes it as it
  is.\<close>

definition aws_canonical_request ::
  "sig_env \<Rightarrow> request \<Rightarrow> (string \<times> string) list \<Rightarrow> string list \<Rightarrow> string \<Rightarrow> string" where
  "aws_canonical_request S request pairs names body_hash =
     req_method request @ [CHR 0x0A] @ req_path request @ [CHR 0x0A] @
     aws_canonical_query S pairs @ [CHR 0x0A] @
     aws_canonical_headers S request names @ [CHR 0x0A] @
     join_with '';'' (sort names) @ [CHR 0x0A] @ body_hash"

definition aws_string_to_sign :: "sig_env \<Rightarrow> string \<Rightarrow> string \<Rightarrow> string \<Rightarrow> string \<Rightarrow> string \<Rightarrow> string" where
  "aws_string_to_sign S date_time date region service canonical =
     ''AWS4-HMAC-SHA256'' @ [CHR 0x0A] @ date_time @ [CHR 0x0A] @
     date @ ''/'' @ region @ ''/'' @ service @ ''/aws4_request'' @ [CHR 0x0A] @
     hex_encode S (sha256 S canonical)"

definition client_credential :: "string \<Rightarrow> string \<Rightarrow> string \<Rightarrow> string \<Rightarrow> string" where
  "client_credential key date region service =
     join_with ''/'' [key, date, region, service, ''aws4_request'']"

definition client_authorization :: "string \<Rightarrow> string \<Rightarrow> string \<Rightarrow> string" where
  "client_authorization credential signed_list signature =
     ''AWS4-HMAC-SHA256 Credential='' @ credential @ '', SignedHeaders='' @ signed_list @
     '', Signature='' @ signature"

section \<open>Sorting by name and sorting the rendered strings\<close>

definition prefix_free :: "string list \<Rightarrow> bool" where
  "prefix_free ks \<longleftrightarrow> distinct ks \<and> (\<forall>a \<in> set ks. \<forall>b \<in> set ks. prefix a b \<longrightarrow> a = b)"

lemma less_append_prefix_free:
  fixes a b :: string
  assumes "a < b" and "\<not> prefix a b"
  shows "a @ x < b @ y"
proof -
  have "(a, b) \<in> lexord {(u, v). u < v}" using assms(1) by (simp add: list_less_def)
  with assms(2) obtain u c d v w where "c < d" "a = u @ c # v" "b = u @ d # w"
    by (auto simp: lexord_def prefix_def)
  then show ?thesis
    unfolding list_less_def lexord_def by (auto intro!: exI [of _ u])
qed

lemma sorted_rendered:
  assumes "sorted ks" and "prefix_free ks"
  shows "sorted (map (\<lambda>k. k @ c # v k) ks)"
  using assms
proof (induction ks)
  case (Cons k ks)
  have "k @ c # v k \<le> k' @ c # v k'" if "k' \<in> set ks" for k'
  proof -
    have "k \<noteq> k'" "k \<le> k'" "\<not> prefix k k'"
      using Cons.prems that by (auto simp: prefix_free_def)
    then have "k @ c # v k < k' @ c # v k'" by (intro less_append_prefix_free) auto
    then show ?thesis by simp
  qed
  with Cons show ?case by (auto simp: prefix_free_def)
qed simp

lemma sort_rendered:
  assumes "prefix_free ks"
  shows "sort (map (\<lambda>k. k @ c # v k) ks) = map (\<lambda>k. k @ c # v k) (sort ks)"
proof (rule properties_for_sort)
  show "mset (map (\<lambda>k. k @ c # v k) (sort ks)) = mset (map (\<lambda>k. k @ c # v k) ks)" by simp
  have "prefix_free (sort ks)" using assms by (simp add: prefix_free_def)
  then show "sorted (map (\<lambda>k. k @ c # v k) (sort ks))" by (intro sorted_rendered) simp_all
qed

lemma sorted_rendered_pairs:
  assumes "sorted (map fst ps)" and "prefix_free (map fst ps)"
  shows "sorted (map (\<lambda>(k, v). k @ c # v) ps)"
  using assms
proof (induction ps)
  case (Cons p ps)
  obtain k v where p: "p = (k, v)" by fastforce
  have "k @ c # v \<le> k' @ c # v'" if "(k', v') \<in> set ps" for k' v'
  proof -
    have "k' \<in> fst ` set ps" using that by force
    then have "k \<noteq> k'" "k \<le> k'" "\<not> prefix k k'"
      using Cons.prems p by (auto simp: prefix_free_def)
    then have "k @ c # v < k' @ c # v'" by (intro less_append_prefix_free) auto
    then show ?thesis by simp
  qed
  with Cons p show ?case by (auto simp: prefix_free_def)
qed simp

lemma sort_rendered_pairs:
  assumes "prefix_free (map fst ps)"
  shows "sort (map (\<lambda>(k, v). k @ c # v) ps) = map (\<lambda>(k, v). k @ c # v) (sort_key fst ps)"
proof (rule properties_for_sort)
  have "mset (sort_key fst ps) = mset ps" by simp
  then show "mset (map (\<lambda>(k, v). k @ c # v) (sort_key fst ps)) = mset (map (\<lambda>(k, v). k @ c # v) ps)"
    by (simp only: mset_map)
  have "mset (map fst (sort_key fst ps)) = mset (map fst ps)"
    by (simp only: mset_map \<open>mset (sort_key fst ps) = mset ps\<close>)
  then have "prefix_free (map fst (sort_key fst ps))"
    using assms unfolding prefix_free_def by (metis mset_eq_imp_distinct_iff mset_eq_setD)
  then show "sorted (map (\<lambda>(k, v). k @ c # v) (sort_key fst ps))"
    by (intro sorted_rendered_pairs) simp_all
qed

section \<open>The canonical request\<close>

lemma join_newline_concat:
  "xs \<noteq> [] \<Longrightarrow> join_with [c] xs @ [c] = concat (map (\<lambda>x. x @ [c]) xs)"
  by (induction xs rule: induct_list012) auto

lemma canonical_headers_agree:
  assumes "names \<noteq> []" and "prefix_free names" and "\<forall>n \<in> set names. to_lower n = n"
  shows "canonicalize_headers S (req_headers r) names @ [CHR 0x0A] = aws_canonical_headers S r names"
proof -
  let ?line = "\<lambda>n. n @ CHR '':'' # header_value_of S r n"
  have "map (\<lambda>(k, v). k @ '':'' @ v) (map (\<lambda>name. (to_lower name,
      case map_option trim (header_text S (req_headers r) name) of None \<Rightarrow> [] | Some v \<Rightarrow> v)) names)
      = map ?line names"
    using assms(3) by (auto simp: header_value_of_def split: option.splits)
  then have "canonicalize_headers S (req_headers r) names = join_with [CHR 0x0A] (sort (map ?line names))"
    by (simp only: canonicalize_headers_def)
  then have "canonicalize_headers S (req_headers r) names = join_with [CHR 0x0A] (map ?line (sort names))"
    by (simp only: sort_rendered [OF assms(2), of "CHR '':''" "header_value_of S r"])
  moreover have "sort names \<noteq> []"
    using assms(1) by (metis length_0_conv length_sort)
  ultimately show ?thesis
    by (simp add: join_newline_concat aws_canonical_headers_def comp_def)
qed

lemma canonical_query_agree:
  assumes "url_query_pairs S (''http://example.com/'' @ uri) = Some pairs"
    and "prefix_free (map (\<lambda>(k, _). encode S k) (filter (\<lambda>(k, _). to_lower k \<noteq> ''x-amz-signature'') pairs))"
  shows "canonicalize_query_string S uri =
    Some (aws_canonical_query S (filter (\<lambda>(k, _). to_lower k \<noteq> ''x-amz-signature'') pairs))"
proof -
  let ?enc = "map (\<lambda>(k, v). (encode S k, encode S v)) (filter (\<lambda>(k, _). to_lower k \<noteq> ''x-amz-signature'') pairs)"
  have "prefix_free (map fst ?enc)"
    using assms(2) by (simp add: comp_def case_prod_unfold)
  from sort_rendered_pairs [OF this, of "CHR ''=''"]
  have "sort (map (\<lambda>(k, v). k @ ''='' @ v) ?enc) = map (\<lambda>(k, v). k @ ''='' @ v) (sort_key fst ?enc)"
    by simp
  then show ?thesis
    by (simp only: canonicalize_query_string_def assms(1) option.case aws_canonical_query_def)
qed

text \<open>Unreserved characters are encoded to themselves; bytes outside ASCII never are.\<close>

definition unreserved :: "sig_env \<Rightarrow> char \<Rightarrow> bool" where
  "unreserved S c \<longleftrightarrow> \<not> percent_encode_set S c \<and> byte c < 128"

definition percent_laws :: "sig_env \<Rightarrow> bool" where
  "percent_laws S \<longleftrightarrow> (\<forall>s P. (\<forall>c \<in> set s. \<not> P c \<and> byte c < 128) \<longrightarrow> percent_encode S s P = s)"

lemma canonicalize_uri_unreserved:
  assumes "percent_laws S" and "\<forall>c \<in> set path. c = CHR ''/'' \<or> unreserved S c"
  shows "canonicalize_uri S path = path"
proof -
  have sub: "c \<in> set path" if "p \<in> set (split_on CHR ''/'' path)" "c \<in> set p" for p c
    using that
  proof (induction path arbitrary: p)
    case (Cons x xs)
    obtain q qs where q: "split_on CHR ''/'' xs = q # qs" by (cases "split_on CHR ''/'' xs") auto
    have tails: "c \<in> set xs" if "p' \<in> set (q # qs)" "c \<in> set p'" for p'
      using Cons.IH [of p'] that q by simp
    consider "p = []" | "p \<in> set (q # qs)" | "p = x # q"
      using Cons.prems(1) q by (auto split: if_splits)
    then show ?case
      using Cons.prems(2) tails [of p] tails [of q] by cases auto
  qed auto
  have "encode S p = p" if p: "p \<in> set (split_on CHR ''/'' path)" for p
  proof -
    have no_sep: "CHR ''/'' \<notin> set p" using p by (rule split_on_no_sep)
    have "\<not> percent_encode_set S c \<and> byte c < 128" if c: "c \<in> set p" for c
    proof -
      have "c = CHR ''/'' \<or> unreserved S c" using assms(2) sub [OF p c] by (rule bspec)
      moreover have "c \<noteq> CHR ''/''" using c no_sep by metis
      ultimately show ?thesis by (simp add: unreserved_def)
    qed
    then have "\<forall>c \<in> set p. \<not> percent_encode_set S c \<and> byte c < 128" by (rule ballI)
    then show ?thesis using assms(1) unfolding encode_def percent_laws_def by blast
  qed
  then have "map (encode S) (split_on CHR ''/'' path) = split_on CHR ''/'' path"
    by (intro map_idI) blast
  then show ?thesis by (simp add: canonicalize_uri_def)
qed

lemma string_to_sign_agree:
  "string_to_sign S dt date region service c = aws_string_to_sign S dt date region service c"
  by (simp add: string_to_sign_def aws_string_to_sign_def lines_def)

lemma canonical_request_agree:
  assumes "canonicalize_uri S (req_path r) = req_path r"
    and "canonicalize_query_string S (req_uri r) = Some q" and "q = aws_canonical_query S pairs"
    and "canonicalize_headers S (req_headers r) names @ [CHR 0x0A] = aws_canonical_headers S r names"
    and "sorted names"
  shows "canonical_request (req_method r) (canonicalize_uri S (req_path r))
      (or_default (canonicalize_query_string S (req_uri r)))
      (canonicalize_headers S (req_headers r) names) (join_with '';'' names) h
    = aws_canonical_request S r pairs names h"
  using assms(5)
  by (simp add: assms(1-3) canonical_request_def aws_canonical_request_def lines_def or_default_def
      sorted_sort_id flip: assms(4))

section \<open>The \<open>Authorization\<close> header\<close>

text \<open>Characters of the pieces that the header is made of.\<close>

definition visible :: "char \<Rightarrow> bool" where
  "visible c \<longleftrightarrow> 32 \<le> byte c \<and> byte c < 127"

definition plain_char :: "char \<Rightarrow> bool" where
  "plain_char c \<longleftrightarrow> visible c \<and> \<not> is_ws c \<and> c \<noteq> CHR '','' \<and> c \<noteq> CHR ''=''"

definition token :: "string \<Rightarrow> bool" where
  "token s \<longleftrightarrow> (\<forall>c \<in> set s. plain_char c \<and> c \<noteq> CHR ''/'' \<and> c \<noteq> CHR '';'')"

definition piece :: "string \<Rightarrow> bool" where
  "piece s \<longleftrightarrow> (\<forall>c \<in> set s. plain_char c)"

text \<open>\<open>HeaderValue::to_str\<close> returns a value of visible ASCII as it is.\<close>

definition to_str_laws :: "sig_env \<Rightarrow> bool" where
  "to_str_laws S \<longleftrightarrow> (\<forall>s. list_all visible s \<longrightarrow> sig_to_str S s = Some s)"

definition hex_laws :: "sig_env \<Rightarrow> bool" where
  "hex_laws S \<longleftrightarrow> (\<forall>b. \<forall>c \<in> set (hex_encode S b). c \<in> set ''0123456789abcdef'')"

lemma plain_literals:
  "list_all (\<lambda>c. \<not> is_ws c) ''Credential=''" "list_all (\<lambda>c. \<not> is_ws c) ''SignedHeaders=''"
  "list_all (\<lambda>c. \<not> is_ws c) ''Signature=''"
  by code_simp+

lemma hex_literal:
  "list_all plain_char ''0123456789abcdef''"
  by code_simp

lemma trim_no_ws: "\<forall>c \<in> set s. \<not> is_ws c \<Longrightarrow> trim s = s"
  by (cases "s = []") (simp_all add: trim_id)

lemma trim_space: "\<forall>c \<in> set s. \<not> is_ws c \<Longrightarrow> trim (CHR '' '' # s) = s"
proof -
  assume "\<forall>c \<in> set s. \<not> is_ws c"
  moreover have "trim (CHR '' '' # s) = trim s" by (simp add: trim_def is_ws_def)
  ultimately show ?thesis by (simp add: trim_no_ws)
qed

lemma token_piece: "token s \<Longrightarrow> piece s"
  by (simp add: token_def piece_def)

lemma piece_append [simp]: "piece (a @ b) \<longleftrightarrow> piece a \<and> piece b"
  by (simp add: piece_def ball_Un)

lemma piece_join:
  "\<forall>s \<in> set ss. piece s \<Longrightarrow> piece sep \<Longrightarrow> piece (join_with sep ss)"
  by (induction sep ss rule: join_with.induct) (simp_all add: piece_def [of "[]"])

lemma hex_piece: "hex_laws S \<Longrightarrow> piece (hex_encode S b)"
  using hex_literal unfolding hex_laws_def piece_def list_all_iff by blast

lemma header_param_here:
  assumes "piece v" and "p = q @ ''=''"
  shows "trim_start_matches p (p @ v) = v"
proof (rule trim_start_matches_once)
  show "p \<noteq> []" using assms(2) by simp
  show "\<not> starts_with p v"
  proof
    assume "starts_with p v"
    then obtain r where "v = p @ r" using starts_with_iff by blast
    with assms show False by (simp add: piece_def plain_char_def)
  qed
qed

lemma piece_no_ws:
  "piece s \<Longrightarrow> list_all (\<lambda>c. \<not> is_ws c) p \<Longrightarrow> \<forall>c \<in> set (p @ s). \<not> is_ws c"
  unfolding piece_def plain_char_def list_all_iff set_append by blast

lemma piece_no_comma: "piece s \<Longrightarrow> CHR '','' \<notin> set s"
  unfolding piece_def plain_char_def by blast

lemma split_client_authorization:
  assumes "piece cred" and "piece sh" and "piece sig"
  shows "map trim (split_on CHR '','' (trim_start_matches ''AWS4-HMAC-SHA256 ''
           (client_authorization cred sh sig)))
         = [''Credential='' @ cred, ''SignedHeaders='' @ sh, ''Signature='' @ sig]"
proof -
  have no_comma: "CHR '','' \<notin> set (''Credential='' @ cred)"
      "CHR '','' \<notin> set (CHR '' '' # ''SignedHeaders='' @ sh)"
      "CHR '','' \<notin> set (CHR '' '' # ''Signature='' @ sig)"
    using assms [THEN piece_no_comma] by simp_all
  have stop: "\<not> starts_with ''AWS4-HMAC-SHA256 '' (''Credential='' @ x)" for x by simp
  have "client_authorization cred sh sig = ''AWS4-HMAC-SHA256 '' @ ''Credential='' @ cred
      @ CHR '','' # (CHR '' '' # ''SignedHeaders='' @ sh) @ CHR '','' # (CHR '' '' # ''Signature='' @ sig)"
    by (simp add: client_authorization_def)
  then have "trim_start_matches ''AWS4-HMAC-SHA256 '' (client_authorization cred sh sig)
      = (''Credential='' @ cred) @ CHR '','' # (CHR '' '' # ''SignedHeaders='' @ sh)
        @ CHR '','' # (CHR '' '' # ''Signature='' @ sig)"
    by (simp only: trim_start_matches_once [OF list.distinct(2) stop] append_assoc)
  then have "split_on CHR '','' (trim_start_matches ''AWS4-HMAC-SHA256 '' (client_authorization cred sh sig))
      = [''Credential='' @ cred, CHR '' '' # ''SignedHeaders='' @ sh, CHR '' '' # ''Signature='' @ sig]"
    by (simp only: split_on_append_sep [OF no_comma(1)] split_on_append_sep [OF no_comma(2)]
        split_on_none [OF no_comma(3)])
  then show ?thesis
    by (simp only: list.map
        trim_no_ws [OF piece_no_ws [OF assms(1) plain_literals(1)]]
        trim_space [OF piece_no_ws [OF assms(2) plain_literals(2)]]
        trim_space [OF piece_no_ws [OF assms(3) plain_literals(3)]])
qed

lemma header_params_client:
  assumes "piece cred" and "piece sh" and "piece sig"
    and "parts = [''Credential='' @ cred, ''SignedHeaders='' @ sh, ''Signature='' @ sig]"
  shows "header_param ''Credential='' parts = Some cred" "header_param ''SignedHeaders='' parts = Some sh"
    "header_param ''Signature='' parts = Some sig"
proof -
  have v: "trim_start_matches ''Credential='' (''Credential='' @ cred) = cred"
      "trim_start_matches ''SignedHeaders='' (''SignedHeaders='' @ sh) = sh"
      "trim_start_matches ''Signature='' (''Signature='' @ sig) = sig"
    by (rule header_param_here [OF assms(1), of _ "''Credential''"], simp)
      (rule header_param_here [OF assms(2), of _ "''SignedHeaders''"], simp,
       rule header_param_here [OF assms(3), of _ "''Signature''"], simp)
  have f: "find (starts_with ''Credential='') parts = Some (''Credential='' @ cred)"
      "find (starts_with ''SignedHeaders='') parts = Some (''SignedHeaders='' @ sh)"
      "find (starts_with ''Signature='') parts = Some (''Signature='' @ sig)"
    by (simp_all add: assms(4))
  show "header_param ''Credential='' parts = Some cred"
    by (simp only: header_param_def f option.map v)
  show "header_param ''SignedHeaders='' parts = Some sh"
    by (simp only: header_param_def f option.map v)
  show "header_param ''Signature='' parts = Some sig"
    by (simp only: header_param_def f option.map v)
qed

lemma split_credential:
  assumes "\<forall>s \<in> {key, date, region, service}. token s"
  shows "split_on CHR ''/'' (client_credential key date region service)
    = [key, date, region, service, ''aws4_request'']"
proof -
  have no_slash: "CHR ''/'' \<notin> set s" if "token s" for s
    using that unfolding token_def by blast
  have "CHR ''/'' \<notin> set ''aws4_request''" by simp
  with assms no_slash
  have "\<forall>s \<in> set [key, date, region, service, ''aws4_request'']. CHR ''/'' \<notin> set s" by simp
  then show ?thesis unfolding client_credential_def by (intro split_on_join list.distinct)
qed

lemma piece_credential:
  "\<forall>s \<in> {key, date, region, service}. token s \<Longrightarrow> piece (client_credential key date region service)"
proof -
  assume tokens: "\<forall>s \<in> {key, date, region, service}. token s"
  have "list_all plain_char ''aws4_request''" by code_simp
  then have "piece ''aws4_request''" unfolding piece_def list_all_iff .
  moreover have "list_all plain_char ''/''" by code_simp
  then have sep: "piece ''/''" unfolding piece_def list_all_iff .
  ultimately have "\<forall>s \<in> set [key, date, region, service, ''aws4_request'']. piece s"
    using tokens token_piece by simp
  then show ?thesis unfolding client_credential_def using sep by (rule piece_join)
qed

lemma is_valid_iff_signature:
  "is_valid S a cfg \<longleftrightarrow> ar_credential a = access_key cfg \<and>
     ar_signature a = aws_signature S (secret_key cfg) (ar_date a) (ar_region a) (ar_service a)
       (ar_string_to_sign a)"
  by (auto simp: is_valid_def aws_signature_def sign_def Let_def)

section \<open>What a client sends\<close>

text \<open>A request signed in the header: the client adds the \<open>Authorization\<close> header, computed
  by the documentation, to a request that carries its date and its payload hash.\<close>

definition client_signature ::
  "sig_env \<Rightarrow> auth_config \<Rightarrow> string \<Rightarrow> string \<Rightarrow> string \<Rightarrow> string \<Rightarrow> string \<Rightarrow> string" where
  "client_signature S config date_time date region service canonical =
     aws_signature S (secret_key config) date region service
       (aws_string_to_sign S date_time date region service canonical)"

definition sign_in_header ::
  "sig_env \<Rightarrow> auth_config \<Rightarrow> string \<Rightarrow> string \<Rightarrow> string \<Rightarrow> string \<Rightarrow> string list \<Rightarrow>
   (string \<times> string) list \<Rightarrow> string \<Rightarrow> request \<Rightarrow> request" where
  "sign_in_header S config date_time date region service names pairs body_hash r =
     r\<lparr>req_headers := (req_headers r)(''authorization'' \<mapsto>
       client_authorization (client_credential (access_key config) date region service)
         (join_with '';'' (sort names))
         (client_signature S config date_time date region service
            (aws_canonical_request S r pairs names body_hash)))\<rparr>"

lemma authorization_visible:
  assumes "piece cred" and "list_all visible sh" and "piece sig"
  shows "list_all visible (client_authorization cred sh sig)"
proof -
  have "list_all visible ''AWS4-HMAC-SHA256 Credential=''" "list_all visible '', SignedHeaders=''"
    "list_all visible '', Signature=''"
    by code_simp+
  moreover have "list_all visible cred" "list_all visible sig"
    using assms(1,3) by (auto simp: piece_def plain_char_def list_all_iff)
  ultimately show ?thesis
    using assms(2) unfolding client_authorization_def list_all_append by blast
qed

lemma piece_names:
  assumes "\<forall>n \<in> set names. token n"
  shows "piece (join_with '';'' names)"
proof -
  have "list_all plain_char '';''" by code_simp
  then have "piece '';''" unfolding piece_def list_all_iff .
  moreover have "\<forall>n \<in> set names. piece n" using assms token_piece by blast
  ultimately show ?thesis by (intro piece_join)
qed

lemma split_names:
  assumes "names \<noteq> []" and "\<forall>n \<in> set names. token n"
  shows "split_on CHR '';'' (join_with '';'' names) = names"
proof -
  have "\<forall>n \<in> set names. CHR '';'' \<notin> set n" using assms(2) unfolding token_def by blast
  then show ?thesis using assms(1) by (intro split_on_join)
qed

lemma canonicalize_headers_cong:
  assumes "\<And>n. n \<in> set names \<Longrightarrow> h n = h' n"
  shows "canonicalize_headers S h names = canonicalize_headers S h' names"
  using assms by (simp add: canonicalize_headers_def header_text_def cong: map_cong)

lemma from_authorization_header_client:
  assumes "piece sig" and tokens: "\<forall>s \<in> {key, date, region, service}. token s"
    and names: "names \<noteq> []" "\<forall>n \<in> set names. token n"
    and "header_text S (req_headers r) ''authorization'' = Some
      (client_authorization (client_credential key date region service) (join_with '';'' names) sig)"
    and "header_text S (req_headers r) ''x-amz-date'' = Some dt"
    and "header_text S (req_headers r) ''x-amz-content-sha256'' = Some h"
  shows "from_authorization_header S r = Some
    \<lparr>ar_credential = key, ar_date = date, ar_signature = sig, ar_region = region, ar_service = service,
     ar_string_to_sign = string_to_sign S dt date region service
       (canonical_request (req_method r) (canonicalize_uri S (req_path r))
          (or_default (canonicalize_query_string S (req_uri r)))
          (canonicalize_headers S (req_headers r) names) (join_with '';'' names) h)\<rparr>"
proof -
  let ?cred = "client_credential key date region service" and ?sh = "join_with '';'' names"
  note parts = piece_credential [OF tokens] piece_names [OF names(2)] assms(1)
  have "length [a, b, c] < 2 \<longleftrightarrow> False" for a b c :: string by simp
  moreover have "take 4 [key, date, region, service, ''aws4_request''] = [key, date, region, service]" by simp
  ultimately show ?thesis
    by (simp only: from_authorization_header_def assms(5-7) option.case Let_def if_False list.case
        split_client_authorization [OF parts] header_params_client [OF parts refl]
        split_credential [OF tokens] split_names [OF names])
qed

end
