(* ===== verification/Instances.thy ===== *)
theory Instances imports Invariants SigV4Client begin

text \<open>
  An executable instance of everything outside the repository: a connection pool and a node whose
  faults follow a script, a content-addressed node with an MFS tree, association lists with a spare
  capacity for the concurrent maps, segment-wise paths, simple header and query functions and
  primitives for the signatures. The lemmas show that it satisfies the laws the theorems assume, so the
  theorems can be applied to concrete runs.
\<close>

section \<open>The connection pool and the node\<close>

text \<open>A script says which of the next calls fail; at its end every call succeeds. The clock of the pool
  advances by one with each statement.\<close>

fun demo_exec :: "(int \<times> bool list) sqlx" where
  "demo_exec (now, []) = (Inr now, (now + 1, []))"
| "demo_exec (now, True # fs) = (Inl ''database is locked'', (now, fs))"
| "demo_exec (now, False # fs) = (Inr now, (now + 1, fs))"

record demo_node =
  dn_pins :: "string list"
  dn_blocks :: "string list"
  dn_mfs :: "(string \<times> mfs_entry) list"
  dn_faults :: "bool list"

definition with_fault ::
  "(demo_node \<Rightarrow> (string + 'a) \<times> demo_node) \<Rightarrow> demo_node \<Rightarrow> (string + 'a) \<times> demo_node" where
  "with_fault f i =
     (case dn_faults i of
        [] \<Rightarrow> f i
      | b # bs \<Rightarrow> if b then (Inl ''offline'', i\<lparr>dn_faults := bs\<rparr>) else f (i\<lparr>dn_faults := bs\<rparr>))"

text \<open>A content identifier that carries the content.\<close>

definition demo_cid :: "bytes \<Rightarrow> string" where
  "demo_cid d = ''Qm'' @ d"

definition demo_add :: "bytes \<Rightarrow> demo_node \<Rightarrow> (string + add_response) \<times> demo_node" where
  "demo_add d = with_fault (\<lambda>i.
     (Inr \<lparr>ar_name = [], ar_hash = demo_cid d, ar_size = dec_of_nat (length d)\<rparr>,
      i\<lparr>dn_pins := demo_cid d # dn_pins i, dn_blocks := demo_cid d # dn_blocks i\<rparr>))"

definition parents_of :: "string \<Rightarrow> string list" where
  "parents_of p = map (\<lambda>n. take n p) (filter (\<lambda>n. p ! n = CHR ''/'' \<and> 0 < n) [0 ..< length p])"

definition demo_files_cp :: "files_cp_request \<Rightarrow> demo_node \<Rightarrow> (string + unit) \<times> demo_node" where
  "demo_files_cp r = with_fault (\<lambda>i.
     if list_ex (\<lambda>p. map_of (dn_mfs i) p \<notin> {None, Some MfsDir}) (parents_of (cp_dest r))
     then (Inl ''not a directory'', i)
     else
       (Inr (),
        i\<lparr>dn_mfs := (cp_dest r, MfsFile (drop 6 (cp_path r)))
            # map (\<lambda>p. (p, MfsDir)) (filter (\<lambda>p. map_of (dn_mfs i) p = None) (parents_of (cp_dest r)))
            @ filter (\<lambda>(p, _). \<not> at_or_below (cp_dest r) p) (dn_mfs i)\<rparr>))"

definition demo_files_rm :: "string \<Rightarrow> bool \<Rightarrow> demo_node \<Rightarrow> (string + unit) \<times> demo_node" where
  "demo_files_rm p rec = with_fault (\<lambda>i.
     if map_of (dn_mfs i) p = None then (Inl ''file does not exist'', i)
     else (Inr (), i\<lparr>dn_mfs := filter (\<lambda>(q, _). \<not> at_or_below p q) (dn_mfs i)\<rparr>))"

definition demo_pin_rm :: "string \<Rightarrow> bool \<Rightarrow> demo_node \<Rightarrow> (string + unit) \<times> demo_node" where
  "demo_pin_rm c rec = with_fault (\<lambda>i.
     if c \<in> set (dn_pins i) then (Inr (), i\<lparr>dn_pins := filter (\<lambda>x. x \<noteq> c) (dn_pins i)\<rparr>)
     else (Inl ''not pinned'', i))"

definition demo_cat :: "string \<Rightarrow> demo_node \<Rightarrow> (string + bytes) list" where
  "demo_cat c i = (if c \<in> set (dn_blocks i) then [Inr (drop 2 c)] else [Inl ''not found''])"

definition demo_version :: "demo_node \<Rightarrow> (string + version_response) \<times> demo_node" where
  "demo_version = with_fault (\<lambda>i. (Inr \<lparr>vr_version = ''0.34'', vr_commit = ''abc''\<rparr>, i))"

definition demo_node_api :: "demo_node ipfs_api" where
  "demo_node_api =
     \<lparr>api_add = demo_add, api_files_cp = demo_files_cp, api_files_rm = demo_files_rm,
      api_pin_rm = demo_pin_rm, api_cat = demo_cat, api_version = demo_version\<rparr>"

definition demo_pins :: "demo_node \<Rightarrow> string set" where
  "demo_pins i = set (dn_pins i)"

definition demo_mfs :: "demo_node \<Rightarrow> string \<Rightarrow> mfs_entry option" where
  "demo_mfs i = map_of (dn_mfs i)"

definition demo_content :: "demo_node \<Rightarrow> string \<Rightarrow> bytes option" where
  "demo_content i c = (if c \<in> set (dn_blocks i) then Some (drop 2 c) else None)"

lemmas demo_calls = demo_add_def demo_files_cp_def demo_files_rm_def demo_pin_rm_def demo_version_def

lemma with_fault_cases:
  assumes "with_fault f i = (r, i')"
  obtains (fault) e fs where "r = Inl e" "i' = i\<lparr>dn_faults := fs\<rparr>"
  | (call) fs where "f (i\<lparr>dn_faults := fs\<rparr>) = (r, i')"
proof (cases "dn_faults i")
  case Nil
  have same: "i\<lparr>dn_faults := dn_faults i\<rparr> = i" by (cases i) simp
  have "f i = (r, i')" using assms Nil by (simp add: with_fault_def)
  then have "f (i\<lparr>dn_faults := dn_faults i\<rparr>) = (r, i')" by (simp only: same)
  then show thesis by (rule call)
next
  case (Cons b bs)
  show thesis
  proof (cases b)
    case True
    with assms Cons have "r = Inl ''offline''" "i' = i\<lparr>dn_faults := bs\<rparr>"
      by (simp_all add: with_fault_def)
    then show thesis by (rule fault)
  next
    case False
    with assms Cons have "f (i\<lparr>dn_faults := bs\<rparr>) = (r, i')" by (simp add: with_fault_def)
    then show thesis by (rule call)
  qed
qed

lemma demo_pin_laws: "pin_laws demo_node_api demo_pins"
proof -
  have add: "set (dn_pins i) \<subseteq> set (dn_pins i')" "r = Inr a \<Longrightarrow> ar_hash a \<in> set (dn_pins i')"
    if "demo_add d i = (r, i')" for d i r i' a
    using that unfolding demo_add_def by (auto elim!: with_fault_cases)
  have cp: "dn_pins i' = dn_pins i" if "demo_files_cp q i = (r, i')" for q i r i'
    using that unfolding demo_files_cp_def by (auto elim!: with_fault_cases split: if_splits)
  have rm: "dn_pins i' = dn_pins i" if "demo_files_rm p b i = (r, i')" for p b i r i'
    using that unfolding demo_files_rm_def by (auto elim!: with_fault_cases split: if_splits)
  have pin: "set (dn_pins i) - {c} \<subseteq> set (dn_pins i') \<and> set (dn_pins i') \<subseteq> set (dn_pins i) \<and>
      (is_ok r \<longrightarrow> c \<notin> set (dn_pins i'))"
    if "demo_pin_rm c b i = (r, i')" for c b i r i'
    using that unfolding demo_pin_rm_def by (auto elim!: with_fault_cases split: if_splits)
  show ?thesis
    unfolding pin_laws_def demo_pins_def demo_node_api_def
    by (intro conjI allI; simp) (metis add cp rm pin prod.collapse)+
qed

lemma demo_version_laws: "version_laws demo_node_api demo_pins"
proof -
  have "dn_pins i' = dn_pins i" if "demo_version i = (r, i')" for i r i'
    using that unfolding demo_version_def by (auto elim!: with_fault_cases)
  then show ?thesis
    unfolding version_laws_def demo_pins_def demo_node_api_def by (simp, metis prod.collapse)
qed

text \<open>The tree.\<close>

lemma parents_of_above: "p \<in> set (parents_of d) \<Longrightarrow> at_or_below p d"
proof -
  assume "p \<in> set (parents_of d)"
  then obtain n where n: "p = take n d" "n < length d" "d ! n = CHR ''/''"
    by (auto simp: parents_of_def)
  then have "d = (p @ ''/'') @ drop (Suc n) d" using id_take_nth_drop [of n d] by simp
  then show ?thesis unfolding at_or_below_def by (metis starts_with_append)
qed

lemma at_or_below_self [simp]: "at_or_below p p"
  by (simp add: at_or_below_def)

lemma map_of_filter_keys: "map_of (filter (\<lambda>(k, _). Q k) xs) k = (if Q k then map_of xs k else None)"
  by (induction xs) auto

lemma map_of_const: "map_of (map (\<lambda>p. (p, v)) ps) k = (if k \<in> set ps then Some v else None)"
  by (induction ps) auto

lemma demo_files_cp_mfs:
  assumes "demo_files_cp r i = (x, i')"
  shows "is_ok x \<Longrightarrow> demo_mfs i' (cp_dest r) = Some (MfsFile (drop 6 (cp_path r)))"
    and "\<not> at_or_below (cp_dest r) p \<Longrightarrow>
      demo_mfs i' p = demo_mfs i p \<or>
      demo_mfs i p = None \<and> at_or_below p (cp_dest r) \<and> demo_mfs i' p = Some MfsDir"
  using assms unfolding demo_files_cp_def demo_mfs_def
  by (auto elim!: with_fault_cases split: if_splits
      simp: map_add_def map_of_const map_of_filter_keys map_of_append)
    (erule parents_of_above)

lemma demo_files_rm_mfs:
  assumes "demo_files_rm p b i = (x, i')"
  shows "is_ok x \<Longrightarrow> demo_mfs i' = (\<lambda>q. if at_or_below p q then None else demo_mfs i q)"
    and "demo_mfs i' q = demo_mfs i q \<or> at_or_below p q \<and> demo_mfs i' q = None"
    and "demo_mfs i p = None \<Longrightarrow> \<not> is_ok x"
  using assms unfolding demo_files_rm_def demo_mfs_def
  by (auto elim!: with_fault_cases split: if_splits simp: map_of_filter_keys fun_eq_iff)

lemma demo_mfs_laws: "mfs_laws demo_node_api demo_mfs"
proof -
  have add: "demo_mfs i' = demo_mfs i" if "demo_add d i = (r, i')" for d i r i'
    using that unfolding demo_add_def demo_mfs_def by (auto elim!: with_fault_cases)
  have pin: "demo_mfs i' = demo_mfs i" if "demo_pin_rm c b i = (r, i')" for c b i r i'
    using that unfolding demo_pin_rm_def demo_mfs_def by (auto elim!: with_fault_cases split: if_splits)
  have link: "demo_mfs i' d = Some (MfsFile c)"
    if "demo_files_cp (link_request c d) i = (r, i')" "is_ok r" for c d i r i'
    using demo_files_cp_mfs(1) [OF that] by simp
  note calls = add [OF prod.collapse [symmetric]] pin [OF prod.collapse [symmetric]]
    link [OF prod.collapse [symmetric]] demo_files_cp_mfs [OF prod.collapse [symmetric]]
    demo_files_rm_mfs [OF prod.collapse [symmetric]]
  show ?thesis
    unfolding mfs_laws_def demo_node_api_def ipfs_api.simps
    by (intro conjI allI impI) (erule calls | rule calls | (drule calls(4), assumption))+
qed

lemma demo_content_laws: "content_laws demo_node_api demo_pins demo_content"
proof -
  have add: "r = Inr a \<Longrightarrow> demo_content i' (ar_hash a) = Some d"
      "demo_content i c \<noteq> None \<Longrightarrow> demo_content i' c = demo_content i c"
    if "demo_add d i = (r, i')" for d i r i' a c
    using that unfolding demo_add_def demo_content_def demo_cid_def
    by (auto elim!: with_fault_cases split: if_splits)
  have others: "demo_files_cp q i = (r, i') \<Longrightarrow> dn_blocks i' = dn_blocks i"
      "demo_files_rm p b i = (r, i') \<Longrightarrow> dn_blocks i' = dn_blocks i"
      "demo_pin_rm c b i = (r, i') \<Longrightarrow> dn_blocks i' = dn_blocks i" for q p b c i r i'
    unfolding demo_files_cp_def demo_files_rm_def demo_pin_rm_def
    by (auto elim!: with_fault_cases split: if_splits)
  have same: "dn_blocks i' = dn_blocks i \<Longrightarrow> demo_content i' c = demo_content i c" for i i' c
    by (simp add: demo_content_def)
  have cat: "demo_content i c = Some d \<Longrightarrow> concat (map projr (demo_cat c i)) = d" for i c d
    by (auto simp: demo_content_def demo_cat_def split: if_splits)
  show ?thesis
    unfolding content_laws_def demo_node_api_def ipfs_api.simps
    by (intro conjI allI impI)
      (erule add [OF prod.collapse [symmetric]] cat
        | rule same [OF others(1) [OF prod.collapse [symmetric]]]
            same [OF others(2) [OF prod.collapse [symmetric]]]
            same [OF others(3) [OF prod.collapse [symmetric]]])+
qed

section \<open>The concurrent maps\<close>

text \<open>A spare capacity and an association list, of which the first entry of a key counts.\<close>

definition demo_insert :: "'k \<Rightarrow> 'v \<Rightarrow> nat \<times> ('k \<times> 'v) list \<Rightarrow> 'v option \<times> nat \<times> ('k \<times> 'v) list" where
  "demo_insert k v m =
     (let es = AList.clearjunk (snd m)
      in (map_of es k,
          (if map_of es k \<noteq> None then fst m else if fst m = 0 then length es else fst m - 1),
          AList.update k v es))"

definition demo_remove ::
  "'k \<Rightarrow> nat \<times> ('k \<times> 'v) list \<Rightarrow> ('k \<times> 'v) option \<times> nat \<times> ('k \<times> 'v) list" where
  "demo_remove k m =
     (let es = AList.clearjunk (snd m)
      in (map_option (Pair k) (map_of es k),
          (if map_of es k \<noteq> None then Suc (fst m) else fst m),
          AList.delete k es))"

definition demo_dashmap :: "(nat \<times> ('k \<times> 'v) list, 'k, 'v) dashmap_ops" where
  "demo_dashmap =
     \<lparr>dm_with_capacity = (\<lambda>n. (n, [])),
      dm_len = (\<lambda>m. length (AList.clearjunk (snd m))),
      dm_capacity = (\<lambda>m. fst m + length (AList.clearjunk (snd m))),
      dm_insert = demo_insert,
      dm_get = (\<lambda>k m. map_of (snd m) k),
      dm_remove = demo_remove,
      dm_entries = (\<lambda>m. AList.clearjunk (snd m)),
      dm_write_ref = (\<lambda>k v m. (fst m, map (\<lambda>(j, w). (j, if j = k then v else w)) (AList.clearjunk (snd m))))\<rparr>"

definition demo_map :: "nat \<times> ('k \<times> 'v) list \<Rightarrow> 'k \<rightharpoonup> 'v" where
  "demo_map m = map_of (snd m)"

lemma map_of_overwrite:
  "map_of (map (\<lambda>(j, w). (j, if j = k then v else w)) es) =
     (if k \<in> dom (map_of es) then (map_of es)(k \<mapsto> v) else map_of es)"
  by (induction es) (auto simp: fun_eq_iff)

lemma keys_overwrite: "map fst (map (\<lambda>(j, w). (j, if j = k then v else w)) es) = map fst es"
  by (induction es) auto

lemma clearjunk_length: "length (AList.clearjunk es) = card (dom (map_of es))"
  by (metis (no_types, lifting) distinct_card distinct_clearjunk dom_clearjunk dom_map_of_conv_image_fst
      length_map list.set_map)

lemma demo_dashmap_laws: "dashmap_laws demo_dashmap demo_map"
  unfolding dashmap_laws_def demo_dashmap_def demo_map_def dashmap_ops.simps
  by (intro conjI allI impI)
    (simp_all add: clearjunk_length finite_dom_map_of demo_insert_def demo_remove_def Let_def
      map_of_clearjunk update_conv' delete_conv' map_of_overwrite distinct_clearjunk)

section \<open>Paths, headers, addresses and payloads\<close>

definition demo_push :: "string \<Rightarrow> string \<Rightarrow> string + string" where
  "demo_push root s =
     (if starts_with ''/'' s \<or> ''..'' \<in> set (split_on CHR ''/'' s) then Inl ''unexpected component''
      else if root = ''/'' then Inr (root @ s) else Inr (root @ ''/'' @ s))"

definition demo_normalize :: "string \<Rightarrow> string" where
  "demo_normalize p =
     ''/'' @ join_with ''/'' (filter (\<lambda>c. c \<noteq> [] \<and> c \<noteq> ''.'') (split_on CHR ''/'' p))"

text \<open>A path, its parents (without trailing separators) and last the empty path.\<close>

definition demo_ancestors :: "string \<Rightarrow> string list" where
  "demo_ancestors p = (if p = [] then [[]] else p # rev (filter (\<lambda>q. last q \<noteq> CHR ''/'') (parents_of p)) @ [[]])"

definition demo_header_ok :: "string \<Rightarrow> bool" where
  "demo_header_ok = list_all (\<lambda>c. (32 \<le> byte c \<and> byte c \<noteq> 127) \<or> byte c = 9)"

definition demo_to_str :: "string \<Rightarrow> string option" where
  "demo_to_str s = (if list_all visible s then Some s else None)"

definition demo_uri :: "uri_parts \<Rightarrow> string option" where
  "demo_uri u =
     (case (uri_scheme u, uri_authority u, uri_path_and_query u) of
        (Some sch, Some a, Some p) \<Rightarrow> Some (sch @ ''://'' @ a @ p)
      | _ \<Rightarrow> None)"

definition demo_env ::
  "(int \<times> bool list, demo_node, nat \<times> (string \<times> nat \<times> (i8 \<times> bytes) list) list,
    nat \<times> (i8 \<times> bytes) list, string, string) env" where
  "demo_env =
     \<lparr>sqlx_exec = demo_exec, node_api = demo_node_api,
      slot_ops = demo_dashmap, part_ops = demo_dashmap,
      path_push_checked = demo_push, path_normalize = demo_normalize, path_ancestors = demo_ancestors,
      guess_mime = (\<lambda>_. ''text/plain''), octet_stream = ''application/octet-stream'',
      header_value_ok = demo_header_ok, header_to_str = demo_to_str,
      http_date = dec_of_int, path_and_query_from_str = Some, uri_from_parts = demo_uri,
      uri_default = ''/'', rfc6890_contains = starts_with ''10.'', net_contains = starts_with,
      xml_read_delete =
        (\<lambda>b. if b = [] then None
             else Some \<lparr>payload_object = map (\<lambda>k. \<lparr>object_key = k\<rparr>) (split_on CHR '','' b)\<rparr>),
      xml_write_result =
        (\<lambda>root r. Some (root @ '':'' @ join_with '','' (map object_key (response_deleted r)) @ '';''
                        @ join_with '','' (map object_key (response_error r))))\<rparr>"

definition demo_config :: "string run_config" where
  "demo_config =
     \<lparr>bind_address = ''::'', port = 3000, database_path = ''metadata.db'',
      rpc_address = ''http://localhost:5001/api/v0'', rpc_creds = None,
      gateway = \<lparr>uri_scheme = Some ''https'', uri_authority = Some ''dweb.link'', uri_path_and_query = None\<rparr>,
      mode = Auto, folder_prefix = ''buckets'',
      experimental = \<lparr>trim_empty_folders = Some True, auto_mime = Some True, private_cidrs = []\<rparr>,
      ip_extraction = ConnectInfo, auth = None, concurrent_multipart_upload = 2,
      sqlite = \<lparr>auto_vacuum = Some ''incremental'', journal_mode = Some ''wal'', synchronous = Some ''normal''\<rparr>\<rparr>"

definition demo_empty_node :: "demo_node" where
  "demo_empty_node = \<lparr>dn_pins = [], dn_blocks = [], dn_mfs = [], dn_faults = []\<rparr>"

definition demo_state ::
  "(int \<times> bool list, demo_node, nat \<times> (string \<times> nat \<times> (i8 \<times> bytes) list) list) app_state" where
  "demo_state =
     \<lparr>app_db = \<lparr>db_pool = (0, []), db_rows = []\<rparr>, app_node = demo_empty_node, app_slots = (2, []),
      app_tasks = []\<rparr>"

lemma demo_env_simps [simp]:
  "sqlx_exec demo_env = demo_exec" "node_api demo_env = demo_node_api"
  "slot_ops demo_env = demo_dashmap" "part_ops demo_env = demo_dashmap"
  "path_push_checked demo_env = demo_push" "path_normalize demo_env = demo_normalize"
  "path_ancestors demo_env = demo_ancestors" "header_value_ok demo_env = demo_header_ok"
  "header_to_str demo_env = demo_to_str"
  by (simp_all add: demo_env_def)

text \<open>The same with a database that answers every statement.\<close>

definition steady_env ::
  "(int \<times> bool list, demo_node, nat \<times> (string \<times> nat \<times> (i8 \<times> bytes) list) list,
    nat \<times> (i8 \<times> bytes) list, string, string) env" where
  "steady_env = demo_env\<lparr>sqlx_exec := (\<lambda>(now, fs). (Inr now, (now + 1, fs)))\<rparr>"

lemma steady_env_simps [simp]:
  "node_api steady_env = demo_node_api" "slot_ops steady_env = demo_dashmap"
  by (simp_all add: steady_env_def)

lemma steady_reliable: "reliable (sqlx_exec steady_env)"
  by (simp add: reliable_def steady_env_def)

lemma demo_map_laws: "map_laws demo_env demo_map demo_map"
  by (simp add: map_laws_def demo_dashmap_laws)

section \<open>Signatures\<close>

definition ascii_hex :: "bytes \<Rightarrow> string" where
  "ascii_hex b = concat (map (\<lambda>c. [hex_digit (byte c div 16), hex_digit (byte c mod 16)]) b)"

definition demo_pairs :: "string \<Rightarrow> (string \<times> string) list option" where
  "demo_pairs url =
     (case dropWhile (\<lambda>c. c \<noteq> CHR ''?'') url of
        [] \<Rightarrow> Some []
      | _ # q \<Rightarrow>
          Some (map (\<lambda>kv. (takeWhile (\<lambda>c. c \<noteq> CHR ''='') kv, drop 1 (dropWhile (\<lambda>c. c \<noteq> CHR ''='') kv)))
            (split_on CHR ''&'' q)))"

definition demo_sig :: sig_env where
  "demo_sig =
     \<lparr>hmac_sha256 = (\<lambda>k d. take 4 (rev d) @ take 4 (rev k)), sha256 = (\<lambda>d. take 8 (rev d)),
      hex_encode = ascii_hex,
      percent_encode = (\<lambda>s P. concat (map (\<lambda>c. if P c \<or> 128 \<le> byte c then CHR ''%'' # ascii_hex [c] else [c]) s)),
      non_alphanumeric = (\<lambda>c. \<not> (byte c \<in> {48 .. 57} \<or> byte c \<in> {65 .. 90} \<or> byte c \<in> {97 .. 122})),
      url_query_pairs = demo_pairs, sig_to_str = demo_to_str\<rparr>"

lemma demo_hex_laws: "hex_laws demo_sig"
proof -
  have digit: "hex_digit d \<in> set ''0123456789abcdef''" if "d < 16" for d
  proof -
    have "list_all (\<lambda>d. hex_digit d \<in> set ''0123456789abcdef'') [0 ..< 16]" by code_simp
    with that show ?thesis by (simp only: list_all_iff set_upt atLeastLessThan_iff) simp
  qed
  have "byte c div 16 < 16" for c by (simp add: byte_def less_mult_imp_div_less)
  then have "\<forall>c \<in> set (ascii_hex b). c \<in> set ''0123456789abcdef''" for b
    using digit by (induction b) (simp_all add: ascii_hex_def)
  then show ?thesis by (simp add: hex_laws_def demo_sig_def)
qed

lemma demo_percent_laws: "percent_laws demo_sig"
proof -
  have "concat (map (\<lambda>c. if P c \<or> 128 \<le> byte c then CHR ''%'' # ascii_hex [c] else [c]) s) = s"
    if "\<forall>c \<in> set s. \<not> P c \<and> byte c < 128" for s :: string and P
    using that by (induction s) auto
  then show ?thesis by (simp add: percent_laws_def demo_sig_def)
qed

lemma demo_to_str_laws: "to_str_laws demo_sig"
  by (simp add: to_str_laws_def demo_sig_def demo_to_str_def)

text \<open>A request signed in the query: whatever else is in it, the demonstration functions give it the same
  signature, since the hash keeps the end of the canonical request.\<close>

definition demo_auth :: auth_config where
  "demo_auth = \<lparr>access_key = ''KEY'', secret_key = ''SECRET''\<rparr>"

definition presigned_sig :: string where
  "presigned_sig = ''6432303554455243''"

definition presigned_auth :: authentication_request where
  "presigned_auth =
     \<lparr>ar_credential = ''KEY'', ar_date = ''20250101'', ar_signature = presigned_sig, ar_region = ''ipfs'',
      ar_service = ''s3'',
      ar_string_to_sign = lines [''AWS4-HMAC-SHA256'', ''20250101T000000Z'', ''20250101/ipfs/s3/aws4_request'',
        ''44414f4c5941502d'']\<rparr>"

lemma demo_hash:
  "hex_encode demo_sig (sha256 demo_sig (canonical_request m u q h l ''UNSIGNED-PAYLOAD'')) = ''44414f4c5941502d''"
proof -
  have "take 8 (rev (canonical_request m u q h l ''UNSIGNED-PAYLOAD'')) = ''DAOLYAP-''"
    by (simp add: canonical_request_def lines_def)
  moreover have "ascii_hex ''DAOLYAP-'' = ''44414f4c5941502d''" by code_simp
  ultimately show ?thesis by (simp only: demo_sig_def sig_env.select_convs)
qed

lemma presigned_query:
  assumes "demo_pairs (''http://example.com'' @ req_uri r) = Some qs"
    and "map (query_map qs) [''x-amz-credential'', ''x-amz-signature'', ''x-amz-date''] =
      [Some ''KEY/20250101/ipfs/s3/aws4_request'', Some presigned_sig, Some ''20250101T000000Z'']"
  shows "from_query_params demo_sig r = Some presigned_auth"
proof -
  have pairs: "url_query_pairs demo_sig (''http://example.com'' @ req_uri r) = Some qs"
    using assms(1) by (simp only: demo_sig_def sig_env.select_convs)
  have keys: "query_map qs ''x-amz-credential'' = Some ''KEY/20250101/ipfs/s3/aws4_request''"
    "query_map qs ''x-amz-signature'' = Some presigned_sig" "query_map qs ''x-amz-date'' = Some ''20250101T000000Z''"
    using assms(2) by (simp_all only: list.map list.inject)
  have parts: "split_on CHR ''/'' ''KEY/20250101/ipfs/s3/aws4_request'' = [''KEY'', ''20250101'', ''ipfs'', ''s3'', ''aws4_request'']"
    by code_simp
  have five: "(length [a, b, d, e, f] < 5) = False" for a b d e f :: string by simp
  have scope: "''20250101'' @ ''/'' @ ''ipfs'' @ ''/'' @ ''s3'' @ ''/aws4_request'' = ''20250101/ipfs/s3/aws4_request''" by simp
  show ?thesis
    by (simp only: from_query_params_def pairs option.case Let_def keys parts five if_False list.case
        string_to_sign_def demo_hash scope presigned_auth_def)
qed

lemma presigned_valid: "is_valid demo_sig presigned_auth demo_auth"
  by code_simp

lemma presigned_extract:
  assumes "req_headers r ''authorization'' = None"
    and "demo_pairs (''http://example.com'' @ req_uri r) = Some qs"
    and "map (query_map qs) [''x-amz-credential'', ''x-amz-signature'', ''x-amz-date''] =
      [Some ''KEY/20250101/ipfs/s3/aws4_request'', Some presigned_sig, Some ''20250101T000000Z'']"
  shows "extract_signature demo_sig r = Some presigned_auth"
  using presigned_query [OF assms(2,3)] assms(1)
  by (simp add: extract_signature_def from_authorization_header_def header_text_def)

definition demo_chunks :: "(string \<times> bytes) list" where
  "demo_chunks = [(replicate 64 CHR ''a'', ''hello ''), (replicate 64 CHR ''b'', ''world'')]"

lemma demo_chunks_ok: "\<forall>(sig, data) \<in> set demo_chunks. length sig = 64 \<and> data \<noteq> [] \<and> length data \<le> isize_max"
  by (simp add: demo_chunks_def isize_max_def)

section \<open>HTTP\<close>

definition demo_match :: "string list \<Rightarrow> string \<Rightarrow> (string \<times> string list) option" where
  "demo_match patterns p =
     (if p = ''/healthz'' then Some (''/healthz'', [])
      else
        (case p of
           [] \<Rightarrow> None
         | _ # rest \<Rightarrow>
             (let b = takeWhile (\<lambda>c. c \<noteq> CHR ''/'') rest; t = dropWhile (\<lambda>c. c \<noteq> CHR ''/'') rest
              in if b = [] then None
                 else if t = [] then Some (''/{bucket}'', [b])
                 else if tl t = [] then Some (''/{bucket}/'', [b])
                 else Some (''/{bucket}/{*key}'', [b, tl t]))))"

definition demo_http :: "string http_env" where
  "demo_http =
     \<lparr>hx_match = demo_match,
      hx_method = (\<lambda>ms m. if m \<in> set ms then Some m
                           else if m = ''HEAD'' \<and> ''GET'' \<in> set ms then Some ''GET'' else None),
      hx_decode = Inr,
      hx_bad_path = \<lparr>resp_status = INTERNAL_SERVER_ERROR, resp_headers = [], resp_body = no_body\<rparr>,
      hx_query = (\<lambda>u. case demo_pairs u of Some q \<Rightarrow> Inr q
                      | None \<Rightarrow> Inl \<lparr>resp_status = BAD_REQUEST, resp_headers = [], resp_body = no_body\<rparr>),
      hx_bad_query = \<lparr>resp_status = BAD_REQUEST, resp_headers = [], resp_body = no_body\<rparr>,
      hx_content_type = (\<lambda>r. Inr (req_headers r ''content-type'')),
      hx_client_ip = (\<lambda>_ _. Inr ''10.0.0.1''),
      hx_body_limit = 2097152,
      hx_too_large = \<lparr>resp_status = BAD_REQUEST, resp_headers = [], resp_body = no_body\<rparr>,
      hx_bad_body = \<lparr>resp_status = BAD_REQUEST, resp_headers = [], resp_body = no_body\<rparr>,
      hx_not_found = (\<lambda>_. \<lparr>resp_status = NOT_FOUND, resp_headers = [], resp_body = no_body\<rparr>),
      hx_method_not_allowed = \<lparr>resp_status = METHOD_NOT_ALLOWED, resp_headers = [], resp_body = no_body\<rparr>,
      hx_preflight = (\<lambda>_ r. if req_method r = ''OPTIONS'' then Some default_response else None),
      hx_cors = (\<lambda>c _ x. x\<lparr>resp_headers := resp_headers x @ [(''access-control-allow-origin'', ''*'')]\<rparr>),
      hx_outer = (\<lambda>_ x. x), hx_json = hc_status, hx_show_time = dec_of_int\<rparr>"

lemma healthz_plain: "CHR ''/'' \<notin> set ''healthz''"
  by simp

lemma split_at_slash:
  assumes "CHR ''/'' \<notin> set b"
  shows "takeWhile (\<lambda>c. c \<noteq> CHR ''/'') (b @ CHR ''/'' # k) = b"
    and "dropWhile (\<lambda>c. c \<noteq> CHR ''/'') (b @ CHR ''/'' # k) = CHR ''/'' # k"
    and "takeWhile (\<lambda>c. c \<noteq> CHR ''/'') b = b" and "dropWhile (\<lambda>c. c \<noteq> CHR ''/'') b = []"
proof -
  have "c \<noteq> CHR ''/''" if "c \<in> set b" for c using that assms by metis
  then show "takeWhile (\<lambda>c. c \<noteq> CHR ''/'') (b @ CHR ''/'' # k) = b"
    "dropWhile (\<lambda>c. c \<noteq> CHR ''/'') (b @ CHR ''/'' # k) = CHR ''/'' # k"
    "takeWhile (\<lambda>c. c \<noteq> CHR ''/'') b = b" "dropWhile (\<lambda>c. c \<noteq> CHR ''/'') b = []"
    by (simp_all add: takeWhile_append2 dropWhile_append2 takeWhile_eq_all_conv dropWhile_eq_Nil_conv)
qed

lemma demo_match_other:
  assumes "b \<noteq> []" and "CHR ''/'' \<notin> set b"
  shows "b \<noteq> ''healthz'' \<Longrightarrow> demo_match ps (CHR ''/'' # b) = Some (''/{bucket}'', [b])"
    and "demo_match ps (CHR ''/'' # b @ [CHR ''/'']) = Some (''/{bucket}/'', [b])"
    and "k \<noteq> [] \<Longrightarrow> demo_match ps (CHR ''/'' # b @ CHR ''/'' # k) = Some (''/{bucket}/{*key}'', [b, k])"
proof -
  have other: "b @ CHR ''/'' # k \<noteq> ''healthz''" for k
    using healthz_plain by (metis in_set_conv_decomp)
  show "b \<noteq> ''healthz'' \<Longrightarrow> demo_match ps (CHR ''/'' # b) = Some (''/{bucket}'', [b])"
    using assms(1) by (simp add: demo_match_def Let_def split_at_slash [OF assms(2)])
  show "demo_match ps (CHR ''/'' # b @ [CHR ''/'']) = Some (''/{bucket}/'', [b])"
    using assms(1) other [of "[]"] by (simp add: demo_match_def Let_def split_at_slash [OF assms(2)])
  show "demo_match ps (CHR ''/'' # b @ CHR ''/'' # k) = Some (''/{bucket}/{*key}'', [b, k])" if "k \<noteq> []"
    using assms(1) that other [of k] by (simp add: demo_match_def Let_def split_at_slash [OF assms(2)])
qed

lemma demo_match_laws: "match_laws demo_http"
proof -
  have "hx_match demo_http = demo_match" by (simp add: demo_http_def)
  moreover have "demo_match ps ''/healthz'' = Some (''/healthz'', [])" for ps by (simp add: demo_match_def)
  ultimately show ?thesis
    unfolding match_laws_def append_Cons append_Nil
    by (intro conjI allI impI; simp only:) (rule demo_match_other; assumption)+
qed

lemma demo_method_laws: "method_laws demo_http"
  by (simp add: method_laws_def demo_http_def)

end
