(* ===== verification/StoreProps.thy ===== *)
theory StoreProps imports Instances begin

text \<open>
  The properties of the two stores of the server: the metadata table of
  \<^verbatim>\<open>src/src/database.rs\<close> and the bounded map of \<^verbatim>\<open>src/src/limited_slots.rs\<close>.
  They rest on the facts of the interpretations \<open>sql\<close> and \<open>limited\<close>.
\<close>

section \<open>The metadata table\<close>

text \<open>After \<open>store_object_metadata\<close> succeeded, \<open>get_object_metadata\<close> finds exactly what was
  stored, with the statement's time stamp, and every other object is found as before.\<close>

theorem metadata_store_lookup:
  assumes "store_object_metadata exec b k c sz ct db = (Inr (), db1)"
    and "get_object_metadata exec b' k' db1 = (Inr found, db2)"
  shows "\<exists>now. fst (exec (db_pool db)) = Inr now \<and>
    found = (if (b', k') = (b, k)
             then Some \<lparr>md_cid = c, md_size = sz, md_content_type = ct, md_key = k, md_bucket = b,
                        md_updated_at = now\<rparr>
             else sql_select b' k' (db_rows db))"
proof -
  obtain now where "fst (exec (db_pool db)) = Inr now" "db_rows db1 = sql_upsert c b k ct sz now (db_rows db)"
    using store_object_metadata_rows(1) [OF assms(1)] by auto
  moreover have "found = sql_select b' k' (db_rows db1)"
    using get_object_metadata_rows [OF assms(2)] by simp
  ultimately show ?thesis by (auto simp: sql.select_upsert)
qed

theorem metadata_store_lookup_witness:
  "\<exists>now. fst (demo_exec (7, [])) = Inr now \<and>
     Some \<lparr>md_cid = ''Qm1'', md_size = 3, md_content_type = ''t'', md_key = ''k'', md_bucket = ''b'',
           md_updated_at = 7\<rparr>
     = (if (''b'', ''k'') = (''b'', ''k'')
        then Some \<lparr>md_cid = ''Qm1'', md_size = 3, md_content_type = ''t'', md_key = ''k'', md_bucket = ''b'',
                   md_updated_at = now\<rparr>
        else sql_select ''b'' ''k'' [])"
proof -
  let ?db = "\<lparr>db_pool = (7 :: int, [] :: bool list), db_rows = []\<rparr>"
  let ?db1 = "snd (store_object_metadata demo_exec ''b'' ''k'' ''Qm1'' 3 ''t'' ?db)"
  have "store_object_metadata demo_exec ''b'' ''k'' ''Qm1'' 3 ''t'' ?db = (Inr (), ?db1)"
    by (simp add: store_object_metadata_def run_statement_def)
  moreover have "get_object_metadata demo_exec ''b'' ''k'' ?db1 =
      (Inr (Some \<lparr>md_cid = ''Qm1'', md_size = 3, md_content_type = ''t'', md_key = ''k'', md_bucket = ''b'',
           md_updated_at = 7\<rparr>), snd (get_object_metadata demo_exec ''b'' ''k'' ?db1))"
    by (simp add: get_object_metadata_def store_object_metadata_def run_statement_def sql_defs row_id_def
        metadata_of_row_def)
  ultimately have "\<exists>now. fst (demo_exec (db_pool ?db)) = Inr now \<and>
     Some \<lparr>md_cid = ''Qm1'', md_size = 3, md_content_type = ''t'', md_key = ''k'', md_bucket = ''b'',
           md_updated_at = 7\<rparr>
     = (if (''b'', ''k'') = (''b'', ''k'')
        then Some \<lparr>md_cid = ''Qm1'', md_size = 3, md_content_type = ''t'', md_key = ''k'', md_bucket = ''b'',
                   md_updated_at = now\<rparr>
        else sql_select ''b'' ''k'' (db_rows ?db))"
    by (rule metadata_store_lookup)
  then show ?thesis by (simp only: database.select_convs)
qed

text \<open>The directory that \<open>find_shallowest_removable_directory\<close> returns is a non-empty ancestor of
  the path under which the bucket has no object, nor under the ancestors below it; and it is the
  shallowest: the next ancestor, when there is one, has a key that its \<open>LIKE\<close> pattern matches.\<close>

theorem shallowest_directory_safe:
  assumes "find_shallowest_removable_directory exec ancestors b path db = (Inr (Some d), db')"
  shows "\<exists>below above. filter (\<lambda>a. a \<noteq> []) (ancestors path) = below @ d # above \<and>
    (\<forall>a \<in> set (d # below). \<forall>r \<in> set (db_rows db).
       row_bucket r = b \<longrightarrow> \<not> starts_with (a @ ''/'') (row_object_key r)) \<and>
    (above \<noteq> [] \<longrightarrow> (\<exists>r \<in> set (db_rows db).
       row_bucket r = b \<and> sql_like (hd above @ ''/%'') (row_object_key r)))"
proof -
  let ?as = "filter (\<lambda>a. a \<noteq> []) (ancestors path)"
  let ?empty = "\<lambda>a. sql_count_like b (a @ ''/%'') (db_rows db) = 0"
  have "Some d = (if takeWhile ?empty ?as = [] then None else Some (last (takeWhile ?empty ?as)))"
    using shallowest_loop_result [of exec b ?as None db "Some d" db'] assms
    by (simp add: find_shallowest_removable_directory_def Let_def)
  then have tw: "takeWhile ?empty ?as \<noteq> []" "d = last (takeWhile ?empty ?as)"
    by (auto split: if_splits)
  define below where "below = butlast (takeWhile ?empty ?as)"
  have front: "takeWhile ?empty ?as = below @ [d]"
    using tw by (simp add: below_def)
  have "?as = takeWhile ?empty ?as @ dropWhile ?empty ?as" by (simp only: takeWhile_dropWhile_id)
  then have "?as = below @ d # dropWhile ?empty ?as" by (simp only: front append_assoc append_Cons append_Nil)
  moreover have "\<forall>r \<in> set (db_rows db). row_bucket r = b \<longrightarrow> \<not> starts_with (a @ ''/'') (row_object_key r)"
    if "a \<in> set (d # below)" for a
  proof -
    have "a \<in> set (takeWhile ?empty ?as)" using that by (simp add: front)
    then have "?empty a" by (rule conjunct2 [OF set_takeWhileD])
    then show ?thesis using sql_count_like_zero by blast
  qed
  moreover have "\<exists>r \<in> set (db_rows db). row_bucket r = b \<and> sql_like (hd (dropWhile ?empty ?as) @ ''/%'') (row_object_key r)"
    if "dropWhile ?empty ?as \<noteq> []"
  proof -
    have "\<not> ?empty (hd (dropWhile ?empty ?as))" using that by (rule hd_dropWhile)
    then show ?thesis by (auto simp: sql_count_like_def filter_empty_conv)
  qed
  ultimately show ?thesis by blast
qed

definition one_row :: "string \<Rightarrow> string \<Rightarrow> row" where
  "one_row c k = \<lparr>row_cid = c, row_bucket = ''b'', row_object_key = k, row_content_type = ''t'', row_size = 1,
     row_created_at = 0, row_updated_at = 0\<rparr>"

theorem shallowest_directory_safe_witness:
  "\<exists>below above. filter (\<lambda>a. a \<noteq> []) (demo_ancestors ''a/b/c'') = below @ ''a/b'' # above \<and>
    (\<forall>a \<in> set (''a/b'' # below). \<forall>r \<in> set [one_row ''Qm1'' ''a/x''].
       row_bucket r = ''b'' \<longrightarrow> \<not> starts_with (a @ ''/'') (row_object_key r)) \<and>
    (above \<noteq> [] \<longrightarrow> (\<exists>r \<in> set [one_row ''Qm1'' ''a/x''].
       row_bucket r = ''b'' \<and> sql_like (hd above @ ''/%'') (row_object_key r)))"
proof -
  let ?db = "\<lparr>db_pool = (0, []), db_rows = [one_row ''Qm1'' ''a/x'']\<rparr>"
  have "fst (find_shallowest_removable_directory demo_exec demo_ancestors ''b'' ''a/b/c'' ?db) = Inr (Some ''a/b'')"
    by code_simp
  then have "find_shallowest_removable_directory demo_exec demo_ancestors ''b'' ''a/b/c'' ?db =
      (Inr (Some ''a/b''), snd (find_shallowest_removable_directory demo_exec demo_ancestors ''b'' ''a/b/c'' ?db))"
    by (metis prod.collapse)
  from shallowest_directory_safe [OF this] show ?thesis by simp
qed

text \<open>The search is not exact the other way. A wildcard in a directory's name counts as one in the
  \<open>LIKE\<close> pattern, and letters match in either case, so a removable directory is kept because of an
  unrelated key.\<close>

theorem wildcard_keeps_directory:
  "fst (find_shallowest_removable_directory demo_exec demo_ancestors ''b'' ''a_b/c''
     \<lparr>db_pool = (0, []), db_rows = [one_row ''Qm1'' ''aXb/d'']\<rparr>) = Inr (Some ''a_b/c'') \<and>
   fst (find_shallowest_removable_directory demo_exec demo_ancestors ''b'' ''dir/c''
     \<lparr>db_pool = (0, []), db_rows = [one_row ''Qm1'' ''DIR/d'']\<rparr>) = Inr (Some ''dir/c'') \<and>
   \<not> starts_with ''a_b/'' ''aXb/d'' \<and> \<not> starts_with ''dir/'' ''DIR/d''"
  by (intro conjI) code_simp+

section \<open>The limited map\<close>

text \<open>C19: An insert is admitted exactly when the map has fewer entries than its capacity, and a refused one
  leaves the very same map. What was admitted is kept through any operations on other keys, is what removing it
  returns, and is gone after that.\<close>

theorem slots_keep_entries:
  assumes "dashmap_laws D \<alpha>" and "slot_insert D k v m = (r, m1)"
    and "k \<notin> op_key ` set ops" and "slot_remove D k (slot_run D m1 ops) = (taken, m2)"
  shows "if card (dom (\<alpha> m)) < dm_capacity D m
    then r = Inr (\<alpha> m k) \<and> (\<forall>j. j \<noteq> k \<longrightarrow> slot_get D j m1 = slot_get D j m) \<and>
      slot_get D k (slot_run D m1 ops) = Some v \<and> taken = Some (k, v) \<and> slot_get D k m2 = None
    else r = Inl WouldIncrease \<and> m1 = m"
proof (cases "has_room D m")
  case True
  have ins: "r = Inr (\<alpha> m k)" "\<alpha> m1 = (\<alpha> m)(k \<mapsto> v)"
    using limited.ins_room [OF assms(1) True, of k v] assms(2) by simp_all
  have kept: "\<alpha> (slot_run D m1 ops) k = Some v"
    using slot_run_other [OF assms(1,3), of m1] ins(2) by simp
  have "taken = Some (k, v)" "\<alpha> m2 k = None"
    using limited.rem_content [OF assms(1), of k "slot_run D m1 ops"] assms(4) kept by simp_all
  with True ins kept show ?thesis
    by (simp add: has_room_def dashmap_lawsD(4) [OF assms(1)] limited.get_content [OF assms(1)])
next
  case False
  with limited.ins_full [OF False, of k v] assms(2) show ?thesis
    by (simp add: has_room_def dashmap_lawsD(4) [OF assms(1)])
qed

theorem slots_keep_entries_witness:
  "fst (slot_remove demo_dashmap ''u'' (slot_run demo_dashmap
      (snd (slot_insert demo_dashmap ''u'' (1 :: nat) (with_capacity demo_dashmap 1)))
      [Insert ''v'' 2, Remove ''v''])) = Some (''u'', 1)"
proof -
  have "''u'' \<notin> op_key ` set [Insert ''v'' (2 :: nat), Remove ''v'']" by simp
  moreover have "card (dom (demo_map (with_capacity demo_dashmap 1 :: nat \<times> (string \<times> nat) list))) <
      dm_capacity demo_dashmap (with_capacity demo_dashmap 1 :: nat \<times> (string \<times> nat) list)"
    by (simp add: with_capacity_def demo_dashmap_def demo_map_def)
  ultimately show ?thesis
    using slots_keep_entries [OF demo_dashmap_laws prod.collapse [symmetric] _ prod.collapse [symmetric],
        of "''u''" "[Insert ''v'' (2 :: nat), Remove ''v'']" "with_capacity demo_dashmap 1" "1 :: nat"] by simp
qed

end
