(* ===== verification/PutProps.thy ===== *)
theory PutProps imports Instances begin

text \<open>
  What \<open>PutObject\<close> and \<open>UploadPart\<close> (\<^verbatim>\<open>src/src/s3/put_object.rs\<close>) promise, and
  what \<open>GetObject\<close> and \<open>HeadObject\<close> show of a stored object.
\<close>

text \<open>Values of visible ASCII are valid header values, and so are the dates, as the
  \<^verbatim>\<open>http\<close> and \<^verbatim>\<open>chrono\<close> crates document.\<close>

definition header_laws :: "('p, 'i, 'm, 'n, 'net, 'ip) env \<Rightarrow> bool" where
  "header_laws E \<longleftrightarrow>
     (\<forall>v. list_all visible v \<longrightarrow> header_value_ok E v) \<and> (\<forall>t. header_value_ok E (http_date E t))"

lemma constant_headers_visible:
  "list_all visible cache_forever" "list_all visible ''i''" "list_all visible ''noindex, nofollow''"
  unfolding cache_forever_def by code_simp+

lemma dec_of_nat_visible: "list_all visible (dec_of_nat n)"
proof (induction n rule: dec_of_nat.induct)
  case (1 n)
  have "visible (hex_digit d)" if "d < 10" for d
    using that by (simp add: visible_def byte_hex_digit)
  with 1 show ?case by (cases "n < 10") (simp_all add: dec_of_nat.simps [of n])
qed

section \<open>Storing\<close>

lemma put_object_stored:
  assumes "put_object E cfg (b, k) ct None data s = (Inr r, s')"
  obtains path added now where
    "normalized_path E (folder_prefix cfg) b k = Inr path"
    "add_content (node_api E) path data (app_node s) = (Inr added, app_node s')"
    "rows_of s' = sql_upsert (ar_hash added) b k (content_type_of E cfg ct k) (usize_as_i64 (length data)) now
       (rows_of s)"
    "app_slots s' = app_slots s"
    "app_tasks s' = app_tasks s @ [UnpinOld (sql_select b k (rows_of s)) added]"
    "build (header_value_ok E) OK (put_headers (ar_hash added)) no_body = Inr r"
proof -
  have "store_object E cfg b k ct data s = (Inr r, s')" using assms by (simp add: put_object_def)
  then show thesis
  proof (cases rule: store_object_cases)
    case (stored path added now)
    have "build (header_value_ok E) OK (put_headers (ar_hash added)) no_body = Inr r"
      using stored(6) by (auto split: sum.splits)
    with stored(1-5) show thesis by (rule that)
  qed simp_all
qed

lemma build_Inr:
  assumes "build ok st hs body = Inr r"
  shows "r = \<lparr>resp_status = st, resp_headers = hs, resp_body = body\<rparr>"
    and "(n, v) \<in> set hs \<Longrightarrow> ok v"
  using assms by (auto simp: build_def list_all_iff split: if_splits)

text \<open>C6: A \<open>PUT\<close> that answers with a response has stored the object: the table maps the key to the
  content identifier the node returned, with the body's length and the content type, and no other key
  changes; the identifier is pinned and linked at the object's path; the \<open>ETag\<close> and the IPFS headers name
  it; and one task is queued to unpin the previous content.\<close>

theorem put_object_effect:
  assumes "pin_laws (node_api E) pins" and "mfs_laws (node_api E) mfs"
    and "put_object E cfg (b, k) ct None data s = (Inr r, s')"
  shows "\<exists>path added now.
    normalized_path E (folder_prefix cfg) b k = Inr path \<and>
    (\<forall>b' k'. sql_select b' k' (rows_of s') =
       (if (b', k') = (b, k)
        then Some \<lparr>md_cid = ar_hash added, md_size = usize_as_i64 (length data),
                   md_content_type = content_type_of E cfg ct k, md_key = k, md_bucket = b, md_updated_at = now\<rparr>
        else sql_select b' k' (rows_of s))) \<and>
    ar_hash added \<in> pins (app_node s') \<and> mfs (app_node s') path = Some (MfsFile (ar_hash added)) \<and>
    r = \<lparr>resp_status = OK, resp_headers = put_headers (ar_hash added), resp_body = no_body\<rparr> \<and>
    app_tasks s' = app_tasks s @ [UnpinOld (sql_select b k (rows_of s)) added] \<and> app_slots s' = app_slots s"
proof -
  obtain path added now where put:
    "normalized_path E (folder_prefix cfg) b k = Inr path"
    "add_content (node_api E) path data (app_node s) = (Inr added, app_node s')"
    "rows_of s' = sql_upsert (ar_hash added) b k (content_type_of E cfg ct k) (usize_as_i64 (length data)) now
       (rows_of s)"
    "app_slots s' = app_slots s"
    "app_tasks s' = app_tasks s @ [UnpinOld (sql_select b k (rows_of s)) added]"
    "build (header_value_ok E) OK (put_headers (ar_hash added)) no_body = Inr r"
    by (rule put_object_stored [OF assms(3)])
  have "ar_hash added \<in> pins (app_node s')"
    using node.add_pins [OF assms(1), of path data "app_node s" added] put(2) by simp
  moreover have "mfs (app_node s') path = Some (MfsFile (ar_hash added))"
    using tree.add_links [OF assms(2), of path data "app_node s" added] put(2) by simp
  ultimately show ?thesis
    using put(1,4,5) build_Inr(1) [OF put(6)]
    by (intro exI [of _ path] exI [of _ added] exI [of _ now]) (simp only: put(3) sql.select_upsert simp_thms)
qed

text \<open>A run of the reference instance.\<close>

definition after_put where
  "after_put = snd (put_object demo_env demo_config (''b'', ''d/k'') (Some ''t'') None ''hey'' demo_state)"

lemma after_put_ok:
  "put_object demo_env demo_config (''b'', ''d/k'') (Some ''t'') None ''hey'' demo_state =
     (Inr \<lparr>resp_status = OK, resp_headers = put_headers ''Qmhey'', resp_body = no_body\<rparr>, after_put)"
proof -
  have "fst (put_object demo_env demo_config (''b'', ''d/k'') (Some ''t'') None ''hey'' demo_state) =
      Inr \<lparr>resp_status = OK, resp_headers = put_headers ''Qmhey'', resp_body = no_body\<rparr>"
    by code_simp
  then show ?thesis unfolding after_put_def by (metis prod.collapse)
qed

theorem put_object_effect_witness:
  "\<exists>path (added :: add_response).
    normalized_path demo_env (folder_prefix demo_config) ''b'' ''d/k'' = Inr path \<and>
    ar_hash added \<in> demo_pins (app_node after_put) \<and>
    demo_mfs (app_node after_put) path = Some (MfsFile (ar_hash added)) \<and>
    app_slots after_put = app_slots demo_state"
  using put_object_effect [where E = demo_env, unfolded demo_env_simps, OF demo_pin_laws demo_mfs_laws after_put_ok]
  by (elim exE conjE) (intro exI conjI; assumption)

text \<open>C26: A \<open>PUT\<close> answers 400 exactly when the lookup of the old object succeeds and the key makes no
  valid path; the only other error status is 500. A \<open>PUT\<close> that ends with an error status has changed neither
  the table nor the slots and queued nothing, and a 400 has not reached the node. What a 500 may leave behind is
  unreferenced content on the node.\<close>

theorem put_object_error:
  assumes "put_object E cfg (b, k) ct None data s = (h, s')"
  shows "(h = Inl (Status BAD_REQUEST) \<longleftrightarrow>
       is_ok (fst (get_object_metadata (sqlx_exec E) b k (app_db s))) \<and>
       \<not> is_ok (normalized_path E (folder_prefix cfg) b k)) \<and>
    (\<forall>st. h = Inl (Status st) \<longrightarrow>
       st \<in> {BAD_REQUEST, INTERNAL_SERVER_ERROR} \<and>
       rows_of s' = rows_of s \<and> app_slots s' = app_slots s \<and> app_tasks s' = app_tasks s \<and>
       (st = BAD_REQUEST \<longrightarrow> app_node s' = app_node s))"
proof
  have run: "store_object E cfg b k ct data s = (h, s')" using assms by (simp add: put_object_def)
  obtain q s1 where q: "with_db (get_object_metadata (sqlx_exec E) b k) s = (q, s1)" by fastforce
  then have lookup: "is_ok (fst (get_object_metadata (sqlx_exec E) b k (app_db s))) = is_ok q"
    by (auto elim!: with_dbE)
  show "h = Inl (Status BAD_REQUEST) \<longleftrightarrow>
      is_ok (fst (get_object_metadata (sqlx_exec E) b k (app_db s))) \<and>
      \<not> is_ok (normalized_path E (folder_prefix cfg) b k)"
  proof
    assume bad: "h = Inl (Status BAD_REQUEST)"
    then have "is_ok q" using run q by (cases q) (simp_all add: store_object_def)
    moreover have "\<not> is_ok (normalized_path E (folder_prefix cfg) b k)"
      using run bad by (cases rule: store_object_cases) (auto split: sum.splits)
    ultimately show "is_ok (fst (get_object_metadata (sqlx_exec E) b k (app_db s))) \<and>
        \<not> is_ok (normalized_path E (folder_prefix cfg) b k)"
      using lookup by simp
  next
    assume "is_ok (fst (get_object_metadata (sqlx_exec E) b k (app_db s))) \<and>
        \<not> is_ok (normalized_path E (folder_prefix cfg) b k)"
    then obtain old e where "q = Inr old" "normalized_path E (folder_prefix cfg) b k = Inl e"
      using lookup by (cases q; cases "normalized_path E (folder_prefix cfg) b k") simp_all
    with run q show "h = Inl (Status BAD_REQUEST)" by (simp add: store_object_def Let_def)
  qed
  show "\<forall>st. h = Inl (Status st) \<longrightarrow>
       st \<in> {BAD_REQUEST, INTERNAL_SERVER_ERROR} \<and>
       rows_of s' = rows_of s \<and> app_slots s' = app_slots s \<and> app_tasks s' = app_tasks s \<and>
       (st = BAD_REQUEST \<longrightarrow> app_node s' = app_node s)"
    using run by (cases rule: store_object_cases) (auto split: sum.splits)
qed

theorem put_object_error_witness:
  "fst (put_object demo_env demo_config (''b'', ''../k'') None None ''hey'' demo_state) = Inl (Status BAD_REQUEST)"
proof -
  have "is_ok (fst (get_object_metadata (sqlx_exec demo_env) ''b'' ''../k'' (app_db demo_state)))" by code_simp
  moreover have "\<not> is_ok (normalized_path demo_env (folder_prefix demo_config) ''b'' ''../k'')" by code_simp
  ultimately show ?thesis
    using put_object_error [OF prod.collapse [symmetric], of demo_env demo_config "''b''" "''../k''" None "''hey''" demo_state]
    by blast
qed

section \<open>Reading back\<close>

text \<open>C21: What a \<open>PUT\<close> stored, a \<open>GET\<close> that is served by the proxy returns: when the node reports no
  error, the chunks of the body are the bytes that were sent, under the content type and the \<open>ETag\<close> of the
  \<open>PUT\<close>.\<close>

theorem put_then_get:
  assumes "pin_laws (node_api E) pins" and "content_laws (node_api E) pins content" and "header_laws E"
    and "header_value_ok E (content_type_of E cfg ct k)"
    and "put_object E cfg (b, k) ct None data s = (Inr r, s1)"
    and "get_object E cfg (b, k) ip s1 = (Inr r2, s2)"
    and "mode cfg = Proxy \<or> mode cfg = Auto \<and> is_private E cfg ip"
  shows "\<exists>chunks. resp_status r2 = OK \<and> resp_body r2 = Streamed chunks \<and>
    (list_all is_ok chunks \<longrightarrow> concat (map projr chunks) = data) \<and>
    header_get ''content-type'' r2 = Some (content_type_of E cfg ct k) \<and>
    header_get ''etag'' r2 = header_get ''etag'' r"
proof -
  obtain path added now where put:
    "add_content (node_api E) path data (app_node s) = (Inr added, app_node s1)"
    "rows_of s1 = sql_upsert (ar_hash added) b k (content_type_of E cfg ct k) (usize_as_i64 (length data)) now
       (rows_of s)"
    "build (header_value_ok E) OK (put_headers (ar_hash added)) no_body = Inr r"
    by (rule put_object_stored [OF assms(5)])
  let ?md = "\<lparr>md_cid = ar_hash added, md_size = usize_as_i64 (length data),
     md_content_type = content_type_of E cfg ct k, md_key = k, md_bucket = b, md_updated_at = now\<rparr>"
  let ?stream = "get_content (node_api E) (ar_hash added) (app_node s1)"
  have found: "sql_select b k (rows_of s1) = Some ?md"
    by (simp only: put(2) sql.select_upsert simp_thms if_True)
  have "r2 = unwrap_or_default (proxy E ?md s1)"
    using assms(6)
  proof (cases rule: get_object_cases)
    case (found md)
    with assms(7) \<open>sql_select b k (rows_of s1) = Some ?md\<close> show ?thesis by simp
  qed (use found in simp_all)
  moreover have "header_value_ok E v" if "(n, v) \<in> set (put_headers (ar_hash added))" for n v
    by (rule build_Inr(2) [OF put(3) that])
  then have "header_value_ok E (ar_hash added)" "header_value_ok E (etag_value (ar_hash added))"
      "header_value_ok E (ipfs_path_of (ar_hash added))"
    by (auto simp: put_headers_def)
  ultimately have r2: "r2 = \<lparr>resp_status = OK,
      resp_headers = [(''x-ipfs-path'', ipfs_path_of (ar_hash added)), (''x-ipfs-roots'', ar_hash added),
        (''cache-control'', cache_forever), (''last-modified'', http_date E now), (''priority'', ''i''),
        (''x-robots-tag'', ''noindex, nofollow''), (''etag'', etag_value (ar_hash added)),
        (''content-type'', content_type_of E cfg ct k)],
      resp_body = Streamed (map (map_sum ipfs_error_text id) ?stream)\<rparr>"
    using assms(3,4) constant_headers_visible by (simp add: proxy_def build_def header_laws_def Let_def)
  have body: "concat (map projr (map (map_sum ipfs_error_text id) ?stream)) = data"
    if "list_all is_ok (map (map_sum ipfs_error_text id) ?stream)"
  proof -
    have "is_ok (map_sum ipfs_error_text id x) = is_ok x"
        "is_ok x \<Longrightarrow> projr (map_sum ipfs_error_text id x) = projr x" for x :: "ipfs_error + bytes"
      by (cases x; simp)+
    then have ok: "list_all is_ok ?stream"
        and same: "list_all is_ok xs \<Longrightarrow> map projr (map (map_sum ipfs_error_text id) xs) = map projr xs"
      for xs :: "(ipfs_error + bytes) list"
      using that by (simp_all add: list_all_iff)
    have "concat (map projr ?stream) = data"
      by (rule blocks.add_get [OF _ put(1) ok]) (use assms(1,2) in blast)
    then show ?thesis by (simp only: same [OF ok])
  qed
  have "header_get ''etag'' r = Some (etag_value (ar_hash added))"
    using build_Inr(1) [OF put(3)] by (simp add: header_get_def put_headers_def)
  with body show ?thesis
    by (intro exI [of _ "map (map_sum ipfs_error_text id) ?stream"]) (simp add: r2 header_get_def)
qed

lemma demo_header_laws: "header_laws demo_env"
proof -
  have printable: "demo_header_ok v" if "list_all visible v" for v
    using that by (auto simp: demo_header_ok_def visible_def list_all_iff)
  have "list_all visible (dec_of_int t)" for t
    using dec_of_nat_visible by (simp add: dec_of_int_def) (simp add: visible_def byte_def)
  with printable show ?thesis by (simp add: header_laws_def) (simp add: demo_env_def)
qed

theorem put_then_get_witness:
  "\<exists>chunks. concat (map projr chunks) = ''hey'' \<and>
     map_option resp_body (into_response (fst (get_object demo_env demo_config (''b'', ''d/k'') ''10.0.0.9'' after_put)))
       = Some (Streamed chunks)"
proof -
  let ?h = "fst (get_object demo_env demo_config (''b'', ''d/k'') ''10.0.0.9'' after_put)"
  have run: "?h = Inr (projr ?h)" "is_private demo_env demo_config ''10.0.0.9''" "mode demo_config = Auto"
      "resp_body (projr ?h) = Streamed [Inr ''hey'']"
    unfolding after_put_def by code_simp+
  then have get: "get_object demo_env demo_config (''b'', ''d/k'') ''10.0.0.9'' after_put =
      (Inr (projr ?h), snd (get_object demo_env demo_config (''b'', ''d/k'') ''10.0.0.9'' after_put))"
    by (metis prod.collapse)
  have ct: "header_value_ok demo_env (content_type_of demo_env demo_config (Some ''t'') ''d/k'')" by code_simp
  obtain chunks where chunks: "resp_body (projr ?h) = Streamed chunks"
      "list_all is_ok chunks \<longrightarrow> concat (map projr chunks) = ''hey''"
    using put_then_get [where E = demo_env, unfolded demo_env_simps, OF demo_pin_laws demo_content_laws
        demo_header_laws ct [unfolded demo_env_simps] after_put_ok get] run(2,3) by blast
  with run(4) have "concat (map projr chunks) = ''hey''" by auto
  moreover have "map_option resp_body (into_response ?h) = Some (Streamed chunks)"
    by (subst run(1)) (simp add: chunks(1))
  ultimately show ?thesis by blast
qed

text \<open>\<open>HEAD\<close> on a stored object reports its length in decimal (for a body below \<open>2^63\<close> bytes), its
  content type and the \<open>ETag\<close> of the \<open>PUT\<close>, or an internal error when the database fails; never
  that it is missing.\<close>

theorem put_then_head:
  assumes "header_laws E" and "header_value_ok E (content_type_of E cfg ct k)" and "length data \<le> isize_max"
    and "put_object E cfg (b, k) ct None data s = (Inr r, s1)"
    and "head_object_metadata E (b, k) s1 = (r2, s2)"
  shows "resp_status r2 = INTERNAL_SERVER_ERROR \<or>
    resp_status r2 = OK \<and> header_get ''content-length'' r2 = Some (dec_of_nat (length data)) \<and>
    header_get ''content-type'' r2 = Some (content_type_of E cfg ct k) \<and>
    header_get ''etag'' r2 = header_get ''etag'' r"
proof -
  obtain added :: add_response and now where put:
    "rows_of s1 = sql_upsert (ar_hash added) b k (content_type_of E cfg ct k) (usize_as_i64 (length data)) now
       (rows_of s)"
    "build (header_value_ok E) OK (put_headers (ar_hash added)) no_body = Inr r"
    by (rule put_object_stored [OF assms(4)])
  have row: "sql_select b k (rows_of s1) = Some \<lparr>md_cid = ar_hash added, md_size = usize_as_i64 (length data),
      md_content_type = content_type_of E cfg ct k, md_key = k, md_bucket = b, md_updated_at = now\<rparr>"
    by (simp only: put(1) sql.select_upsert simp_thms if_True)
  have "header_value_ok E v" if "(n, v) \<in> set (put_headers (ar_hash added))" for n v
    by (rule build_Inr(2) [OF put(2) that])
  then have ok: "header_value_ok E (ar_hash added)" "header_value_ok E (etag_value (ar_hash added))"
      "header_value_ok E (ipfs_path_of (ar_hash added))"
    by (auto simp: put_headers_def)
  show ?thesis
    using assms(5)
  proof (cases rule: head_object_cases)
    case (found md)
    with assms(1,2) ok row build_Inr(1) [OF put(2)]
    show ?thesis
      using constant_headers_visible dec_of_nat_visible [of "length data"]
      by (simp add: build_def head_headers_def header_laws_def show_usize_as_i64 [OF assms(3)] header_get_def
          put_headers_def)
  qed (use row in simp_all)
qed

theorem put_then_head_witness:
  "resp_status (fst (head_object_metadata demo_env (''b'', ''d/k'') after_put)) = INTERNAL_SERVER_ERROR \<or>
   header_get ''content-length'' (fst (head_object_metadata demo_env (''b'', ''d/k'') after_put)) = Some ''3''"
proof -
  have ct: "header_value_ok demo_env (content_type_of demo_env demo_config (Some ''t'') ''d/k'')" by code_simp
  have len: "length ''hey'' \<le> isize_max" by (simp add: isize_max_def)
  have "dec_of_nat (length ''hey'') = ''3''" by code_simp
  then show ?thesis
    using put_then_head [OF demo_header_laws ct len after_put_ok prod.collapse [symmetric]] by metis
qed

section \<open>Parts\<close>

text \<open>C37: The query of an \<open>UploadPart\<close> is recognised exactly for part numbers up to 127. With a larger
  number, of which S3 allows 10,000, the request is taken for a plain \<open>PUT\<close>: the part is stored as the
  whole object, and the upload does not receive it.\<close>

theorem large_part_number_replaces_object:
  "upload_part_from_query [(''partNumber'', dec_of_nat n), (''uploadId'', u)] =
     (if n \<le> 127 then Some \<lparr>part_number = of_nat n, upload_id = u\<rparr> else None) \<and>
   (127 < n \<longrightarrow>
     put_object E cfg (b, k) ct (upload_part_from_query [(''partNumber'', dec_of_nat n), (''uploadId'', u)]) data s
       = put_object E cfg (b, k) ct None data s)"
  by (simp add: upload_part_from_query_def i8_from_dec)

theorem large_part_number_replaces_object_witness:
  "upload_part_from_query [(''partNumber'', dec_of_nat 128), (''uploadId'', ''u'')] = None \<and>
   put_object demo_env demo_config (''b'', ''k'') None
     (upload_part_from_query [(''partNumber'', dec_of_nat 128), (''uploadId'', ''u'')]) ''part'' demo_state
   = put_object demo_env demo_config (''b'', ''k'') None None ''part'' demo_state"
  using large_part_number_replaces_object [of 128 "''u''" demo_env demo_config "''b''" "''k''" None "''part''" demo_state]
  by simp

end
