(* ===== verification/UploadProps.thy ===== *)
theory UploadProps imports Instances begin

text \<open>
  The multipart protocol of \<^verbatim>\<open>src/src/s3/post_object.rs\<close>,
  \<^verbatim>\<open>src/src/s3/put_object.rs\<close> and \<^verbatim>\<open>src/src/s3/delete_object.rs\<close>: create,
  upload parts, complete or abort.
\<close>

abbreviation complete_params :: "string \<Rightarrow> post_object_params" where
  "complete_params u \<equiv> \<lparr>uploads_param = None, upload_id_param = Some u\<rparr>"

abbreviation create_params :: "post_object_params" where
  "create_params \<equiv> \<lparr>uploads_param = Some [], upload_id_param = None\<rparr>"

lemma app_state_eqI:
  fixes s s' :: "('p, 'i, 'm) app_state"
  assumes "app_db s = app_db s'" "app_node s = app_node s'" "app_tasks s = app_tasks s'" "app_slots s = app_slots s'"
  shows "s = s'"
  using assms by (cases s; cases s') simp

lemma slot_removed:
  assumes "map_laws E \<alpha> \<beta>" and "slot_remove (slot_ops E) u m = (q, m')"
  shows "\<alpha> m' = (\<alpha> m)(u := None)" and "q = map_option (Pair u) (\<alpha> m u)"
  using assms limited.rem_content [where D = "slot_ops E" and \<alpha> = \<alpha> and k = u and m = m]
  by (simp_all add: map_laws_def)

section \<open>The whole protocol\<close>

text \<open>C8: Creating an upload, sending parts in any order and any number of times, and completing it
  does to the database, the node and the task list exactly what one \<open>PUT\<close> does whose body is, for each part
  number, the bytes sent last, in the order of the numbers (signed, as \<open>i8\<close>); it succeeds exactly when that
  \<open>PUT\<close> does; and the upload's slot is free again.\<close>

theorem multipart_is_put:
  assumes "map_laws E \<alpha> \<beta>" and "has_room (slot_ops E) (app_slots s)" and "header_value_ok E ''text/xml''"
    and "multipart_upload E cfg bk create_params u s = (h1, s1)"
    and "multipart_upload E cfg bk (complete_params u) f (upload_all E cfg bk u parts s1) = (h3, s3)"
  shows "sent_status h1 = Some OK \<and>
    (\<exists>m h. put_object E cfg bk None None (intended_object parts) (s\<lparr>app_slots := m\<rparr>) = (h, s3) \<and>
       \<alpha> m = (\<alpha> (app_slots s))(u := None) \<and>
       (case h of Inl e \<Rightarrow> h3 = Inl e | Inr _ \<Rightarrow> sent_status h3 = Some OK))"
proof -
  obtain m1 p where create: "create_upload E bk u s =
       (Inr \<lparr>resp_status = OK, resp_headers = [(''content-type'', ''text/xml'')],
             resp_body = Full (initiate_body (fst bk) (snd bk) u)\<rparr>, s\<lparr>app_slots := m1\<rparr>)"
      and m1: "\<alpha> m1 = (\<alpha> (app_slots s))(u \<mapsto> p)" and p: "\<beta> p = Map.empty"
    by (rule create_upload_ok [OF assms(1-3)])
  have s1: "s1 = s\<lparr>app_slots := m1\<rparr>" and h1: "sent_status h1 = Some OK"
    using assms(4) create by (auto simp: multipart_upload_def)
  let ?s2 = "upload_all E cfg bk u parts s1"
  have "\<alpha> (app_slots s1) u = Some p" by (simp add: s1 m1)
  from upload_all_content [OF assms(1) this, of cfg bk parts] obtain p' where
      slots: "\<alpha> (app_slots ?s2) = (\<alpha> (app_slots s1))(u \<mapsto> p')" and p': "\<beta> p' = map_of (rev parts)"
    by (auto simp: p)
  obtain q m where rm: "slot_remove (slot_ops E) u (app_slots ?s2) = (q, m)" by fastforce
  have m: "\<alpha> m = (\<alpha> (app_slots s))(u := None)"
    unfolding slot_removed(1) [OF assms(1) rm] slots by (simp add: s1 m1)
  have "?s2\<lparr>app_slots := m\<rparr> = s\<lparr>app_slots := m\<rparr>"
    using upload_all_frame [of E cfg bk u parts s1] by (intro app_state_eqI) (simp_all add: s1)
  moreover have "complete_upload E cfg bk u ?s2 = (h3, s3)"
    using assms(5) by (simp add: multipart_upload_def)
  moreover have "\<alpha> (app_slots ?s2) u = Some p'" by (simp add: slots)
  note complete_upload_assembles [OF assms(1) this p', of cfg bk, unfolded rm snd_conv]
  moreover obtain h s4 where "store_object E cfg (fst bk) (snd bk) None (intended_object parts) (s\<lparr>app_slots := m\<rparr>) = (h, s4)"
    by fastforce
  ultimately have "put_object E cfg bk None None (intended_object parts) (s\<lparr>app_slots := m\<rparr>) = (h, s3)"
      "case h of Inl e \<Rightarrow> h3 = Inl e | Inr _ \<Rightarrow> sent_status h3 = Some OK"
    by (auto simp: put_object_def split: sum.splits)
  with h1 m show ?thesis by blast
qed

theorem multipart_is_put_witness:
  "\<exists>m h s3. put_object demo_env demo_config (''b'', ''k'') None None
       (intended_object [(2, ''world''), (1, ''helo ''), (1, ''hello '')]) (demo_state\<lparr>app_slots := m\<rparr>) = (h, s3) \<and>
     intended_object [(2, ''world''), (1, ''helo ''), (1, ''hello '')] = ''hello world''"
proof -
  have "has_room demo_dashmap (app_slots demo_state)"
    by (simp add: has_room_def demo_dashmap_def demo_state_def)
  moreover have "demo_header_ok ''text/xml''" by code_simp
  moreover have "intended_object [(2, ''world''), (1, ''helo ''), (1, ''hello '')] = ''hello world''" by code_simp
  ultimately show ?thesis
    using multipart_is_put [where E = demo_env and s = demo_state, unfolded demo_env_simps,
        OF demo_map_laws _ _ prod.collapse [symmetric] prod.collapse [symmetric],
        of demo_config "(''b'', ''k'')" "''u''" "[(2, ''world''), (1, ''helo ''), (1, ''hello '')]" "[]"]
    by blast
qed

section \<open>Admission\<close>

text \<open>\<open>CreateMultipartUpload\<close> is admitted exactly when the slot map has room, and then adds an upload
  without parts under the new id; without room the answer is 503 and nothing changes.\<close>

theorem create_upload_admission:
  assumes "map_laws E \<alpha> \<beta>" and "header_value_ok E ''text/xml''"
    and "multipart_upload E cfg bk create_params u s = (h, s')"
  shows "if has_room (slot_ops E) (app_slots s)
    then sent_status h = Some OK \<and>
      (\<exists>m p. s' = s\<lparr>app_slots := m\<rparr> \<and> \<alpha> m = (\<alpha> (app_slots s))(u \<mapsto> p) \<and> \<beta> p = Map.empty)
    else h = Inl (Status SERVICE_UNAVAILABLE) \<and> s' = s"
proof (cases "has_room (slot_ops E) (app_slots s)")
  case True
  obtain m p where "create_upload E bk u s =
       (Inr \<lparr>resp_status = OK, resp_headers = [(''content-type'', ''text/xml'')],
             resp_body = Full (initiate_body (fst bk) (snd bk) u)\<rparr>, s\<lparr>app_slots := m\<rparr>)"
      and m: "\<alpha> m = (\<alpha> (app_slots s))(u \<mapsto> p)" "\<beta> p = Map.empty"
    by (rule create_upload_ok [OF assms(1) True assms(2)])
  with assms(3) have "s' = s\<lparr>app_slots := m\<rparr>" "sent_status h = Some OK"
    by (auto simp: multipart_upload_def)
  with True m show ?thesis by auto
next
  case False
  then have "slot_insert (slot_ops E) u (new_parts E) (app_slots s) = (Inl WouldIncrease, app_slots s)"
    by (rule limited.ins_full)
  then have "with_slots (slot_insert (slot_ops E) u (new_parts E)) s = (Inl WouldIncrease, s)"
    by (simp add: with_slots_def)
  with assms(3) False show ?thesis by (auto simp: multipart_upload_def create_upload_def)
qed

theorem create_upload_admission_witness:
  "fst (multipart_upload demo_env demo_config (''b'', ''k'') create_params ''w''
      (demo_state\<lparr>app_slots := (0, [(''u'', (0, [])), (''v'', (0, []))])\<rparr>)) = Inl (Status SERVICE_UNAVAILABLE)"
proof -
  let ?s = "demo_state\<lparr>app_slots := (0, [(''u'', (0, [])), (''v'', (0, []))])\<rparr>"
  have "\<not> has_room demo_dashmap (app_slots ?s)" by (simp add: has_room_def demo_dashmap_def)
  moreover have "demo_header_ok ''text/xml''" by code_simp
  ultimately show ?thesis
    using create_upload_admission [where E = demo_env and s = ?s, unfolded demo_env_simps,
        OF demo_map_laws _ prod.collapse [symmetric], of demo_config "(''b'', ''k'')" "''w''"]
    by (simp only: if_False)
qed

section \<open>The end of an upload\<close>

lemma unknown_upload:
  assumes "map_laws E \<alpha> \<beta>" and "\<alpha> (app_slots s) u = None"
  shows "put_object E cfg bk ct (Some \<lparr>part_number = n, upload_id = u\<rparr>) data s = (Inl (Status BAD_REQUEST), s)"
    and "fst (multipart_upload E cfg bk (complete_params u) f s) = Inl (Status BAD_REQUEST)"
proof -
  have slot: "dashmap_laws (slot_ops E) \<alpha>" using assms(1) by (simp add: map_laws_def)
  show "put_object E cfg bk ct (Some \<lparr>part_number = n, upload_id = u\<rparr>) data s = (Inl (Status BAD_REQUEST), s)"
    using limited.get_content [OF slot, of u "app_slots s"] assms(2) by (simp add: put_object_def upload_part_def)
  obtain q m where rm: "slot_remove (slot_ops E) u (app_slots s) = (q, m)" by fastforce
  have "q = None" using slot_removed(2) [OF assms(1) rm] assms(2) by simp
  with rm show "fst (multipart_upload E cfg bk (complete_params u) f s) = Inl (Status BAD_REQUEST)"
    by (simp add: multipart_upload_def complete_upload_def with_slots_def)
qed

text \<open>Aborting always answers 204, frees the upload's slot, and touches neither the other uploads, the
  database nor the node; after it, a part or a completion for that id is refused with 400.\<close>

theorem abort_frees_slot:
  assumes "map_laws E \<alpha> \<beta>" and "delete_object E cfg bk (Some u) s = (h, s')"
  shows "sent_status h = Some NO_CONTENT \<and> \<alpha> (app_slots s') = (\<alpha> (app_slots s))(u := None) \<and>
    app_db s' = app_db s \<and> app_node s' = app_node s \<and> app_tasks s' = app_tasks s \<and>
    put_object E cfg bk ct (Some \<lparr>part_number = n, upload_id = u\<rparr>) data s' = (Inl (Status BAD_REQUEST), s') \<and>
    fst (multipart_upload E cfg bk (complete_params u) f s') = Inl (Status BAD_REQUEST)"
proof -
  obtain q m where rm: "slot_remove (slot_ops E) u (app_slots s) = (q, m)" by fastforce
  have "h = Inr \<lparr>resp_status = NO_CONTENT, resp_headers = [], resp_body = no_body\<rparr>" "s' = s\<lparr>app_slots := m\<rparr>"
    using assms(2) rm by (simp_all add: delete_object_def abort_upload_def with_slots_def)
  moreover have "\<alpha> m = (\<alpha> (app_slots s))(u := None)" by (rule slot_removed(1) [OF assms(1) rm])
  moreover have "\<alpha> (app_slots s') u = None" using calculation by simp
  note unknown_upload [OF assms(1) this]
  ultimately show ?thesis by simp
qed

theorem abort_frees_slot_witness:
  "fst (multipart_upload demo_env demo_config (''b'', ''k'') (complete_params ''u'') []
     (snd (delete_object demo_env demo_config (''b'', ''k'') (Some ''u'')
        (demo_state\<lparr>app_slots := (1, [(''u'', (0, []))])\<rparr>)))) = Inl (Status BAD_REQUEST)"
  using abort_frees_slot [where E = demo_env, unfolded demo_env_simps, OF demo_map_laws prod.collapse [symmetric]]
  by blast

text \<open>C29: \<open>CompleteMultipartUpload\<close> takes the upload out of its slot before it stores the object. When
  storing fails, the parts are gone: the answer is the error, the table is as before, and completing again is
  refused with 400.\<close>

theorem failed_completion_loses_upload:
  assumes "map_laws E \<alpha> \<beta>" and "\<alpha> (app_slots s) u = Some p"
    and "multipart_upload E cfg bk (complete_params u) f s = (Inl (Status st), s')"
  shows "rows_of s' = rows_of s \<and> \<alpha> (app_slots s') = (\<alpha> (app_slots s))(u := None) \<and>
    fst (multipart_upload E cfg bk (complete_params u) f s') = Inl (Status BAD_REQUEST)"
proof -
  obtain q m where rm: "slot_remove (slot_ops E) u (app_slots s) = (q, m)" by fastforce
  have q: "q = Some (u, p)" using slot_removed(2) [OF assms(1) rm] assms(2) by simp
  obtain w s2 where w: "put_object E cfg bk None None (assemble_parts E p) (s\<lparr>app_slots := m\<rparr>) = (w, s2)" by fastforce
  have "w = Inl (Status st)" "s' = s2"
    using assms(3) rm q w
    by (auto simp: multipart_upload_def complete_upload_def with_slots_def Let_def split: sum.splits)
  with w have run: "store_object E cfg (fst bk) (snd bk) None (assemble_parts E p) (s\<lparr>app_slots := m\<rparr>) =
      (Inl (Status st), s')"
    by (simp add: put_object_def)
  then have same: "rows_of s' = rows_of s" "app_slots s' = m"
    by (cases rule: store_object_cases; simp split: sum.splits)+
  moreover have "\<alpha> m = (\<alpha> (app_slots s))(u := None)" by (rule slot_removed(1) [OF assms(1) rm])
  ultimately show ?thesis
    using unknown_upload(2) [OF assms(1), of s' u] by simp
qed

theorem failed_completion_loses_upload_witness:
  "fst (multipart_upload demo_env demo_config (''b'', ''k'') (complete_params ''u'') []
     (snd (multipart_upload demo_env demo_config (''b'', ''k'') (complete_params ''u'') []
        (demo_state\<lparr>app_slots := (1, [(''u'', (0, [(1, ''part'')]))]), app_node := demo_empty_node\<lparr>dn_faults := [True]\<rparr>\<rparr>))))
   = Inl (Status BAD_REQUEST)"
proof -
  let ?s = "demo_state\<lparr>app_slots := (1, [(''u'', (0, [(1, ''part'')]))]), app_node := demo_empty_node\<lparr>dn_faults := [True]\<rparr>\<rparr>"
  let ?run = "multipart_upload demo_env demo_config (''b'', ''k'') (complete_params ''u'') [] ?s"
  have "fst ?run = Inl (Status INTERNAL_SERVER_ERROR)" by code_simp
  then have run: "?run = (Inl (Status INTERNAL_SERVER_ERROR), snd ?run)" by (metis prod.collapse)
  have "demo_map (app_slots ?s) ''u'' = Some (0, [(1, ''part'')])" by (simp add: demo_map_def)
  from failed_completion_loses_upload [where E = demo_env, unfolded demo_env_simps, OF demo_map_laws this run]
  show ?thesis by blast
qed

end
