(* ===== verification/DeleteProps.thy ===== *)
theory DeleteProps imports Instances begin

text \<open>
  What \<open>DeleteObject\<close>, \<open>DeleteObjects\<close> and the background task that trims empty
  directories (\<^verbatim>\<open>src/src/s3/delete_object.rs\<close>, \<^verbatim>\<open>src/src/s3/post_bucket.rs\<close>)
  promise, and where they do not.
\<close>

section \<open>One object\<close>

text \<open>C11: A \<open>DELETE\<close> that answers with a response has removed the object and no other from the table,
  has removed its link from the tree, and has unpinned its content exactly when no other object has the same
  content; other pins stay. It answers 204 and queues the trimming task when that is switched on.\<close>

theorem delete_object_effect:
  assumes "pin_laws (node_api E) pins" and "mfs_laws (node_api E) mfs" and "primary_key (rows_of s)"
    and "delete_object E cfg (b, k) None s = (Inr r, s')"
  shows "\<exists>md path. sql_select b k (rows_of s) = Some md \<and> normalized_path E (folder_prefix cfg) b k = Inr path \<and>
    (\<forall>b' k'. sql_select b' k' (rows_of s') = (if (b', k') = (b, k) then None else sql_select b' k' (rows_of s))) \<and>
    mfs (app_node s') path = None \<and>
    pins (app_node s') = (if md_cid md \<in> referenced_cids (rows_of s') then pins (app_node s)
                          else pins (app_node s) - {md_cid md}) \<and>
    resp_status r \<in> {NO_CONTENT, OK} \<and> app_slots s' = app_slots s \<and>
    app_tasks s' = app_tasks s @ (if flag (trim_empty_folders (experimental cfg)) then [TrimEmpty md] else [])"
proof -
  have "remove_object E cfg b k s = (Inr r, s')" using assms(4) by (simp add: delete_object_def)
  then show ?thesis
  proof (cases rule: remove_object_cases)
    case (removed md path s3 w s4)
    have mfs3: "mfs (app_node s3) path = None" and pins3: "pins (app_node s3) = pins (app_node s)"
      using tree.drop_link_ok [OF assms(2), of path "app_node s"] node.drop_link_keeps [OF assms(1), of path "app_node s"]
        removed(3) by (simp_all add: at_or_below_def)
    have ok: "w = Inr ()" and s': "s' = (if flag (trim_empty_folders (experimental cfg)) then spawn (TrimEmpty md) s4 else s4)"
      and r: "r = unwrap_or_default (build (header_value_ok E) NO_CONTENT (delete_headers (md_cid md)) no_body)"
      using removed(8) by (cases w; simp)+
    have rows: "rows_of s' = sql_delete b k (rows_of s)" and rest: "app_slots s' = app_slots s"
        "app_tasks s' = app_tasks s @ (if flag (trim_empty_folders (experimental cfg)) then [TrimEmpty md] else [])"
      using s' removed(4-6) unpin_if_orphan_rows [OF removed(7)] unpin_if_orphan_frame [OF removed(7)] by simp_all
    have pk: "primary_key (rows_of s3)" using assms(3) removed(4) by (simp add: primary_key_delete)
    have node': "mfs (app_node s4) path = None \<and> pins (app_node s4) =
        (if md_cid md \<in> referenced_cids (rows_of s3) then pins (app_node s3) else pins (app_node s3) - {md_cid md})"
      using orphan_unpinned [OF assms(1,2) pk removed(7) [unfolded ok]] mfs3 by simp
    have "resp_status r \<in> {NO_CONTENT, OK}" unfolding r by (rule unwrap_build_status)
    with removed(1,2,4) rows rest node' pins3 s' show ?thesis
      by (intro exI [of _ md] exI [of _ path]) (simp add: sql.select_delete)
  qed simp_all
qed

text \<open>Two objects with the same content, as two \<open>PUT\<close>s leave them.\<close>

definition shared_state where
  "shared_state =
     snd (put_object demo_env demo_config (''b'', ''d/two'') (Some ''t'') None ''hey''
       (snd (put_object demo_env demo_config (''b'', ''d/one'') (Some ''t'') None ''hey'' demo_state)))"

theorem delete_object_effect_witness:
  "demo_pins (app_node (snd (delete_object demo_env demo_config (''b'', ''d/one'') None shared_state)))
     = demo_pins (app_node shared_state) \<and>
   sql_select ''b'' ''d/one''
     (rows_of (snd (delete_object demo_env demo_config (''b'', ''d/one'') None shared_state))) = None"
proof -
  let ?run = "delete_object demo_env demo_config (''b'', ''d/one'') None shared_state"
  have ok: "is_ok (fst ?run)" unfolding shared_state_def by code_simp
  have ids: "map row_id (rows_of shared_state) = [(''b'', ''d/one''), (''b'', ''d/two'')]"
    unfolding shared_state_def by code_simp
  have pk: "primary_key (rows_of shared_state)" by (simp add: primary_key_def ids)
  have cids: "map row_cid (rows_of (snd ?run)) = [''Qmhey'']" unfolding shared_state_def by code_simp
  have old: "map_option md_cid (sql_select ''b'' ''d/one'' (rows_of shared_state)) = Some ''Qmhey''"
    unfolding shared_state_def by code_simp
  have run: "?run = (Inr (projr (fst ?run)), snd ?run)" using ok by (metis prod.collapse sum.collapse(2))
  obtain md where "sql_select ''b'' ''d/one'' (rows_of shared_state) = Some md"
      "demo_pins (app_node (snd ?run)) = (if md_cid md \<in> referenced_cids (rows_of (snd ?run))
         then demo_pins (app_node shared_state) else demo_pins (app_node shared_state) - {md_cid md})"
      "sql_select ''b'' ''d/one'' (rows_of (snd ?run)) = None"
    using delete_object_effect [where E = demo_env, unfolded demo_env_simps, OF demo_pin_laws demo_mfs_laws pk run]
    by auto
  with old cids show ?thesis by (simp add: referenced_cids_def)
qed

text \<open>Deleting an object that is not in the table answers 404, or 500 when the database fails, and
  changes nothing: not the table, the tree, the pins, the slots nor the tasks.\<close>

theorem delete_missing:
  assumes "sql_select b k (rows_of s) = None" and "delete_object E cfg (b, k) None s = (h, s')"
  shows "(h = Inl (Status NOT_FOUND) \<or> h = Inl (Status INTERNAL_SERVER_ERROR)) \<and>
    (is_ok (fst (get_object_metadata (sqlx_exec E) b k (app_db s))) \<longrightarrow> h = Inl (Status NOT_FOUND)) \<and>
    same_data s s'"
proof -
  have run: "remove_object E cfg b k s = (h, s')" using assms(2) by (simp add: delete_object_def)
  have "h = Inl (Status NOT_FOUND)" if "is_ok (fst (get_object_metadata (sqlx_exec E) b k (app_db s)))"
  proof -
    obtain q s1 where q: "with_db (get_object_metadata (sqlx_exec E) b k) s = (q, s1)" by fastforce
    then have "is_ok q" using that by (auto elim!: with_dbE)
    moreover have "q = Inr m \<Longrightarrow> m = None" for m
      using lookup_cases(2) [OF q] assms(1) by simp
    ultimately have "q = Inr None" by (cases q) auto
    with run q show ?thesis by (simp add: remove_object_def)
  qed
  with run assms(1) show ?thesis
    by (cases rule: remove_object_cases) (auto simp: same_data_def)
qed

theorem delete_missing_witness:
  "fst (delete_object demo_env demo_config (''b'', ''nope'') None demo_state) = Inl (Status NOT_FOUND)"
proof -
  have "sql_select ''b'' ''nope'' (rows_of demo_state) = None" by code_simp
  moreover have "is_ok (fst (get_object_metadata (sqlx_exec demo_env) ''b'' ''nope'' (app_db demo_state)))" by code_simp
  ultimately show ?thesis
    using delete_missing [OF _ prod.collapse [symmetric], of "''b''" "''nope''" demo_state demo_env demo_config] by blast
qed

text \<open>C33: The handler removes the link before it deletes the row. When the row stays behind (the database
  failed in between), the node has nothing at the path any more, so every later \<open>DELETE\<close> of the object is
  answered with 500, and the object stays in the table.\<close>

theorem interrupted_delete_is_stuck:
  assumes "mfs_laws (node_api E) mfs" and "sql_select b k (rows_of s) = Some md"
    and "normalized_path E (folder_prefix cfg) b k = Inr path" and "mfs (app_node s) path = None"
    and "delete_object E cfg (b, k) None s = (h, s')"
  shows "h = Inl (Status INTERNAL_SERVER_ERROR) \<and> rows_of s' = rows_of s \<and> mfs (app_node s') path = None"
proof -
  have stuck: "\<not> is_ok (fst (unlink (node_api E) path (app_node s)))"
    by (rule tree.drop_link_missing [OF assms(1,4)])
  have run: "remove_object E cfg b k s = (h, s')" using assms(5) by (simp add: delete_object_def)
  then show ?thesis
  proof (cases rule: remove_object_cases)
    case (unlink_failed md' path' e)
    with assms(3,4) tree.drop_link_nothing [OF assms(1), of "app_node s" path path'] show ?thesis by simp
  next
    case (delete_failed md' path')
    with stuck assms(3) show ?thesis by simp
  next
    case (removed md' path' s3 w s4)
    with stuck assms(3) show ?thesis by simp
  qed (use assms in simp_all)
qed

text \<open>How it comes about: the second statement of the first \<open>DELETE\<close> fails.\<close>

definition stuck_state where
  "stuck_state =
     (let s = snd (put_object demo_env demo_config (''b'', ''d/k'') (Some ''t'') None ''hey'' demo_state)
      in snd (delete_object demo_env demo_config (''b'', ''d/k'') None
               (s\<lparr>app_db := (app_db s)\<lparr>db_pool := (9, [False, True])\<rparr>\<rparr>)))"

theorem interrupted_delete_is_stuck_witness:
  "fst (delete_object demo_env demo_config (''b'', ''d/k'') None stuck_state) = Inl (Status INTERNAL_SERVER_ERROR)"
proof -
  have found: "sql_select ''b'' ''d/k'' (rows_of stuck_state) =
      Some (the (sql_select ''b'' ''d/k'' (rows_of stuck_state)))"
    unfolding stuck_state_def by code_simp
  have path: "normalized_path demo_env (folder_prefix demo_config) ''b'' ''d/k'' = Inr ''/buckets/b/d/k''"
    by code_simp
  have gone: "demo_mfs (app_node stuck_state) ''/buckets/b/d/k'' = None"
    unfolding stuck_state_def by code_simp
  show ?thesis
    using interrupted_delete_is_stuck [where E = demo_env, unfolded demo_env_simps, OF demo_mfs_laws found
        path [unfolded demo_env_simps] gone prod.collapse [symmetric]] by blast
qed

section \<open>Many objects\<close>

lemma delete_object_rows:
  assumes "delete_object E cfg (b, k) None s = (r, s')"
  shows "(is_ok r \<longrightarrow> rows_of s' = sql_delete b k (rows_of s)) \<and>
    (rows_of s' = rows_of s \<or> rows_of s' = sql_delete b k (rows_of s))"
proof -
  have "remove_object E cfg b k s = (r, s')" using assms by (simp add: delete_object_def)
  then show ?thesis
  proof (cases rule: remove_object_cases)
    case (removed md path s3 w s4)
    have "rows_of s' = rows_of s4" using removed(8) by (cases w) simp_all
    with removed(4) unpin_if_orphan_rows [OF removed(7)] show ?thesis by simp
  qed simp_all
qed

lemma delete_each_effect:
  "delete_each E cfg b ks s = (ds, es, s') \<Longrightarrow>
     mset ds + mset es = mset ks \<and>
     (\<forall>b' k'. b' \<noteq> b \<or> k' \<notin> set ks \<longrightarrow> sql_select b' k' (rows_of s') = sql_select b' k' (rows_of s)) \<and>
     (\<forall>k'. sql_select b k' (rows_of s) = None \<longrightarrow> sql_select b k' (rows_of s') = None) \<and>
     (\<forall>k' \<in> set ds. sql_select b k' (rows_of s') = None \<and> sql_select b k' (rows_of s) \<noteq> None)"
proof (induction ks arbitrary: s ds es s')
  case (Cons k ks)
  obtain r s1 where r: "delete_object E cfg (b, k) None s = (r, s1)" by fastforce
  obtain ds1 es1 s2 where rest: "delete_each E cfg b ks s1 = (ds1, es1, s2)" by (metis prod_cases3)
  have out: "s' = s2" "(ds, es) = (if is_ok r then (k # ds1, es1) else (ds1, k # es1))"
    using Cons.prems r rest by (auto split: sum.splits)
  have one: "sql_select b' k' (rows_of s1) = sql_select b' k' (rows_of s)" if "(b', k') \<noteq> (b, k)" for b' k'
    using delete_object_rows [OF r] that by (auto simp: sql.select_delete)
  have gone: "sql_select b k (rows_of s1) = None" if "is_ok r \<or> sql_select b k (rows_of s) = None"
  proof -
    have "sql_select b k (sql_delete b k (rows_of s)) = None" by (simp add: sql.select_delete)
    with delete_object_rows [OF r] that show ?thesis by metis
  qed
  have keep: "sql_select b k' (rows_of s1) = None" if "sql_select b k' (rows_of s) = None" for k'
    using one [of b k'] gone that by (cases "k' = k") simp_all
  have there: "sql_select b k (rows_of s) \<noteq> None" if "is_ok r"
  proof -
    have "remove_object E cfg b k s = (r, s1)" using r by (simp add: delete_object_def)
    then show ?thesis using that by (cases rule: remove_object_cases) simp_all
  qed
  note IH = Cons.IH [OF rest]
  have stays: "sql_select b k' (rows_of s2) = None" if "sql_select b k' (rows_of s1) = None" for k'
    using conjunct1 [OF conjunct2 [OF conjunct2 [OF IH]]] that by (elim allE impE)
  show ?case
  proof (intro conjI)
    show "mset ds + mset es = mset (k # ks)" using IH out by (auto split: if_splits)
    show "\<forall>b' k'. b' \<noteq> b \<or> k' \<notin> set (k # ks) \<longrightarrow> sql_select b' k' (rows_of s') = sql_select b' k' (rows_of s)"
    proof (intro allI impI)
      fix b' k' assume other: "b' \<noteq> b \<or> k' \<notin> set (k # ks)"
      then have "sql_select b' k' (rows_of s2) = sql_select b' k' (rows_of s1)" using IH by simp
      also have "\<dots> = sql_select b' k' (rows_of s)" by (rule one) (use other in auto)
      finally show "sql_select b' k' (rows_of s') = sql_select b' k' (rows_of s)" using out(1) by simp
    qed
    show "\<forall>k'. sql_select b k' (rows_of s) = None \<longrightarrow> sql_select b k' (rows_of s') = None"
      using keep stays unfolding out(1) by simp
    have "\<forall>k' \<in> set ds1. sql_select b k' (rows_of s2) = None \<and> sql_select b k' (rows_of s1) \<noteq> None"
      by (rule conjunct2 [OF conjunct2 [OF conjunct2 [OF IH]]])
    then have "\<forall>k' \<in> set ds1. sql_select b k' (rows_of s2) = None \<and> sql_select b k' (rows_of s) \<noteq> None"
      using keep by blast
    moreover have "sql_select b k (rows_of s2) = None" if "is_ok r" by (rule stays, rule gone) (simp add: that)
    ultimately show "\<forall>k' \<in> set ds. sql_select b k' (rows_of s') = None \<and> sql_select b k' (rows_of s) \<noteq> None"
      using out there by (cases "is_ok r") simp_all
  qed
qed simp

text \<open>C27: \<open>DeleteObjects\<close> with a readable payload answers 200 with the \<open>DeleteResult\<close> document of two
  lists, the deleted keys and the keys in error: together they are the keys of the request, each as often as
  the request names it. A key reported as deleted had an object and has none any more, and objects that the
  request does not name are untouched. (The body is empty when the XML writer fails.)\<close>

theorem delete_objects_effect:
  assumes "xml_read_delete E body = Some \<lparr>payload_object = objects\<rparr>" and "header_value_ok E ''application/xml''"
    and "modify_bucket E cfg b (Some x) body s = (h, s')"
  shows "\<exists>ds es. mset ds + mset es = mset (map object_key objects) \<and>
    h = Inr \<lparr>resp_status = OK, resp_headers = [(''content-type'', ''application/xml'')],
             resp_body = Full (case xml_write_result E ''DeleteResult''
                 \<lparr>response_deleted = map (\<lambda>k. \<lparr>object_key = k\<rparr>) ds,
                  response_error = map (\<lambda>k. \<lparr>object_key = k\<rparr>) es\<rparr> of
               None \<Rightarrow> [] | Some doc \<Rightarrow> doc)\<rparr> \<and>
    (\<forall>k \<in> set ds. sql_select b k (rows_of s) \<noteq> None \<and> sql_select b k (rows_of s') = None) \<and>
    (\<forall>b' k'. b' \<noteq> b \<or> k' \<notin> object_key ` set objects \<longrightarrow>
       sql_select b' k' (rows_of s') = sql_select b' k' (rows_of s))"
proof -
  obtain ds es s1 where each: "delete_each E cfg b (map object_key objects) s = (ds, es, s1)" by (metis prod_cases3)
  have "s1 = s'" and "h = Inr (unwrap_or_default (build (header_value_ok E) OK [(''content-type'', ''application/xml'')]
      (Full (case print_delete_result E ds es of None \<Rightarrow> [] | Some x \<Rightarrow> x))))"
    using assms(1,3) each by (auto simp: modify_bucket_def parse_delete_payload_def)
  then have h: "h = Inr \<lparr>resp_status = OK, resp_headers = [(''content-type'', ''application/xml'')],
      resp_body = Full (case print_delete_result E ds es of None \<Rightarrow> [] | Some x \<Rightarrow> x)\<rparr>"
    using assms(2) by (simp add: build_def)
  show ?thesis
    using h each delete_each_effect [OF each] \<open>s1 = s'\<close>
    by (intro exI [of _ ds] exI [of _ es])
      (simp add: print_delete_result_def response_to_string_def response_with_capacity_def)
qed

theorem delete_objects_effect_witness:
  "\<exists>ds es. mset ds + mset es = mset [''d/one'', ''nope''] \<and>
     (\<forall>k \<in> set ds. sql_select ''b'' k (rows_of shared_state) \<noteq> None) \<and>
     sql_select ''b'' ''d/two''
       (rows_of (snd (modify_bucket demo_env demo_config ''b'' (Some []) ''d/one,nope'' shared_state)))
     = sql_select ''b'' ''d/two'' (rows_of shared_state)"
proof -
  let ?objects = "[\<lparr>object_key = ''d/one''\<rparr>, \<lparr>object_key = ''nope''\<rparr>]"
  have payload: "xml_read_delete demo_env ''d/one,nope'' = Some \<lparr>payload_object = ?objects\<rparr>" by code_simp
  have mime: "header_value_ok demo_env ''application/xml''" by code_simp
  have "''d/two'' \<notin> object_key ` set ?objects" by simp
  moreover have "map object_key ?objects = [''d/one'', ''nope'']" by simp
  ultimately show ?thesis
    using delete_objects_effect [OF payload mime prod.collapse [symmetric], of demo_config "''b''" "[]" shared_state]
    by metis
qed

section \<open>Trimming empty directories\<close>

text \<open>C18: The trimming task changes neither table nor pins nor slots, and it spares the link of every object
  in the table, under two conditions. No object has been stored, since, under the deleted key or under the name
  of a directory above it. And the object's key names its place: if its path is at or below the path of the
  deleted key or of a directory \<open>d\<close> above it, then it is in the same bucket and its key is \<open>d\<close> or starts with
  \<open>d/\<close>.\<close>

theorem trim_spares_live_objects:
  assumes "pin_laws (node_api E) pins" and "mfs_laws (node_api E) mfs"
    and live: "r \<in> set (rows_of s)"
      "normalized_path E (folder_prefix cfg) (row_bucket r) (row_object_key r) = Inr q"
    and gone: "\<forall>d \<in> set (path_ancestors E (md_key md)). d \<noteq> [] \<longrightarrow> sql_select (md_bucket md) d (rows_of s) = None"
    and canonical: "\<forall>d \<in> set (path_ancestors E (md_key md)). d \<noteq> [] \<longrightarrow> (\<forall>p.
        normalized_path E (folder_prefix cfg) (md_bucket md) d = Inr p \<and> at_or_below p q \<longrightarrow>
          row_bucket r = md_bucket md \<and> (row_object_key r = d \<or> starts_with (d @ ''/'') (row_object_key r)))"
  shows "mfs (app_node (trim_empty E cfg md s)) q = mfs (app_node s) q \<and>
    rows_of (trim_empty E cfg md s) = rows_of s \<and> pins (app_node (trim_empty E cfg md s)) = pins (app_node s) \<and>
    app_slots (trim_empty E cfg md s) = app_slots s"
proof -
  have slots: "app_slots (trim_empty E cfg md s) = app_slots s"
    using run_background_slots [of E cfg "TrimEmpty md" s] by (simp add: run_background_def)
  show ?thesis
  proof (cases rule: trim_empty_cases [of E cfg md s])
    case nothing
    with slots show ?thesis by (simp add: trim_empty_rows)
  next
    case (unlinked d p)
    have "row_bucket r = md_bucket md \<Longrightarrow> \<not> starts_with (d @ ''/'') (row_object_key r)"
      using sql_count_like_zero [OF unlinked(3) live(1)] .
    moreover have "row_bucket r = md_bucket md \<Longrightarrow> row_object_key r \<noteq> d"
      using gone unlinked(1,2) live(1) by (auto simp: sql_select_def find_None_iff row_id_def)
    ultimately have "\<not> at_or_below p q" using canonical unlinked(1,2,4) by blast
    then have "mfs (app_node (trim_empty E cfg md s)) q = mfs (app_node s) q"
      unfolding unlinked(5) by (rule tree.drop_link_elsewhere [OF assms(2)])
    with slots unlinked(5) node.drop_link_keeps [OF assms(1)] show ?thesis by (simp add: trim_empty_rows)
  qed
qed

definition trim_state where
  "trim_state =
     snd (delete_object demo_env demo_config (''b'', ''a/b/c'') None
       (snd (put_object demo_env demo_config (''b'', ''a/d'') None None ''two''
         (snd (put_object demo_env demo_config (''b'', ''a/b/c'') None None ''one'' demo_state)))))"

definition deleted_md :: "string \<Rightarrow> metadata_response" where
  "deleted_md k = \<lparr>md_cid = ''Qmone'', md_size = 3, md_content_type = ''text/plain'', md_key = k, md_bucket = ''b'',
     md_updated_at = 1\<rparr>"

theorem trim_spares_live_objects_witness:
  "demo_mfs (app_node trim_state) ''/buckets/b/a/b'' = Some MfsDir \<and>
   demo_mfs (app_node (trim_empty demo_env demo_config (deleted_md ''a/b/c'') trim_state)) ''/buckets/b/a/b'' = None \<and>
   demo_mfs (app_node (trim_empty demo_env demo_config (deleted_md ''a/b/c'') trim_state)) ''/buckets/b/a/d''
     = demo_mfs (app_node trim_state) ''/buckets/b/a/d''"
proof -
  let ?r = "hd (rows_of trim_state)"
  have row: "?r \<in> set (rows_of trim_state)" "(row_bucket ?r, row_object_key ?r) = (''b'', ''a/d'')"
    unfolding trim_state_def by code_simp+
  have anc: "path_ancestors demo_env (md_key (deleted_md ''a/b/c'')) = [''a/b/c'', ''a/b'', ''a'', []]"
    unfolding deleted_md_def by code_simp
  have path: "normalized_path demo_env (folder_prefix demo_config) (row_bucket ?r) (row_object_key ?r) =
      Inr ''/buckets/b/a/d''"
    unfolding trim_state_def by code_simp
  have "list_all (\<lambda>d. sql_select ''b'' d (rows_of trim_state) = None) [''a/b/c'', ''a/b'', ''a'', []]"
    unfolding trim_state_def by code_simp
  then have gone: "\<forall>d \<in> set (path_ancestors demo_env (md_key (deleted_md ''a/b/c''))).
      d \<noteq> [] \<longrightarrow> sql_select (md_bucket (deleted_md ''a/b/c'')) d (rows_of trim_state) = None"
    unfolding anc by (simp add: deleted_md_def)
  have "list_all (\<lambda>d. d = [] \<or> (case normalized_path demo_env (folder_prefix demo_config) ''b'' d of
        Inr p \<Rightarrow> \<not> at_or_below p ''/buckets/b/a/d'' \<or> starts_with (d @ ''/'') ''a/d'' | Inl _ \<Rightarrow> True))
      [''a/b/c'', ''a/b'', ''a'', []]"
    by code_simp
  then have canonical: "\<forall>d \<in> set (path_ancestors demo_env (md_key (deleted_md ''a/b/c''))). d \<noteq> [] \<longrightarrow> (\<forall>p.
        normalized_path demo_env (folder_prefix demo_config) (md_bucket (deleted_md ''a/b/c'')) d = Inr p \<and>
          at_or_below p ''/buckets/b/a/d'' \<longrightarrow>
          row_bucket ?r = md_bucket (deleted_md ''a/b/c'') \<and>
          (row_object_key ?r = d \<or> starts_with (d @ ''/'') (row_object_key ?r)))"
    using row(2) unfolding anc list_all_iff by (simp add: deleted_md_def split: sum.splits)
  have "demo_mfs (app_node trim_state) ''/buckets/b/a/b'' = Some MfsDir"
    "demo_mfs (app_node (trim_empty demo_env demo_config (deleted_md ''a/b/c'') trim_state)) ''/buckets/b/a/b'' = None"
    unfolding trim_state_def deleted_md_def by code_simp+
  then show ?thesis
    using trim_spares_live_objects [where E = demo_env and mfs = demo_mfs and pins = demo_pins, OF _ _ row(1) path gone canonical]
      demo_pin_laws demo_mfs_laws by simp
qed

end
