(* ===== verification/ReadProps.thy ===== *)
theory ReadProps imports Instances begin

text \<open>
  What the reading handlers promise (\<^verbatim>\<open>src/src/s3/get_object.rs\<close>,
  \<^verbatim>\<open>src/src/s3/head_object.rs\<close>, \<^verbatim>\<open>src/src/info.rs\<close>), and the
  configuration (\<^verbatim>\<open>src/src/cli.rs\<close>, \<^verbatim>\<open>src/src/main.rs\<close>).
\<close>

section \<open>Objects\<close>

text \<open>C30: \<open>GET\<close> changes no data. An object in the table is answered through the proxy in proxy mode and,
  in auto mode, to a private client; else with a redirect; an object that is not in the table is a 404; the
  only other answer is 500, when the database fails.\<close>

theorem get_object_answers:
  assumes "get_object E cfg (b, k) ip s = (h, s')"
  shows "same_data s s' \<and>
    h \<in> {Inl (Status INTERNAL_SERVER_ERROR),
         (case sql_select b k (rows_of s) of
            None \<Rightarrow> Inl (Status NOT_FOUND)
          | Some md \<Rightarrow>
              Inr (unwrap_or_default
                (if mode cfg = Proxy \<or> mode cfg = Auto \<and> is_private E cfg ip
                 then proxy E md s else redirect E cfg md)))} \<and>
    (is_ok (fst (get_object_metadata (sqlx_exec E) b k (app_db s))) \<longrightarrow>
       h \<noteq> Inl (Status INTERNAL_SERVER_ERROR))"
proof -
  have "h \<noteq> Inl (Status INTERNAL_SERVER_ERROR)"
    if ok: "is_ok (fst (get_object_metadata (sqlx_exec E) b k (app_db s)))"
  proof -
    obtain q s1 where q: "with_db (get_object_metadata (sqlx_exec E) b k) s = (q, s1)" by fastforce
    then have "is_ok q" using ok by (auto elim!: with_dbE)
    then obtain m where "q = Inr m" by (cases q) auto
    with assms q show ?thesis by (auto simp: get_object_def Let_def split: option.splits)
  qed
  with assms show ?thesis by (cases rule: get_object_cases) auto
qed

theorem get_object_answers_witness:
  "fst (get_object demo_env demo_config (''b'', ''nope'') ''8.8.8.8'' demo_state) = Inl (Status NOT_FOUND)"
proof -
  have "sql_select ''b'' ''nope'' (rows_of demo_state) = None" by code_simp
  moreover have "is_ok (fst (get_object_metadata (sqlx_exec demo_env) ''b'' ''nope'' (app_db demo_state)))" by code_simp
  ultimately show ?thesis
    using get_object_answers [where E = demo_env and cfg = demo_config and b = "''b''" and k = "''nope''"
        and ip = "''8.8.8.8''" and s = demo_state, OF prod.collapse [symmetric]]
    by auto
qed

text \<open>A public client in auto mode, or any client in redirect mode, is sent with a 307 to the gateway's
  address of the object's content, with the object's content type and no body.\<close>

theorem public_get_redirects:
  assumes "sql_select b k (rows_of s) = Some md"
    and "mode cfg = Redirect \<or> mode cfg = Auto \<and> \<not> is_private E cfg ip"
    and "uri_from_parts E ((gateway cfg)\<lparr>uri_path_and_query := path_and_query_from_str E (''/ipfs/'' @ md_cid md)\<rparr>)
      = Some location"
    and "\<forall>v \<in> {location, ''/ipfs/'' @ md_cid md, md_cid md, md_content_type md}. header_value_ok E v"
    and "get_object E cfg (b, k) ip s = (Inr r, s')"
  shows "resp_status r = TEMPORARY_REDIRECT \<and> header_get ''location'' r = Some location \<and>
    header_get ''content-type'' r = Some (md_content_type md) \<and> resp_body r = no_body"
  using assms(5)
proof (cases rule: get_object_cases)
  case (found md')
  have "md' = md" using found(1) assms(1) by simp
  moreover have "(mode cfg = Proxy \<or> mode cfg = Auto \<and> is_private E cfg ip) = False" using assms(2) by auto
  ultimately have "r = unwrap_or_default (redirect E cfg md)"
    using found(3) by (simp only: if_False sum.inject)
  moreover have "redirect E cfg md = Inr \<lparr>resp_status = TEMPORARY_REDIRECT,
      resp_headers = [(''location'', location), (''x-ipfs-path'', ''/ipfs/'' @ md_cid md),
        (''x-ipfs-roots'', md_cid md), (''content-type'', md_content_type md)], resp_body = no_body\<rparr>"
    using assms(3,4) by (simp add: redirect_def ipfs_path_of_def Let_def build_def)
  ultimately show ?thesis by (simp add: header_get_def)
qed simp_all

definition read_state where
  "read_state = snd (put_object demo_env demo_config (''b'', ''k'') (Some ''text/plain'') None ''hey'' demo_state)"

theorem public_get_redirects_witness:
  "map_option (header_get ''location'')
     (into_response (fst (get_object demo_env demo_config (''b'', ''k'') ''8.8.8.8'' read_state)))
   = Some (Some ''https://dweb.link/ipfs/Qmhey'')"
proof -
  let ?run = "get_object demo_env demo_config (''b'', ''k'') ''8.8.8.8'' read_state"
  let ?md = "\<lparr>md_cid = ''Qmhey'', md_size = usize_as_i64 3, md_content_type = ''text/plain'', md_key = ''k'',
    md_bucket = ''b'', md_updated_at = 1\<rparr>"
  have "is_ok (fst ?run)" unfolding read_state_def by code_simp
  then have run: "?run = (Inr (projr (fst ?run)), snd ?run)" by (metis prod.collapse sum.collapse(2))
  have found: "sql_select ''b'' ''k'' (rows_of read_state) = Some ?md" unfolding read_state_def by code_simp
  have public: "mode demo_config = Redirect \<or> mode demo_config = Auto \<and> \<not> is_private demo_env demo_config ''8.8.8.8''"
    by code_simp
  have uri: "uri_from_parts demo_env ((gateway demo_config)\<lparr>uri_path_and_query :=
      path_and_query_from_str demo_env (''/ipfs/'' @ md_cid ?md)\<rparr>) = Some ''https://dweb.link/ipfs/Qmhey''"
    by code_simp
  have headers: "\<forall>v \<in> {''https://dweb.link/ipfs/Qmhey'', ''/ipfs/'' @ md_cid ?md, md_cid ?md, md_content_type ?md}.
      header_value_ok demo_env v"
    by code_simp
  from public_get_redirects [OF found public uri headers run]
  have "header_get ''location'' (projr (fst ?run)) = Some ''https://dweb.link/ipfs/Qmhey''" by blast
  then show ?thesis by (subst run) simp
qed

section \<open>Health\<close>

text \<open>The health check answers 200 exactly when both the database and the node answered, else 503; the
  report names what answered and the mode; the data are unchanged.\<close>

theorem health_check_answers:
  assumes "health_check E cfg now s = ((st, report), s')"
  shows "st = (if fst (db_ping (sqlx_exec E) (app_db s)) \<and> is_ok (fst (api_version (node_api E) (app_node s)))
               then OK else SERVICE_UNAVAILABLE) \<and>
    (hc_db_status report \<noteq> None) = fst (db_ping (sqlx_exec E) (app_db s)) \<and>
    hc_rpc_status report = map_option rpc_version_from (result_ok (fst (api_version (node_api E) (app_node s)))) \<and>
    hc_mode report = mode cfg \<and> rows_of s' = rows_of s \<and> app_slots s' = app_slots s"
proof -
  obtain p db1 where p: "db_ping (sqlx_exec E) (app_db s) = (p, db1)" by fastforce
  obtain v i1 where v: "api_version (node_api E) (app_node s) = (v, i1)" by fastforce
  show ?thesis
    using assms health_check_same [OF assms] p v
    by (cases v; cases p) (auto simp: health_check_def with_db_def with_node_def ipfs_ping_def Let_def)
qed

theorem health_check_answers_witness:
  "fst (fst (health_check demo_env demo_config 5 demo_state)) = OK \<and>
   fst (fst (health_check demo_env demo_config 5
     (demo_state\<lparr>app_node := demo_empty_node\<lparr>dn_faults := [True]\<rparr>\<rparr>))) = SERVICE_UNAVAILABLE"
proof -
  let ?down = "demo_state\<lparr>app_node := demo_empty_node\<lparr>dn_faults := [True]\<rparr>\<rparr>"
  have up: "fst (db_ping (sqlx_exec demo_env) (app_db demo_state))"
      "is_ok (fst (api_version (node_api demo_env) (app_node demo_state)))"
    and down: "\<not> is_ok (fst (api_version (node_api demo_env) (app_node ?down)))"
    by code_simp+
  have split: "health_check demo_env demo_config 5 s =
      ((fst (fst (health_check demo_env demo_config 5 s)), snd (fst (health_check demo_env demo_config 5 s))),
       snd (health_check demo_env demo_config 5 s))" for s by simp
  from health_check_answers [OF split, of demo_state] health_check_answers [OF split, of ?down] up down
  show ?thesis by simp
qed

section \<open>Configuration\<close>

text \<open>What \<open>Debug\<close> prints of a configuration does not depend on the RPC password nor on the
  secret key: two configurations that differ in nothing else are printed alike, by \<open>config\<close> as well.\<close>

theorem debug_hides_secrets:
  assumes "same_but_secrets c d"
  shows "debug_run_config show_field c = debug_run_config show_field d \<and>
    main_command show_field r1 r2 (Some (ShowConfig c)) x = main_command show_field r1 r2 (Some (ShowConfig d)) x"
  using same_but_secretsD [OF assms] by (simp add: debug_run_config_def main_command_def)

end
