(* ===== verification/AuthProps.thy ===== *)
theory AuthProps imports Instances begin

text \<open>
  What the authorization layer (\<^verbatim>\<open>src/src/s3/authorization.rs\<close>) promises: requests
  without a valid signature reach no handler, requests signed by the AWS documentation are accepted (under
  the conditions stated), and the decoder of signed chunks returns what the client sent; and where the code
  departs from the documentation.
\<close>

section \<open>The gate\<close>

text \<open>C13: With credentials configured, a request to an S3 route without a valid signature changes nothing:
  unless it is a CORS preflight, the answer is 401, whatever the method, key and body.\<close>

theorem unauthenticated_is_refused:
  assumes "auth cfg = Some c" and "\<not> authenticated S c r"
    and "hx_match X (map fst app_routes) (req_path r) = Some (pattern, raw)"
    and "map_of s3_routes pattern \<noteq> None"
  shows "serve X S E cfg now fresh r s =
    (Some (hx_outer X r (case hx_preflight X s3_cors r of
        Some a \<Rightarrow> a | None \<Rightarrow> hx_cors X s3_cors r unauthorized_response)), s)"
proof -
  obtain methods where "map_of s3_routes pattern = Some methods" using assms(4) by auto
  moreover have "guarded S cfg inner r s = (Some unauthorized_response, s)" for inner
    using assms(1,2) by (simp add: guarded_def authorize_eq)
  ultimately show ?thesis
    using assms(3) by (simp add: serve_def with_cors_def split: option.split)
qed

definition plain_request :: "string \<Rightarrow> string \<Rightarrow> request" where
  "plain_request m p = \<lparr>req_method = m, req_uri = p, req_path = p, req_headers = Map.empty,
     req_body = Plain \<lparr>stream_data = [], stream_fault = False\<rparr>\<rparr>"

theorem unauthenticated_is_refused_witness:
  "snd (serve demo_http demo_sig demo_env (demo_config\<lparr>auth := Some demo_auth\<rparr>) 0 ''u''
     (plain_request ''DELETE'' ''/b/k'') demo_state) = demo_state"
proof -
  let ?r = "plain_request ''DELETE'' ''/b/k''"
  have "demo_pairs (''http://example.com'' @ req_uri ?r) = Some []" unfolding plain_request_def by code_simp
  then have "from_query_params demo_sig ?r = None"
    by (simp add: from_query_params_def demo_sig_def query_map_def)
  moreover have "from_authorization_header demo_sig ?r = None"
    by (simp add: from_authorization_header_def header_text_def plain_request_def)
  ultimately have no: "\<not> authenticated demo_sig demo_auth ?r"
    by (simp add: authenticated_def extract_signature_def)
  have route: "hx_match demo_http (map fst app_routes) (req_path ?r) = Some (''/{bucket}/{*key}'', [''b'', ''k''])"
    by (simp add: demo_http_def plain_request_def demo_match_def)
  have known: "map_of s3_routes ''/{bucket}/{*key}'' \<noteq> None" by (simp add: s3_routes_def)
  have cfg: "auth (demo_config\<lparr>auth := Some demo_auth\<rparr>) = Some demo_auth" by simp
  show ?thesis by (simp only: unauthenticated_is_refused [OF cfg no route known] snd_conv)
qed

section \<open>Signed requests\<close>

lemma prefix_free_sort [simp]: "prefix_free (sort ns) = prefix_free ns"
  by (simp add: prefix_free_def)

lemma aws_canonical_headers_sort [simp]: "aws_canonical_headers S r (sort ns) = aws_canonical_headers S r ns"
  by (simp add: aws_canonical_headers_def sorted_sort_id)

lemma canonical_headers_sorted:
  assumes "names \<noteq> []" and "prefix_free names" and "\<forall>n \<in> set names. to_lower n = n"
  shows "canonicalize_headers S (req_headers r) (sort names) @ [CHR 0x0A] = aws_canonical_headers S r names"
proof -
  have "sort names \<noteq> []" using assms(1) by (metis length_0_conv length_sort)
  from canonical_headers_agree [OF this] show ?thesis using assms(2,3) by simp
qed

lemma canonical_query_plain:
  assumes "url_query_pairs S (''http://example.com/'' @ uri) = Some pairs"
    and "\<forall>kv \<in> set pairs. to_lower (fst kv) \<noteq> ''x-amz-signature''"
    and "prefix_free (map (\<lambda>kv. encode S (fst kv)) pairs)"
  shows "canonicalize_query_string S uri = Some (aws_canonical_query S pairs)"
proof -
  have all: "filter (\<lambda>(k, _). to_lower k \<noteq> ''x-amz-signature'') pairs = pairs"
    using assms(2) by (intro filter_True) auto
  have keys: "map (\<lambda>(k, _). encode S k) pairs = map (\<lambda>kv. encode S (fst kv)) pairs"
    by (simp add: case_prod_unfold)
  from canonical_query_agree [OF assms(1)] show ?thesis unfolding all keys using assms(3) by (elim meta_mp)
qed

text \<open>What the server extracts from a request signed in the header; its canonical request is the code's, of
  the headers that the client lists.\<close>

definition server_canonical :: "sig_env \<Rightarrow> request \<Rightarrow> string list \<Rightarrow> string \<Rightarrow> string" where
  "server_canonical S r names h =
     canonical_request (req_method r) (canonicalize_uri S (req_path r))
       (or_default (canonicalize_query_string S (req_uri r)))
       (canonicalize_headers S (req_headers r) (sort names)) (join_with '';'' (sort names)) h"

lemma signed_header_extracted:
  assumes "hex_laws S" and "to_str_laws S"
    and names: "names \<noteq> []" "\<forall>n \<in> set names. token n \<and> to_lower n = n \<and> n \<noteq> ''authorization''"
    and tokens: "\<forall>t \<in> {access_key c, date, region, service}. token t"
    and "header_text S (req_headers r) ''x-amz-date'' = Some dt"
    and "header_text S (req_headers r) ''x-amz-content-sha256'' = Some h"
  shows "extract_signature S (sign_in_header S c dt date region service names pairs h r) = Some
    \<lparr>ar_credential = access_key c, ar_date = date,
     ar_signature = client_signature S c dt date region service (aws_canonical_request S r pairs names h),
     ar_region = region, ar_service = service,
     ar_string_to_sign = aws_string_to_sign S dt date region service
       (server_canonical S r names h)\<rparr>"
proof -
  let ?cred = "client_credential (access_key c) date region service"
  let ?sh = "join_with '';'' (sort names)"
  let ?sig = "client_signature S c dt date region service (aws_canonical_request S r pairs names h)"
  define r' where "r' = sign_in_header S c dt date region service names pairs h r"
  have fields: "req_method r' = req_method r" "req_path r' = req_path r" "req_uri r' = req_uri r"
    "req_headers r' = (req_headers r)(''authorization'' \<mapsto> client_authorization ?cred ?sh ?sig)"
    by (simp_all add: r'_def sign_in_header_def)
  have sig: "piece ?sig" unfolding client_signature_def aws_signature_def by (rule hex_piece [OF assms(1)])
  have cred: "piece ?cred" by (rule piece_credential [OF tokens])
  have sorted_tokens: "\<forall>n \<in> set (sort names). token n" using names(2) by simp
  have nonempty: "sort names \<noteq> []" using names(1) by (metis length_0_conv length_sort)
  have "piece ?sh" by (rule piece_names [OF sorted_tokens])
  then have "list_all visible ?sh" by (auto simp: piece_def plain_char_def list_all_iff)
  then have "sig_to_str S (client_authorization ?cred ?sh ?sig) = Some (client_authorization ?cred ?sh ?sig)"
    using assms(2) authorization_visible [OF cred _ sig] unfolding to_str_laws_def by blast
  then have hdr: "header_text S (req_headers r') ''authorization'' = Some (client_authorization ?cred ?sh ?sig)"
    by (simp add: header_text_def fields(4))
  have others: "header_text S (req_headers r') ''x-amz-date'' = Some dt"
      "header_text S (req_headers r') ''x-amz-content-sha256'' = Some h"
    using assms(6,7) by (simp_all add: header_text_def fields(4))
  have ch: "canonicalize_headers S (req_headers r') (sort names) = canonicalize_headers S (req_headers r) (sort names)"
    using names(2) by (intro canonicalize_headers_cong) (auto simp: fields(4))
  from from_authorization_header_client [OF sig tokens nonempty sorted_tokens hdr others] show ?thesis
    by (simp only: extract_signature_def option.case fields(1-3) ch string_to_sign_agree server_canonical_def
        flip: r'_def)
qed

text \<open>C12: A request that a client signs in the \<open>Authorization\<close> header by the AWS documentation, with the
  configured credentials, is authenticated, under these conditions. The path has only unreserved bytes and
  slashes (any other is encoded twice). The names of the signed headers are prefix-free, and so are the encoded
  names of the query parameters, none of which is \<open>X-Amz-Signature\<close> (the code sorts whole lines). The pieces of
  the header have no separators. The headers \<open>x-amz-date\<close> and \<open>x-amz-content-sha256\<close> are there and are text.
  The client may list the header names in any order, since it sorts them.\<close>

theorem signed_header_accepted:
  assumes "percent_laws S" and "hex_laws S" and "to_str_laws S"
    and "\<forall>ch \<in> set (req_path r). ch = CHR ''/'' \<or> unreserved S ch"
    and query: "url_query_pairs S (''http://example.com/'' @ req_uri r) = Some pairs"
      "\<forall>kv \<in> set pairs. to_lower (fst kv) \<noteq> ''x-amz-signature''"
      "prefix_free (map (\<lambda>kv. encode S (fst kv)) pairs)"
    and names: "names \<noteq> []" "prefix_free names"
      "\<forall>n \<in> set names. token n \<and> to_lower n = n \<and> n \<noteq> ''authorization''"
    and tokens: "\<forall>t \<in> {access_key c, date, region, service}. token t"
    and "header_text S (req_headers r) ''x-amz-date'' = Some dt"
    and "header_text S (req_headers r) ''x-amz-content-sha256'' = Some h"
  shows "authenticated S c (sign_in_header S c dt date region service names pairs h r)"
proof -
  have "server_canonical S r names h = aws_canonical_request S r pairs (sort names) h"
    unfolding server_canonical_def
    by (rule canonical_request_agree [OF canonicalize_uri_unreserved [OF assms(1,4)] canonical_query_plain [OF query] refl])
      (use names canonical_headers_sorted in \<open>simp_all\<close>)
  also have "aws_canonical_request S r pairs (sort names) h = aws_canonical_request S r pairs names h"
    by (simp add: aws_canonical_request_def sorted_sort_id)
  finally show ?thesis
    using signed_header_extracted [OF assms(2,3) names(1,3) tokens assms(12,13), of pairs]
    by (simp add: authenticated_def is_valid_iff_signature client_signature_def)
qed

definition demo_request :: "string \<Rightarrow> request" where
  "demo_request uri = \<lparr>req_method = ''GET'', req_uri = uri, req_path = ''/b/k-1'',
     req_headers = [''host'' \<mapsto> ''s3.local'', ''x-amz-date'' \<mapsto> ''20250101T000000Z'', ''x-amz-content-sha256'' \<mapsto> ''abc''],
     req_body = Plain \<lparr>stream_data = [], stream_fault = False\<rparr>\<rparr>"

abbreviation demo_names :: "string list" where
  "demo_names \<equiv> [''x-amz-date'', ''host'', ''x-amz-content-sha256'']"

lemma demo_request_facts:
  "\<forall>ch \<in> set (req_path (demo_request u)). ch = CHR ''/'' \<or> unreserved demo_sig ch"
  "demo_names \<noteq> []" "prefix_free demo_names"
  "\<forall>n \<in> set demo_names. token n \<and> to_lower n = n \<and> n \<noteq> ''authorization''"
  "\<forall>t \<in> {access_key demo_auth, ''20250101'', ''ipfs'', ''s3''}. token t"
  "header_text demo_sig (req_headers (demo_request u)) ''x-amz-date'' = Some ''20250101T000000Z''"
  "header_text demo_sig (req_headers (demo_request u)) ''x-amz-content-sha256'' = Some ''abc''"
proof -
  have "list_all (\<lambda>ch. ch = CHR ''/'' \<or> unreserved demo_sig ch) ''/b/k-1''" by code_simp
  then show "\<forall>ch \<in> set (req_path (demo_request u)). ch = CHR ''/'' \<or> unreserved demo_sig ch"
    by (simp only: demo_request_def request.select_convs list_all_iff)
  show "demo_names \<noteq> []" by simp
  show "prefix_free demo_names" unfolding prefix_free_def by code_simp
  show "\<forall>n \<in> set demo_names. token n \<and> to_lower n = n \<and> n \<noteq> ''authorization''"
    unfolding token_def by code_simp
  show "\<forall>t \<in> {access_key demo_auth, ''20250101'', ''ipfs'', ''s3''}. token t"
    unfolding token_def by code_simp
  have "demo_to_str ''20250101T000000Z'' = Some ''20250101T000000Z''" "demo_to_str ''abc'' = Some ''abc''"
    by code_simp+
  then show "header_text demo_sig (req_headers (demo_request u)) ''x-amz-date'' = Some ''20250101T000000Z''"
    "header_text demo_sig (req_headers (demo_request u)) ''x-amz-content-sha256'' = Some ''abc''"
    by (simp_all add: header_text_def demo_request_def demo_sig_def)
qed

theorem signed_header_accepted_witness:
  "authenticated demo_sig demo_auth
     (sign_in_header demo_sig demo_auth ''20250101T000000Z'' ''20250101'' ''ipfs'' ''s3'' demo_names
        [(''list-type'', ''2''), (''prefix'', ''p'')] ''abc'' (demo_request ''/b/k-1?list-type=2&prefix=p''))"
proof (rule signed_header_accepted [OF demo_percent_laws demo_hex_laws demo_to_str_laws demo_request_facts(1)])
  have "demo_pairs (''http://example.com/'' @ ''/b/k-1?list-type=2&prefix=p'') = Some [(''list-type'', ''2''), (''prefix'', ''p'')]"
    by code_simp
  then show "url_query_pairs demo_sig (''http://example.com/'' @ req_uri (demo_request ''/b/k-1?list-type=2&prefix=p'')) =
      Some [(''list-type'', ''2''), (''prefix'', ''p'')]"
    by (simp only: demo_request_def request.select_convs demo_sig_def sig_env.select_convs)
  show "\<forall>kv \<in> set [(''list-type'', ''2''), (''prefix'', ''p'')]. to_lower (fst kv) \<noteq> ''x-amz-signature''" by code_simp
  show "prefix_free (map (\<lambda>kv. encode demo_sig (fst kv)) [(''list-type'', ''2''), (''prefix'', ''p'')])"
    unfolding prefix_free_def by code_simp
qed (rule demo_request_facts)+

lemma query_map_signature:
  "query_map (params @ [(''X-Amz-Signature'', sig)]) n =
     (if n = ''x-amz-signature'' then Some sig else query_map params n)"
proof -
  have "to_lower ''X-Amz-Signature'' = ''x-amz-signature''" by code_simp
  then show ?thesis by (simp add: query_map_def)
qed

text \<open>C22: A presigned URL made by the AWS documentation over an unsigned payload is authenticated, under the
  same conditions on path, names and pieces, when the signature is the last query parameter and the only one of
  its name and the request has no \<open>Authorization\<close> header.\<close>

theorem presigned_url_accepted:
  assumes "percent_laws S"
    and "\<forall>ch \<in> set (req_path r). ch = CHR ''/'' \<or> unreserved S ch"
    and "url_query_pairs S (''http://example.com/'' @ req_uri r) = Some (params @ [(''X-Amz-Signature'', sig)])"
      "url_query_pairs S (''http://example.com'' @ req_uri r) = Some (params @ [(''X-Amz-Signature'', sig)])"
    and params: "\<forall>kv \<in> set params. to_lower (fst kv) \<noteq> ''x-amz-signature''"
      "prefix_free (map (\<lambda>kv. encode S (fst kv)) params)"
      "query_map params ''x-amz-credential'' = Some (client_credential (access_key c) date region service)"
      "query_map params ''x-amz-date'' = Some dt"
      "query_map params ''x-amz-signedheaders'' = Some (join_with '';'' (sort names))"
    and names: "names \<noteq> []" "prefix_free names" "\<forall>n \<in> set names. token n \<and> to_lower n = n"
    and tokens: "\<forall>t \<in> {access_key c, date, region, service}. token t"
    and "req_headers r ''authorization'' = None"
    and "sig = client_signature S c dt date region service
      (aws_canonical_request S r params names ''UNSIGNED-PAYLOAD'')"
  shows "authenticated S c r"
proof -
  let ?sh = "join_with '';'' (sort names)"
  have nonempty: "sort names \<noteq> []" using names(1) by (metis length_0_conv length_sort)
  have sh: "split_on CHR '';'' ?sh = sort names" by (rule split_names [OF nonempty]) (use names(3) in simp)
  have lower: "to_lower ''X-Amz-Signature'' = ''x-amz-signature''" by code_simp
  have unsigned: "filter (\<lambda>(k, _). to_lower k \<noteq> ''x-amz-signature'') (params @ [(''X-Amz-Signature'', sig)]) = params"
    using params(1) lower by (auto intro!: filter_True)
  have keys: "map (\<lambda>(k, _). encode S k) params = map (\<lambda>kv. encode S (fst kv)) params"
    by (simp add: case_prod_unfold)
  have query: "canonicalize_query_string S (req_uri r) = Some (aws_canonical_query S params)"
    using canonical_query_agree [OF assms(3)] params(2) unfolding unsigned keys by (elim meta_mp)
  have "canonical_request (req_method r) (canonicalize_uri S (req_path r))
      (or_default (canonicalize_query_string S (req_uri r)))
      (canonicalize_headers S (req_headers r) (sort names)) ?sh ''UNSIGNED-PAYLOAD''
    = aws_canonical_request S r params (sort names) ''UNSIGNED-PAYLOAD''"
    by (rule canonical_request_agree [OF canonicalize_uri_unreserved [OF assms(1,2)] query refl])
      (use names canonical_headers_sorted in \<open>simp_all\<close>)
  also have "aws_canonical_request S r params (sort names) ''UNSIGNED-PAYLOAD'' =
      aws_canonical_request S r params names ''UNSIGNED-PAYLOAD''"
    by (simp add: aws_canonical_request_def sorted_sort_id)
  finally have canonical: "canonical_request (req_method r) (canonicalize_uri S (req_path r))
      (or_default (canonicalize_query_string S (req_uri r)))
      (canonicalize_headers S (req_headers r) (sort names)) ?sh ''UNSIGNED-PAYLOAD''
    = aws_canonical_request S r params names ''UNSIGNED-PAYLOAD''" .
  have distinct_keys: "''x-amz-credential'' \<noteq> ''x-amz-signature''" "''x-amz-date'' \<noteq> ''x-amz-signature''"
      "''x-amz-signedheaders'' \<noteq> ''x-amz-signature''"
    by simp_all
  have given: "or_default (Some x) = x" for x by (simp add: or_default_def)
  have five: "(length [a, b, d, e, f] < 5) = False" for a b d e f :: string by simp
  have "from_query_params S r = Some
    \<lparr>ar_credential = access_key c, ar_date = date, ar_signature = sig, ar_region = region, ar_service = service,
     ar_string_to_sign = string_to_sign S dt date region service
       (aws_canonical_request S r params names ''UNSIGNED-PAYLOAD'')\<rparr>"
    by (simp only: from_query_params_def assms(4) option.case Let_def query_map_signature distinct_keys
        if_False if_True simp_thms params(3-5) given sh split_credential [OF tokens] five list.case canonical)
  moreover have "from_authorization_header S r = None"
    using assms(14) by (simp add: from_authorization_header_def header_text_def)
  ultimately show ?thesis
    using assms(15)
    by (simp add: authenticated_def extract_signature_def is_valid_iff_signature client_signature_def
        string_to_sign_agree)
qed

text \<open>The parameters of a presigned \<open>GET\<close>, and the URL of it.\<close>

definition demo_params :: "(string \<times> string) list" where
  "demo_params =
     [(''X-Amz-Algorithm'', ''AWS4-HMAC-SHA256''), (''X-Amz-Credential'', ''KEY/20250101/ipfs/s3/aws4_request''),
      (''X-Amz-Date'', ''20250101T000000Z''), (''X-Amz-SignedHeaders'', ''host'')]"

definition presigned_uri :: "string \<Rightarrow> string" where
  "presigned_uri sig =
     ''/b/k-1?'' @ join_with ''&'' (map (\<lambda>(k, v). k @ ''='' @ v) (demo_params @ [(''X-Amz-Signature'', sig)]))"

theorem presigned_url_accepted_witness:
  "authenticated demo_sig demo_auth (demo_request (presigned_uri presigned_sig))"
proof (rule presigned_url_accepted [OF demo_percent_laws demo_request_facts(1)])
  have computed: "client_signature demo_sig demo_auth ''20250101T000000Z'' ''20250101'' ''ipfs'' ''s3''
      (aws_canonical_request demo_sig (demo_request []) demo_params [''host''] ''UNSIGNED-PAYLOAD'') = presigned_sig"
    by code_simp
  have "demo_pairs (''http://example.com/'' @ presigned_uri presigned_sig) = Some (demo_params @ [(''X-Amz-Signature'', presigned_sig)])"
    "demo_pairs (''http://example.com'' @ presigned_uri presigned_sig) = Some (demo_params @ [(''X-Amz-Signature'', presigned_sig)])"
    by code_simp+
  then show "url_query_pairs demo_sig (''http://example.com/'' @ req_uri (demo_request (presigned_uri presigned_sig))) =
      Some (demo_params @ [(''X-Amz-Signature'', presigned_sig)])"
    "url_query_pairs demo_sig (''http://example.com'' @ req_uri (demo_request (presigned_uri presigned_sig))) =
      Some (demo_params @ [(''X-Amz-Signature'', presigned_sig)])"
    by (simp_all only: demo_request_def request.select_convs demo_sig_def sig_env.select_convs)
  show "\<forall>kv \<in> set demo_params. to_lower (fst kv) \<noteq> ''x-amz-signature''" by code_simp
  show "prefix_free (map (\<lambda>kv. encode demo_sig (fst kv)) demo_params)" unfolding prefix_free_def by code_simp
  show "query_map demo_params ''x-amz-credential'' = Some (client_credential (access_key demo_auth) ''20250101'' ''ipfs'' ''s3'')"
    "query_map demo_params ''x-amz-date'' = Some ''20250101T000000Z''"
    "query_map demo_params ''x-amz-signedheaders'' = Some (join_with '';'' (sort [''host'']))"
    by code_simp+
  show "[''host''] \<noteq> []" by simp
  show "prefix_free [''host'']" by (simp add: prefix_free_def)
  show "\<forall>n \<in> set [''host'']. token n \<and> to_lower n = n" unfolding token_def by code_simp
  show "\<forall>t \<in> {access_key demo_auth, ''20250101'', ''ipfs'', ''s3''}. token t" by (rule demo_request_facts(5))
  show "req_headers (demo_request (presigned_uri presigned_sig)) ''authorization'' = None"
    by (simp add: demo_request_def)
  show "presigned_sig = client_signature demo_sig demo_auth ''20250101T000000Z'' ''20250101'' ''ipfs'' ''s3''
      (aws_canonical_request demo_sig (demo_request (presigned_uri presigned_sig)) demo_params [''host''] ''UNSIGNED-PAYLOAD'')"
    unfolding computed [symmetric]
    by (simp add: aws_canonical_request_def aws_canonical_headers_def header_value_of_def demo_request_def)
qed

section \<open>The canonical request\<close>

text \<open>The canonical query string depends neither on the order of the parameters nor on the signature
  parameter: two URLs whose other parameters are the same up to order have the same canonical form.\<close>

theorem canonical_query_order:
  assumes "url_query_pairs S (''http://example.com/'' @ u) = Some ps"
    and "url_query_pairs S (''http://example.com/'' @ w) = Some qs"
    and "mset (filter (\<lambda>(k, _). to_lower k \<noteq> ''x-amz-signature'') ps)
       = mset (filter (\<lambda>(k, _). to_lower k \<noteq> ''x-amz-signature'') qs)"
  shows "canonicalize_query_string S u = canonicalize_query_string S w"
proof -
  let ?others = "filter (\<lambda>(k, _). to_lower k \<noteq> ''x-amz-signature'')"
  let ?enc = "\<lambda>xs. map (\<lambda>(k, v). k @ ''='' @ v) (map (\<lambda>(k, v). (encode S k, encode S v)) xs)"
  have "mset (?enc (?others ps)) = mset (?enc (?others qs))"
    by (simp only: mset_map assms(3))
  then have "sort (?enc (?others ps)) = sort (?enc (?others qs))"
    by (intro properties_for_sort) simp_all
  then show ?thesis by (simp only: canonicalize_query_string_def assms(1,2) option.case)
qed

theorem canonical_query_order_witness:
  "canonicalize_query_string demo_sig ''/b?x=1&y=2'' = canonicalize_query_string demo_sig ''/b?y=2&X-Amz-Signature=s&x=1''"
proof (rule canonical_query_order)
  have "demo_pairs (''http://example.com/'' @ ''/b?x=1&y=2'') = Some [(''x'', ''1''), (''y'', ''2'')]"
    "demo_pairs (''http://example.com/'' @ ''/b?y=2&X-Amz-Signature=s&x=1'') =
      Some [(''y'', ''2''), (''X-Amz-Signature'', ''s''), (''x'', ''1'')]"
    by code_simp+
  then show "url_query_pairs demo_sig (''http://example.com/'' @ ''/b?x=1&y=2'') = Some [(''x'', ''1''), (''y'', ''2'')]"
    "url_query_pairs demo_sig (''http://example.com/'' @ ''/b?y=2&X-Amz-Signature=s&x=1'') =
      Some [(''y'', ''2''), (''X-Amz-Signature'', ''s''), (''x'', ''1'')]"
    by (simp_all only: demo_sig_def sig_env.select_convs)
  have "filter (\<lambda>(k, _). to_lower k \<noteq> ''x-amz-signature'') [(''x'', ''1''), (''y'', ''2'')] = [(''x'', ''1''), (''y'', ''2'')]"
    "filter (\<lambda>(k, _). to_lower k \<noteq> ''x-amz-signature'') [(''y'', ''2''), (''X-Amz-Signature'', ''s''), (''x'', ''1'')]
      = [(''y'', ''2''), (''x'', ''1'')]"
    by code_simp+
  then show "mset (filter (\<lambda>(k, _). to_lower k \<noteq> ''x-amz-signature'') [(''x'', ''1''), (''y'', ''2'')])
    = mset (filter (\<lambda>(k, _). to_lower k \<noteq> ''x-amz-signature'') [(''y'', ''2''), (''X-Amz-Signature'', ''s''), (''x'', ''1'')])"
    by simp
qed

text \<open>Two conditions of the acceptance theorems are needed. The code sorts whole \<open>name:value\<close> lines, so
  a signed header whose name extends another's by a character below the colon changes place; and it encodes
  the path of the request line a second time, so a key with a blank is canonicalised differently from the
  client.\<close>

theorem canonical_form_departs:
  "canonicalize_headers demo_sig [''x-amz-copy'' \<mapsto> ''1'', ''x-amz-copy-if'' \<mapsto> ''2''] [''x-amz-copy'', ''x-amz-copy-if'']
     = ''x-amz-copy-if:2'' @ [CHR 0x0A] @ ''x-amz-copy:1'' \<and>
   aws_canonical_headers demo_sig ((demo_request [])\<lparr>req_headers := [''x-amz-copy'' \<mapsto> ''1'', ''x-amz-copy-if'' \<mapsto> ''2'']\<rparr>)
       [''x-amz-copy'', ''x-amz-copy-if'']
     = ''x-amz-copy:1'' @ [CHR 0x0A] @ ''x-amz-copy-if:2'' @ [CHR 0x0A] \<and>
   canonicalize_uri demo_sig ''/b/a%20b'' = ''/b/a%2520b''"
  by (intro conjI) code_simp+

section \<open>Streaming bodies\<close>

text \<open>The decoder returns the chunks that a client sent by the AWS format, in order, and ends without an
  error, whatever the (64 digit) signatures and whatever follows the last chunk's size.\<close>

theorem chunks_roundtrip:
  assumes "\<forall>(sig, data) \<in> set scs. length sig = 64 \<and> data \<noteq> [] \<and> length data \<le> isize_max"
  shows "streaming_chunk_body \<lparr>stream_data = aws_chunked scs last_sig, stream_fault = f\<rparr> = (map snd scs, Finished)"
  by (rule streaming_aws_chunked [OF assms])

theorem chunks_roundtrip_witness:
  "streaming_chunk_body \<lparr>stream_data = aws_chunked demo_chunks ''s'', stream_fault = False\<rparr> = ([''hello '', ''world''], Finished)"
proof -
  from chunks_roundtrip [OF demo_chunks_ok, of "''s''" False] show ?thesis by (simp add: demo_chunks_def)
qed

text \<open>C32: The decoder always ends, on any input, and yields no more bytes than it read. Each chunk it yields
  took at least 85 bytes of framing, so the number of chunks is bounded as well.\<close>

theorem decoder_bounded:
  "length (concat (fst (streaming_chunk_body b))) + 85 * length (fst (streaming_chunk_body b)) \<le> length (stream_data b)"
proof (induction b rule: streaming_chunk_body.induct)
  case (1 b)
  show ?case
  proof (cases "next_chunk b")
    case (NextChunk c b')
    have "fst (streaming_chunk_body b) = c # fst (streaming_chunk_body b')"
      by (subst streaming_chunk_body.simps) (simp add: NextChunk case_prod_unfold)
    with 1 NextChunk next_chunk_shorter [OF NextChunk] show ?thesis by simp
  qed (simp_all add: streaming_chunk_body.simps [of b])
qed

text \<open>C34: A body that ends before the last, empty chunk (here: right after a chunk, or at once) makes the
  decoder panic on an empty slice, where a broken connection is an error.\<close>

theorem truncated_body_panics:
  assumes "\<forall>(sig, data) \<in> set scs. length sig = 64 \<and> data \<noteq> [] \<and> length data \<le> isize_max"
  shows "streaming_chunk_body \<lparr>stream_data = concat (map aws_chunk scs), stream_fault = f\<rparr> =
    (map snd scs, if f then Failed IoRead else StreamPanic)"
proof -
  let ?b = "\<lparr>stream_data = concat (map aws_chunk scs), stream_fault = f\<rparr>"
  have "streaming_chunk_body ?b =
      (case streaming_chunk_body (?b\<lparr>stream_data := []\<rparr>) of (cs, fin) \<Rightarrow> (map snd scs @ cs, fin))"
    by (rule streaming_aws_chunks [OF assms]) simp
  moreover have "streaming_chunk_body (?b\<lparr>stream_data := []\<rparr>) = ([], if f then Failed IoRead else StreamPanic)"
    by (subst streaming_chunk_body.simps) (simp add: next_chunk_truncated)
  ultimately show ?thesis by simp
qed

theorem truncated_body_panics_witness:
  "streaming_chunk_body \<lparr>stream_data = concat (map aws_chunk demo_chunks), stream_fault = False\<rparr>
     = ([''hello '', ''world''], StreamPanic)"
proof -
  from truncated_body_panics [OF demo_chunks_ok, of False] show ?thesis by (simp add: demo_chunks_def)
qed

end
