(* ===== verification/SigV4Binding.thy ===== *)
theory SigV4Binding imports SigV4Client begin

text \<open>
  What a signature that \<^verbatim>\<open>src/src/s3/authorization.rs\<close> accepts says of the request:
  the canonical request can be read back, so the method, the path, the query parameters and the
  signed headers are determined by it. The lemmas rest on the documented behaviour of the percent
  encoder (\<open>percent_bytes\<close>) and of \<open>HeaderValue::to_str\<close> (\<open>to_str_plain\<close>).
\<close>

section \<open>Laws\<close>

text \<open>The percent encoder works byte by byte: a byte in the set (and every byte outside ASCII)
  becomes a percent sign and two hexadecimal digits, the others are kept. \<open>NON_ALPHANUMERIC\<close> holds
  the ASCII characters that are neither letters nor digits.\<close>

definition percent_bytes :: "sig_env \<Rightarrow> bool" where
  "percent_bytes S \<longleftrightarrow>
     (\<exists>enc. inj enc \<and>
        (\<forall>c. \<exists>x y. enc c = [CHR ''%'', x, y] \<and> {x, y} \<subseteq> set ''0123456789ABCDEFabcdef'') \<and>
        (\<forall>s P. percent_encode S s P = concat (map (\<lambda>c. if P c \<or> 128 \<le> byte c then enc c else [c]) s))) \<and>
     (\<forall>c. byte c < 128 \<longrightarrow>
        non_alphanumeric S c = (\<not> (byte c \<in> {48 .. 57} \<or> byte c \<in> {65 .. 90} \<or> byte c \<in> {97 .. 122})))"

definition to_str_plain :: "sig_env \<Rightarrow> bool" where
  "to_str_plain S \<longleftrightarrow> (\<forall>v s. sig_to_str S v = Some s \<longrightarrow> CHR 0x0A \<notin> set s)"

definition hex_injective :: "sig_env \<Rightarrow> bool" where
  "hex_injective S \<longleftrightarrow> inj (hex_encode S)"

section \<open>Reading a list of fields back\<close>

lemma split_on_append: "split_on c (a @ c # b) = split_on c a @ split_on c b"
proof (induction a)
  case (Cons x xs)
  obtain q qs where "split_on c xs = q # qs" by (cases "split_on c xs") auto
  with Cons show ?case by auto
qed simp

lemma join_without: "c \<notin> set sep \<Longrightarrow> \<forall>s \<in> set ss. c \<notin> set s \<Longrightarrow> c \<notin> set (join_with sep ss)"
  by (induction sep ss rule: join_with.induct) auto

lemma join_with_inj:
  assumes "join_with [c] xs = join_with [c] ys"
    and "\<forall>s \<in> set xs. c \<notin> set s \<and> s \<noteq> []" and "\<forall>s \<in> set ys. c \<notin> set s \<and> s \<noteq> []"
  shows "xs = ys"
proof -
  have empty: "join_with [c] zs = [] \<longleftrightarrow> zs = []" if "\<forall>s \<in> set zs. s \<noteq> []" for zs
    using that by (cases "([c], zs)" rule: join_with.cases) auto
  show ?thesis
  proof (cases "xs = [] \<or> ys = []")
    case True
    have "join_with [c] xs = [] \<longleftrightarrow> xs = []" "join_with [c] ys = [] \<longleftrightarrow> ys = []"
      using assms(2,3) by (intro empty; blast)+
    with True assms(1) show ?thesis by auto
  next
    case False
    have "split_on c (join_with [c] xs) = xs" "split_on c (join_with [c] ys) = ys"
      using False assms(2,3) by (intro split_on_join; blast)+
    with assms(1) show ?thesis by metis
  qed
qed

lemma append_sep_inj:
  "a @ c # x = b @ c # y \<Longrightarrow> c \<notin> set a \<Longrightarrow> c \<notin> set b \<Longrightarrow> a = b \<and> x = y"
  by (induction a arbitrary: b) (auto simp: Cons_eq_append_conv append_eq_Cons_conv)

lemma map_inj_on_mset:
  assumes "mset (map f xs) = mset (map f ys)" and "inj_on f (set xs \<union> set ys)"
  shows "mset xs = mset ys"
proof -
  have "image_mset f (mset xs) = image_mset f (mset ys)" using assms(1) by simp
  then have "image_mset (the_inv_into (set xs \<union> set ys) f) (image_mset f (mset xs)) =
      image_mset (the_inv_into (set xs \<union> set ys) f) (image_mset f (mset ys))" by simp
  moreover have "image_mset (the_inv_into (set xs \<union> set ys) f) (image_mset f (mset zs)) = mset zs"
    if "set zs \<subseteq> set xs \<union> set ys" for zs
  proof -
    have "map (\<lambda>x. the_inv_into (set xs \<union> set ys) f (f x)) zs = map (\<lambda>x. x) zs"
      using that assms(2) by (intro map_cong refl) (auto intro: the_inv_into_f_f)
    then show ?thesis by (metis (no_types, lifting) list.map_comp list.map_ident mset_map comp_def map_eq_conv)
  qed
  ultimately show ?thesis by simp
qed

section \<open>The encoder\<close>

lemma percent_bytesE:
  assumes "percent_bytes S"
  obtains enc where "inj enc"
    and "\<And>c. \<exists>x y. enc c = [CHR ''%'', x, y] \<and> {x, y} \<subseteq> set ''0123456789ABCDEFabcdef''"
    and "\<And>s. encode S s = concat (map (\<lambda>c. if percent_encode_set S c \<or> 128 \<le> byte c then enc c else [c]) s)"
proof -
  from assms obtain enc where "inj enc"
      "\<forall>c. \<exists>x y. enc c = [CHR ''%'', x, y] \<and> {x, y} \<subseteq> set ''0123456789ABCDEFabcdef''"
      "\<forall>s P. percent_encode S s P = concat (map (\<lambda>c. if P c \<or> 128 \<le> byte c then enc c else [c]) s)"
    unfolding percent_bytes_def by (elim conjE exE) rule
  then show thesis by (intro that) (simp_all only: encode_def simp_thms)
qed

lemma encode_set_percent: "percent_bytes S \<Longrightarrow> percent_encode_set S CHR ''%''"
  by (simp add: percent_bytes_def percent_encode_set_def byte_def)

lemma percent_encode_set_iff:
  "percent_bytes S \<Longrightarrow> byte c < 128 \<Longrightarrow> percent_encode_set S c \<longleftrightarrow>
     \<not> (byte c \<in> {48 .. 57} \<or> byte c \<in> {65 .. 90} \<or> byte c \<in> {97 .. 122} \<or> c \<in> {CHR ''-'', CHR ''.'', CHR ''_'', CHR 0x7E})"
  by (auto simp: percent_bytes_def percent_encode_set_def)

text \<open>Every character of an encoding is a mark, a letter or a digit, or a percent sign.\<close>

definition encoded_char :: "char \<Rightarrow> bool" where
  "encoded_char c \<longleftrightarrow>
     byte c \<in> {48 .. 57} \<or> byte c \<in> {65 .. 90} \<or> byte c \<in> {97 .. 122} \<or>
     c \<in> {CHR ''-'', CHR ''.'', CHR ''_'', CHR 0x7E, CHR ''%''}"

lemma encoded_char_separators:
  "\<not> encoded_char CHR ''/''" "\<not> encoded_char CHR ''&''" "\<not> encoded_char CHR ''=''"
  "\<not> encoded_char CHR 0x0A"
  by code_simp+

lemma encode_chars:
  assumes "percent_bytes S" and "c \<in> set (encode S s)"
  shows "encoded_char c"
proof -
  from assms(1) obtain enc where
    enc: "\<And>c. \<exists>x y. enc c = [CHR ''%'', x, y] \<and> {x, y} \<subseteq> set ''0123456789ABCDEFabcdef''"
    and eq: "\<And>s. encode S s = concat (map (\<lambda>c. if percent_encode_set S c \<or> 128 \<le> byte c then enc c else [c]) s)"
    by (rule percent_bytesE) (rule that)
  have "list_all encoded_char ''0123456789ABCDEFabcdef''" by code_simp
  then have hex: "encoded_char x" if "x \<in> set ''0123456789ABCDEFabcdef''" for x
    using that by (simp only: list_all_iff)
  obtain d where d: "d \<in> set s"
      "c \<in> set (if percent_encode_set S d \<or> 128 \<le> byte d then enc d else [d])"
    using assms(2) unfolding eq by auto
  show ?thesis
  proof (cases "percent_encode_set S d \<or> 128 \<le> byte d")
    case True
    obtain x y where xy: "enc d = [CHR ''%'', x, y]" "{x, y} \<subseteq> set ''0123456789ABCDEFabcdef''"
      using enc by blast
    have "c = CHR ''%'' \<or> c = x \<or> c = y" using d(2) True xy(1) by auto
    moreover have "encoded_char CHR ''%''" by (simp add: encoded_char_def)
    ultimately show ?thesis using hex xy(2) by blast
  next
    case False
    then have "c = d" "byte d < 128" "\<not> percent_encode_set S d" using d(2) by auto
    then show ?thesis using percent_encode_set_iff [OF assms(1), of d] by (auto simp: encoded_char_def)
  qed
qed

lemma encode_no_sep:
  assumes "percent_bytes S"
  shows "CHR ''/'' \<notin> set (encode S s)" "CHR ''&'' \<notin> set (encode S s)" "CHR ''='' \<notin> set (encode S s)"
    "CHR 0x0A \<notin> set (encode S s)"
  using encode_chars [OF assms] encoded_char_separators by blast+

lemma encode_inj:
  assumes "percent_bytes S" and "encode S s = encode S t"
  shows "s = t"
proof -
  from assms(1) obtain enc where inj: "inj enc"
    and hex: "\<And>c. \<exists>x y. enc c = [CHR ''%'', x, y] \<and> {x, y} \<subseteq> set ''0123456789ABCDEFabcdef''"
    and eq: "\<And>s. encode S s = concat (map (\<lambda>c. if percent_encode_set S c \<or> 128 \<le> byte c then enc c else [c]) s)"
    by (rule percent_bytesE) (rule that)
  have enc: "\<exists>x y. enc c = [CHR ''%'', x, y]" for c using hex [of c] by (elim exE conjE) (intro exI)
  let ?piece = "\<lambda>c. if percent_encode_set S c \<or> 128 \<le> byte c then enc c else [c]"
  have shape: "(percent_encode_set S c \<or> 128 \<le> byte c) = (hd (?piece c) = CHR ''%'')" for c
  proof -
    obtain x y where "enc c = [CHR ''%'', x, y]" using enc by blast
    moreover have "percent_encode_set S CHR ''%''" by (rule encode_set_percent [OF assms(1)])
    ultimately show ?thesis by (cases "c = CHR ''%''") simp_all
  qed
  have one: "c = d \<and> u = v" if same: "?piece c @ u = ?piece d @ v" for c d u v
  proof (cases "percent_encode_set S c \<or> 128 \<le> byte c")
    case True
    obtain x y x' y' where xy: "enc c = [CHR ''%'', x, y]" "enc d = [CHR ''%'', x', y']" using enc by blast
    have c: "?piece c = enc c" using True by (rule if_P)
    have "hd (?piece d @ v) = hd (enc c @ u)" by (simp only: c flip: same)
    then have "hd (?piece d @ v) = CHR ''%''" using xy(1) by simp
    moreover have "hd (?piece d @ v) = hd (?piece d)" using xy(2) by simp
    ultimately have "percent_encode_set S d \<or> 128 \<le> byte d" using shape [of d] by argo
    then have "?piece d = enc d" by (rule if_P)
    with same c xy have "enc c = enc d" "u = v" by simp_all
    then show ?thesis using injD [OF inj] by blast
  next
    case False
    obtain x' y' where d: "enc d = [CHR ''%'', x', y']" using enc by blast
    from False same have c: "?piece d @ v = c # u" by simp
    have "c \<noteq> CHR ''%''" using False encode_set_percent [OF assms(1)] by metis
    with c d show ?thesis by (cases "percent_encode_set S d \<or> 128 \<le> byte d") simp_all
  qed
  have nonempty: "?piece c \<noteq> []" for c using enc [of c] by auto
  have "concat (map ?piece s) = concat (map ?piece t) \<Longrightarrow> s = t"
  proof (induction s arbitrary: t)
    case Nil
    with nonempty show ?case by (cases t) (auto simp: append_eq_Cons_conv split: if_splits)
  next
    case (Cons c s)
    from Cons.prems nonempty [of c] obtain d u where t: "t = d # u" by (cases t) auto
    with Cons.prems have "?piece c @ concat (map ?piece s) = ?piece d @ concat (map ?piece u)" by simp
    from one [OF this] Cons.IH t show ?case by blast
  qed
  with assms(2) show ?thesis by (simp only: eq)
qed

section \<open>Path and query\<close>

lemma canonicalize_uri_no_newline:
  "percent_bytes S \<Longrightarrow> CHR 0x0A \<notin> set (canonicalize_uri S p)"
proof -
  assume laws: "percent_bytes S"
  show ?thesis
    unfolding canonicalize_uri_def using encode_no_sep(4) [OF laws] by (intro join_without) auto
qed

lemma canonicalize_uri_inj:
  assumes "percent_bytes S" and "canonicalize_uri S p = canonicalize_uri S q"
  shows "p = q"
proof -
  have split: "split_on CHR ''/'' (canonicalize_uri S u) = map (encode S) (split_on CHR ''/'' u)" for u
    unfolding canonicalize_uri_def using encode_no_sep(1) [OF assms(1)] by (intro split_on_join) auto
  have "inj (encode S)" using encode_inj [OF assms(1)] by (rule injI)
  moreover have "map (encode S) (split_on CHR ''/'' p) = map (encode S) (split_on CHR ''/'' q)"
    using split assms(2) by metis
  ultimately have "split_on CHR ''/'' p = split_on CHR ''/'' q" by (simp add: inj_map_eq_map)
  then show ?thesis by (metis join_split_on)
qed

text \<open>Only a path of unreserved characters is its own canonical form: the encoder makes every other one
  longer.\<close>

lemma encode_fixed:
  assumes "percent_bytes S" and "encode S s = s" and "c \<in> set s"
  shows "unreserved S c"
proof -
  from assms(1) obtain enc where
    enc: "\<And>c. \<exists>x y. enc c = [CHR ''%'', x, y] \<and> {x, y} \<subseteq> set ''0123456789ABCDEFabcdef''"
    and eq: "\<And>s. encode S s = concat (map (\<lambda>c. if percent_encode_set S c \<or> 128 \<le> byte c then enc c else [c]) s)"
    by (rule percent_bytesE) (rule that)
  let ?piece = "\<lambda>c. if percent_encode_set S c \<or> 128 \<le> byte c then enc c else [c]"
  have three: "length (enc c) = 3" for c using enc [of c] by auto
  have longer: "length t \<le> length (concat (map ?piece t))" for t by (induction t) (simp_all add: three)
  have "length (concat (map ?piece t)) = length t \<Longrightarrow> \<forall>c \<in> set t. unreserved S c" for t
  proof (induction t)
    case (Cons d t)
    with longer [of t] show ?case by (auto simp: three unreserved_def split: if_splits)
  qed simp
  with assms(2,3) show ?thesis by (metis eq)
qed

lemma split_on_covers: "d \<in> set s \<Longrightarrow> d \<noteq> c \<Longrightarrow> \<exists>p \<in> set (split_on c s). d \<in> set p"
proof (induction s)
  case (Cons x xs)
  obtain q qs where "split_on c xs = q # qs" by (cases "split_on c xs") auto
  with Cons show ?case by auto
qed simp

lemma map_fixed: "map f xs = xs \<Longrightarrow> x \<in> set xs \<Longrightarrow> f x = x"
  by (induction xs) auto

lemma canonicalize_uri_fixed:
  assumes "percent_bytes S" and "canonicalize_uri S p = p" and "c \<in> set p" and "c \<noteq> CHR ''/''"
  shows "unreserved S c"
proof -
  have "split_on CHR ''/'' (canonicalize_uri S p) = map (encode S) (split_on CHR ''/'' p)"
    unfolding canonicalize_uri_def using encode_no_sep(1) [OF assms(1)] by (intro split_on_join) auto
  then have "map (encode S) (split_on CHR ''/'' p) = split_on CHR ''/'' p" by (simp add: assms(2))
  then have fixed: "encode S q = q" if "q \<in> set (split_on CHR ''/'' p)" for q
    using that by (rule map_fixed)
  from split_on_covers [OF assms(3,4)] obtain q where "q \<in> set (split_on CHR ''/'' p)" "c \<in> set q" by blast
  with fixed encode_fixed [OF assms(1)] show ?thesis by blast
qed

text \<open>The parameters that the canonical query is made of.\<close>

definition signed_params :: "sig_env \<Rightarrow> string \<Rightarrow> (string \<times> string) list" where
  "signed_params S uri =
     (case url_query_pairs S (''http://example.com/'' @ uri) of
        None \<Rightarrow> []
      | Some pairs \<Rightarrow> filter (\<lambda>(k, _). to_lower k \<noteq> ''x-amz-signature'') pairs)"

definition render_param :: "sig_env \<Rightarrow> string \<times> string \<Rightarrow> string" where
  "render_param S kv = encode S (fst kv) @ CHR ''='' # encode S (snd kv)"

lemma canonical_query_params:
  "or_default (canonicalize_query_string S uri) = join_with ''&'' (sort (map (render_param S) (signed_params S uri)))"
proof (cases "url_query_pairs S (''http://example.com/'' @ uri)")
  case None
  then show ?thesis by (simp add: canonicalize_query_string_def signed_params_def or_default_def)
next
  case (Some pairs)
  have "(\<lambda>(k, v). k @ ''='' @ v) \<circ> (\<lambda>(k, v). (encode S k, encode S v)) = render_param S"
    by (rule ext) (simp add: render_param_def case_prod_unfold)
  then have "map (\<lambda>(k, v). k @ ''='' @ v) (map (\<lambda>(k, v). (encode S k, encode S v)) xs) = map (render_param S) xs" for xs
    by (simp only: list.map_comp)
  then show ?thesis
    by (simp only: canonicalize_query_string_def Some option.case or_default_def signed_params_def)
qed

lemma render_param_inj: "percent_bytes S \<Longrightarrow> render_param S kv = render_param S kv' \<Longrightarrow> kv = kv'"
  using append_sep_inj encode_no_sep(3) encode_inj unfolding render_param_def by (metis prod.expand)

lemma render_param_no_sep:
  "percent_bytes S \<Longrightarrow> CHR ''&'' \<notin> set (render_param S kv)"
  "percent_bytes S \<Longrightarrow> CHR 0x0A \<notin> set (render_param S kv)"
  using encode_no_sep by (auto simp: render_param_def)

lemma canonical_query_binds:
  assumes "percent_bytes S"
    and "or_default (canonicalize_query_string S u) = or_default (canonicalize_query_string S w)"
  shows "mset (signed_params S u) = mset (signed_params S w)"
proof -
  have "sort (map (render_param S) (signed_params S u)) = sort (map (render_param S) (signed_params S w))"
  proof (rule join_with_inj)
    show "join_with ''&'' (sort (map (render_param S) (signed_params S u))) =
        join_with ''&'' (sort (map (render_param S) (signed_params S w)))"
      using assms(2) unfolding canonical_query_params .
    have "render_param S kv \<noteq> []" for kv by (simp add: render_param_def)
    then have all: "\<forall>s \<in> set (sort (map (render_param S) (signed_params S uri))). CHR ''&'' \<notin> set s \<and> s \<noteq> []" for uri
      using render_param_no_sep(1) [OF assms(1)] by simp
    show "\<forall>s \<in> set (sort (map (render_param S) (signed_params S u))). CHR ''&'' \<notin> set s \<and> s \<noteq> []"
      "\<forall>s \<in> set (sort (map (render_param S) (signed_params S w))). CHR ''&'' \<notin> set s \<and> s \<noteq> []"
      by (rule all)+
  qed
  then have "mset (map (render_param S) (signed_params S u)) = mset (map (render_param S) (signed_params S w))"
    by (metis mset_sort)
  moreover have "inj_on (render_param S) (set (signed_params S u) \<union> set (signed_params S w))"
    by (rule inj_onI) (rule render_param_inj [OF assms(1)])
  ultimately show ?thesis by (rule map_inj_on_mset)
qed

lemma canonical_query_no_newline:
  assumes "percent_bytes S"
  shows "CHR 0x0A \<notin> set (or_default (canonicalize_query_string S u))"
proof -
  show ?thesis
    unfolding canonical_query_params using render_param_no_sep(2) [OF assms] by (intro join_without) auto
qed

section \<open>Headers\<close>

definition header_line :: "sig_env \<Rightarrow> request \<Rightarrow> string \<Rightarrow> string" where
  "header_line S r name = to_lower name @ CHR '':'' # header_value_of S r name"

lemma canonicalize_headers_lines:
  "canonicalize_headers S (req_headers r) names = lines (sort (map (header_line S r) names))"
proof -
  have "(\<lambda>(k, v). k @ '':'' @ v) \<circ> (\<lambda>name. (to_lower name,
      case map_option trim (header_text S (req_headers r) name) of None \<Rightarrow> [] | Some v \<Rightarrow> v)) = header_line S r"
    by (rule ext) (simp add: header_line_def header_value_of_def split: option.split)
  then show ?thesis by (simp only: canonicalize_headers_def lines_def list.map_comp)
qed

lemma lower_char_keeps: "byte d \<notin> {97 .. 122} \<Longrightarrow> lower_char c = d \<Longrightarrow> c = d"
proof -
  assume d: "byte d \<notin> {97 .. 122}" "lower_char c = d"
  have "byte (char_of (of_char c + 32 :: nat)) = of_char c + 32" if "of_char c \<in> {65 .. 90 :: nat}"
    using that by (simp add: byte_def)
  with d show "c = d" by (auto simp: lower_char_def split: if_splits)
qed

lemma to_lower_keeps_out: "byte d \<notin> {97 .. 122} \<Longrightarrow> d \<notin> set s \<Longrightarrow> d \<notin> set (to_lower s)"
proof
  assume d: "byte d \<notin> {97 .. 122}" "d \<notin> set s" "d \<in> set (to_lower s)"
  then obtain x where x: "x \<in> set s" "lower_char x = d" unfolding to_lower_def set_map by (elim imageE) simp
  from d(1) x(2) have "x = d" by (rule lower_char_keeps)
  with x(1) d(2) show False by simp
qed

lemma to_lower_without:
  "CHR '':'' \<notin> set s \<Longrightarrow> CHR '':'' \<notin> set (to_lower s)"
  "CHR 0x0A \<notin> set s \<Longrightarrow> CHR 0x0A \<notin> set (to_lower s)"
  by (rule to_lower_keeps_out; simp add: byte_def)+

lemma trim_subset: "c \<in> set (trim s) \<Longrightarrow> c \<in> set s"
  unfolding trim_def by (metis set_dropWhileD set_rev)

lemma header_value_no_newline:
  assumes "to_str_plain S"
  shows "CHR 0x0A \<notin> set (header_value_of S r name)"
proof (cases "header_text S (req_headers r) name")
  case (Some v)
  then have "CHR 0x0A \<notin> set v"
    using assms by (auto simp: header_text_def to_str_plain_def bind_eq_Some_conv)
  with Some trim_subset show ?thesis by (auto simp: header_value_of_def)
qed (simp add: header_value_of_def)

text \<open>Header names are looked up without regard to case.\<close>

definition case_insensitive :: "request \<Rightarrow> bool" where
  "case_insensitive r \<longleftrightarrow> (\<forall>n m. to_lower n = to_lower m \<longrightarrow> req_headers r n = req_headers r m)"

lemma header_lines_bind:
  assumes "mset (map (header_line S r) names) = mset (map (header_line S r') names)"
    and "\<forall>n \<in> set names. CHR '':'' \<notin> set n" and "case_insensitive r'" and "n \<in> set names"
  shows "header_value_of S r n = header_value_of S r' n"
proof -
  have "header_line S r n \<in> header_line S r' ` set names"
    using assms(1,4) by (metis imageI list.set_map mset_eq_setD)
  then obtain m where m: "m \<in> set names" "header_line S r n = header_line S r' m" by blast
  have "CHR '':'' \<notin> set (to_lower n)" "CHR '':'' \<notin> set (to_lower m)"
    using assms(2,4) m(1) to_lower_without(1) by blast+
  then have "to_lower n = to_lower m" "header_value_of S r n = header_value_of S r' m"
    using m(2) append_sep_inj unfolding header_line_def by metis+
  with assms(3) show ?thesis by (metis case_insensitive_def header_value_of_def header_text_def)
qed

section \<open>The canonical request read back\<close>

lemma split_lines:
  "ss \<noteq> [] \<Longrightarrow> \<forall>s \<in> set ss. CHR 0x0A \<notin> set s \<Longrightarrow> split_on CHR 0x0A (lines ss) = ss"
  unfolding lines_def by (rule split_on_join)

lemma split_canonical_request:
  assumes "CHR 0x0A \<notin> set m" "CHR 0x0A \<notin> set u" "CHR 0x0A \<notin> set q" "CHR 0x0A \<notin> set sh" "CHR 0x0A \<notin> set h"
  shows "split_on CHR 0x0A (canonical_request m u q hs sh h) = m # u # q # split_on CHR 0x0A hs @ [[], sh, h]"
  using assms
  by (simp add: canonical_request_def lines_def split_on_append split_on_none split_on_append_sep)

text \<open>What a request is signed with: the date and time, the list of signed headers and the hash of
  the payload, taken from where the signature is taken.\<close>

definition header_parts :: "sig_env \<Rightarrow> request \<Rightarrow> string list" where
  "header_parts S r =
     map trim (split_on CHR '','' (trim_start_matches ''AWS4-HMAC-SHA256 ''
       (or_default (header_text S (req_headers r) ''authorization''))))"

definition query_of :: "sig_env \<Rightarrow> request \<Rightarrow> string \<Rightarrow> string" where
  "query_of S r n =
     (case url_query_pairs S (''http://example.com'' @ req_uri r) of
        None \<Rightarrow> [] | Some pairs \<Rightarrow> or_default (query_map pairs n))"

definition signed_list :: "sig_env \<Rightarrow> request \<Rightarrow> string" where
  "signed_list S r =
     (if from_authorization_header S r \<noteq> None then or_default (header_param ''SignedHeaders='' (header_parts S r))
      else query_of S r ''x-amz-signedheaders'')"

definition signed_time :: "sig_env \<Rightarrow> request \<Rightarrow> string" where
  "signed_time S r =
     (if from_authorization_header S r \<noteq> None then or_default (header_text S (req_headers r) ''x-amz-date'')
      else query_of S r ''x-amz-date'')"

definition payload_hash :: "sig_env \<Rightarrow> request \<Rightarrow> string" where
  "payload_hash S r =
     (if from_authorization_header S r \<noteq> None then
        (case header_text S (req_headers r) ''x-amz-content-sha256'' of None \<Rightarrow> empty_body_hash | Some h \<Rightarrow> h)
      else ''UNSIGNED-PAYLOAD'')"

definition canonical_of :: "sig_env \<Rightarrow> request \<Rightarrow> string" where
  "canonical_of S r =
     canonical_request (req_method r) (canonicalize_uri S (req_path r))
       (or_default (canonicalize_query_string S (req_uri r)))
       (canonicalize_headers S (req_headers r) (split_on CHR '';'' (signed_list S r)))
       (signed_list S r) (payload_hash S r)"

lemma from_header_string_to_sign:
  assumes "from_authorization_header S r = Some a"
  shows "ar_string_to_sign a =
    string_to_sign S (signed_time S r) (ar_date a) (ar_region a) (ar_service a) (canonical_of S r)"
  using assms
  by (auto simp: from_authorization_header_def canonical_of_def signed_time_def signed_list_def payload_hash_def
      header_parts_def or_default_def Let_def assms split: option.splits if_splits list.splits)

lemma from_query_string_to_sign:
  assumes "from_query_params S r = Some a" and "from_authorization_header S r = None"
  shows "ar_string_to_sign a =
    string_to_sign S (signed_time S r) (ar_date a) (ar_region a) (ar_service a) (canonical_of S r)"
  using assms
  by (auto simp: from_query_params_def canonical_of_def signed_time_def signed_list_def payload_hash_def
      query_of_def or_default_def Let_def split: option.splits if_splits list.splits)

lemma signed_string:
  "extract_signature S r = Some a \<Longrightarrow> ar_string_to_sign a =
    string_to_sign S (signed_time S r) (ar_date a) (ar_region a) (ar_service a) (canonical_of S r)"
  by (auto simp: extract_signature_def from_header_string_to_sign from_query_string_to_sign split: option.splits)

section \<open>Equal signatures\<close>

definition collide :: "('a \<Rightarrow> 'b) \<Rightarrow> 'a \<Rightarrow> 'a \<Rightarrow> bool" where
  "collide f x y \<longleftrightarrow> x \<noteq> y \<and> f x = f y"

definition signing_key :: "sig_env \<Rightarrow> auth_config \<Rightarrow> authentication_request \<Rightarrow> bytes" where
  "signing_key S c a =
     sign S (sign S (sign S (sign S (''AWS4'' @ secret_key c) (ar_date a)) (ar_region a)) (ar_service a)) ''aws4_request''"

lemma is_valid_signing_key:
  "is_valid S a c \<Longrightarrow> ar_signature a = hex_encode S (hmac_sha256 S (signing_key S c a) (ar_string_to_sign a))"
  by (auto simp: is_valid_def signing_key_def sign_def Let_def split: if_splits)

lemma string_to_sign_hash:
  assumes "hex_laws S"
  shows "last (split_on CHR 0x0A (string_to_sign S dt d rg sv c)) = hex_encode S (sha256 S c)"
proof -
  have "CHR 0x0A \<notin> set ''0123456789abcdef''" by code_simp
  then have "CHR 0x0A \<notin> set (hex_encode S (sha256 S c))" using assms unfolding hex_laws_def by blast
  then have "split_on CHR 0x0A (hex_encode S (sha256 S c)) = [hex_encode S (sha256 S c)]" by (rule split_on_none)
  moreover have "string_to_sign S dt d rg sv c =
      (''AWS4-HMAC-SHA256'' @ CHR 0x0A # dt @ CHR 0x0A # d @ ''/'' @ rg @ ''/'' @ sv @ ''/aws4_request'')
        @ CHR 0x0A # hex_encode S (sha256 S c)"
    by (simp add: string_to_sign_def lines_def)
  ultimately show ?thesis by (simp only: split_on_append last_append last.simps) simp
qed

lemma payload_hash_no_newline:
  assumes "to_str_plain S"
  shows "CHR 0x0A \<notin> set (payload_hash S r)"
proof -
  have "CHR 0x0A \<notin> set empty_body_hash" "CHR 0x0A \<notin> set ''UNSIGNED-PAYLOAD''" by code_simp+
  then show ?thesis
    using assms by (auto simp: payload_hash_def header_text_def to_str_plain_def bind_eq_Some_conv split: option.split)
qed

text \<open>A list of header names as clients write it.\<close>

definition plain_list :: "string \<Rightarrow> bool" where
  "plain_list sh \<longleftrightarrow> CHR '':'' \<notin> set sh \<and> CHR 0x0A \<notin> set sh"

lemma set_split_on: "x \<in> set (split_on c s) \<Longrightarrow> d \<in> set x \<Longrightarrow> d \<in> set s"
proof (induction s arbitrary: x)
  case (Cons y ys)
  obtain q qs where "split_on c ys = q # qs" by (cases "split_on c ys") auto
  with Cons show ?case by (fastforce split: if_splits)
qed simp

lemma split_canonical_of:
  assumes "percent_bytes S" "to_str_plain S" "CHR 0x0A \<notin> set (req_method r)" "plain_list (signed_list S r)"
  shows "split_on CHR 0x0A (canonical_of S r) =
    req_method r # canonicalize_uri S (req_path r) # or_default (canonicalize_query_string S (req_uri r)) #
    sort (map (header_line S r) (split_on CHR '';'' (signed_list S r))) @ [[], signed_list S r, payload_hash S r]"
proof -
  let ?names = "split_on CHR '';'' (signed_list S r)"
  have no_newline: "CHR 0x0A \<notin> set (signed_list S r)" using assms(4) by (simp add: plain_list_def)
  have "CHR 0x0A \<notin> set (header_line S r n)" if "n \<in> set ?names" for n
    using to_lower_without(2) [of n] set_split_on [OF that] no_newline header_value_no_newline [OF assms(2)]
    by (auto simp: header_line_def)
  then have plain: "\<forall>s \<in> set (sort (map (header_line S r) ?names)). CHR 0x0A \<notin> set s" by simp
  have "length (sort (map (header_line S r) ?names)) \<noteq> 0" by simp
  then have "sort (map (header_line S r) ?names) \<noteq> []" by (metis length_0_conv)
  then have "split_on CHR 0x0A (canonicalize_headers S (req_headers r) ?names) = sort (map (header_line S r) ?names)"
    unfolding canonicalize_headers_lines using plain by (rule split_lines)
  then show ?thesis
    unfolding canonical_of_def
    by (simp only: split_canonical_request [OF assms(3) canonicalize_uri_no_newline [OF assms(1)]
        canonical_query_no_newline [OF assms(1)] no_newline payload_hash_no_newline [OF assms(2)]])
qed

text \<open>Requests that agree in everything that is signed.\<close>

definition same_signed :: "sig_env \<Rightarrow> request \<Rightarrow> request \<Rightarrow> bool" where
  "same_signed S r r' \<longleftrightarrow>
     req_method r = req_method r' \<and> req_path r = req_path r' \<and>
     mset (signed_params S (req_uri r)) = mset (signed_params S (req_uri r')) \<and>
     signed_list S r = signed_list S r' \<and> payload_hash S r = payload_hash S r' \<and>
     (\<forall>n \<in> set (split_on CHR '';'' (signed_list S r)). header_value_of S r n = header_value_of S r' n)"

lemma canonical_of_binds:
  assumes "percent_bytes S" "to_str_plain S" and "case_insensitive r'"
    and "CHR 0x0A \<notin> set (req_method r)" "CHR 0x0A \<notin> set (req_method r')"
    and "plain_list (signed_list S r)" "plain_list (signed_list S r')"
    and "canonical_of S r = canonical_of S r'"
  shows "same_signed S r r'"
proof -
  let ?lines = "\<lambda>r. sort (map (header_line S r) (split_on CHR '';'' (signed_list S r)))"
  have eq: "req_method r # canonicalize_uri S (req_path r) # or_default (canonicalize_query_string S (req_uri r)) #
      ?lines r @ [[], signed_list S r, payload_hash S r] =
    req_method r' # canonicalize_uri S (req_path r') # or_default (canonicalize_query_string S (req_uri r')) #
      ?lines r' @ [[], signed_list S r', payload_hash S r']"
    using split_canonical_of [OF assms(1,2,4,6)] split_canonical_of [OF assms(1,2,5,7)] assms(8) by argo
  then have heads: "req_method r = req_method r'" "canonicalize_uri S (req_path r) = canonicalize_uri S (req_path r')"
      "or_default (canonicalize_query_string S (req_uri r)) = or_default (canonicalize_query_string S (req_uri r'))"
    and tails: "?lines r @ [[], signed_list S r, payload_hash S r] = ?lines r' @ [[], signed_list S r', payload_hash S r']"
    by (simp_all only: list.inject)
  from tails have "?lines r = ?lines r' \<and> [[], signed_list S r, payload_hash S r] = [[], signed_list S r', payload_hash S r']"
    by (rule append_eq_append_conv [THEN iffD1, rotated]) simp
  then have ls: "?lines r = ?lines r'"
    and "[[], signed_list S r, payload_hash S r] = [[], signed_list S r', payload_hash S r']"
    by (rule conjunct1, elim conjE)
  then have list: "signed_list S r = signed_list S r'" and hash: "payload_hash S r = payload_hash S r'"
    by (simp_all only: list.inject)
  let ?names = "split_on CHR '';'' (signed_list S r)"
  have ms: "mset (map (header_line S r) ?names) = mset (map (header_line S r') ?names)"
    using ls unfolding list by (metis mset_sort)
  have "\<forall>n \<in> set ?names. CHR '':'' \<notin> set n"
    using assms(6) set_split_on unfolding plain_list_def by blast
  from header_lines_bind [OF ms this assms(3)] heads list hash canonicalize_uri_inj [OF assms(1) heads(2)]
    canonical_query_binds [OF assms(1) heads(3)]
  show ?thesis by (simp only: same_signed_def) blast
qed

end
