(* ===== verification/BindingProps.thy ===== *)
theory BindingProps imports SigV4Binding AuthProps begin

text \<open>
  What an accepted signature vouches for (\<^verbatim>\<open>src/src/s3/authorization.rs\<close>): the method, the
  path, the parameters and the signed headers of the request, and not its body.
\<close>

text \<open>C7: A signature vouches for one request. When two requests are accepted under the same credentials with
  the same signature, they have the same method, path, query parameters (up to order), list of signed
  headers, values of these headers and payload hash; otherwise the two themselves are a collision of HMAC
  (keys and strings to sign) or of SHA-256 (canonical requests). It does not matter whether either signature came in
  the header or in the query.\<close>

theorem accepted_signature_binds_request:
  assumes laws: "percent_bytes S" "to_str_plain S" "hex_laws S" "hex_injective S"
    and "extract_signature S r = Some a" "is_valid S a c"
    and "extract_signature S r' = Some a'" "is_valid S a' c"
    and "ar_signature a = ar_signature a'"
    and "case_insensitive r'"
    and "CHR 0x0A \<notin> set (req_method r)" "CHR 0x0A \<notin> set (req_method r')"
    and "plain_list (signed_list S r)" "plain_list (signed_list S r')"
  shows "same_signed S r r' \<or>
    collide (\<lambda>(key, text). hmac_sha256 S key text)
      (signing_key S c a, ar_string_to_sign a) (signing_key S c a', ar_string_to_sign a') \<or>
    collide (sha256 S) (canonical_of S r) (canonical_of S r')"
proof (cases "ar_string_to_sign a = ar_string_to_sign a'")
  case False
  have "hex_encode S (hmac_sha256 S (signing_key S c a) (ar_string_to_sign a)) =
      hex_encode S (hmac_sha256 S (signing_key S c a') (ar_string_to_sign a'))"
    using is_valid_signing_key [OF assms(6)] is_valid_signing_key [OF assms(8)] assms(9) by argo
  then have "hmac_sha256 S (signing_key S c a) (ar_string_to_sign a) =
      hmac_sha256 S (signing_key S c a') (ar_string_to_sign a')"
    by (rule injD [OF laws(4) [unfolded hex_injective_def]])
  with False show ?thesis by (simp add: collide_def)
next
  case True
  then have "string_to_sign S (signed_time S r) (ar_date a) (ar_region a) (ar_service a) (canonical_of S r) =
      string_to_sign S (signed_time S r') (ar_date a') (ar_region a') (ar_service a') (canonical_of S r')"
    by (simp only: signed_string [OF assms(5)] signed_string [OF assms(7)])
  then have "hex_encode S (sha256 S (canonical_of S r)) = hex_encode S (sha256 S (canonical_of S r'))"
    using string_to_sign_hash [OF laws(3)] by metis
  then have "sha256 S (canonical_of S r) = sha256 S (canonical_of S r')"
    by (rule injD [OF laws(4) [unfolded hex_injective_def]])
  then show ?thesis
    using canonical_of_binds [OF laws(1,2) assms(10-14)] by (auto simp: collide_def)
qed

section \<open>Instances\<close>

lemma ascii_hex_Cons: "ascii_hex (c # b) = hex_digit (byte c div 16) # hex_digit (byte c mod 16) # ascii_hex b"
  by (simp add: ascii_hex_def)

lemma byte_digits: "byte c div 16 < 16" "byte c mod 16 < 16"
  by (simp_all add: byte_def less_mult_imp_div_less)

lemma ascii_hex_inj: "ascii_hex a = ascii_hex b \<Longrightarrow> a = b"
proof (induction a arbitrary: b)
  case Nil
  then show ?case by (cases b) (simp_all add: ascii_hex_def)
next
  case (Cons c a)
  from Cons.prems obtain d b' where b: "b = d # b'" by (cases b) (simp_all add: ascii_hex_def)
  have digits: "x = y" if "hex_digit x = hex_digit y" "x < 16" "y < 16" for x y
    using that by (metis option.inject to_digit_hex_digit)
  from Cons.prems b have "hex_digit (byte c div 16) = hex_digit (byte d div 16)"
    "hex_digit (byte c mod 16) = hex_digit (byte d mod 16)" "ascii_hex a = ascii_hex b'"
    by (simp_all add: ascii_hex_Cons)
  with digits byte_digits have "byte c div 16 = byte d div 16" "byte c mod 16 = byte d mod 16" "a = b'"
    using Cons.IH by blast+
  then have "byte c = byte d" by (metis div_mult_mod_eq)
  with b \<open>a = b'\<close> show ?case by (simp add: byte_def)
qed

lemma demo_hex_injective: "hex_injective demo_sig"
  using ascii_hex_inj by (auto simp: hex_injective_def demo_sig_def intro: injI)

lemma demo_percent_bytes: "percent_bytes demo_sig"
proof -
  let ?enc = "\<lambda>c. CHR ''%'' # ascii_hex [c]"
  have "list_all (\<lambda>d. hex_digit d \<in> set ''0123456789ABCDEFabcdef'') [0 ..< 16]" by code_simp
  then have digit: "hex_digit d \<in> set ''0123456789ABCDEFabcdef''" if "d < 16" for d
    using that by (simp only: list_all_iff set_upt atLeastLessThan_iff) simp
  have "\<exists>x y. ?enc c = [CHR ''%'', x, y] \<and> {x, y} \<subseteq> set ''0123456789ABCDEFabcdef''" for c
    using digit [OF byte_digits(1)] digit [OF byte_digits(2)]
    by (intro exI conjI insert_subsetI empty_subsetI) (simp_all only: ascii_hex_def list.map concat.simps append.simps)
  moreover have "inj ?enc" by (rule injI) (use ascii_hex_inj in blast)
  moreover have "\<forall>s P. percent_encode demo_sig s P = concat (map (\<lambda>c. if P c \<or> 128 \<le> byte c then ?enc c else [c]) s)"
    by (simp add: demo_sig_def)
  moreover have "\<forall>c. byte c < 128 \<longrightarrow> non_alphanumeric demo_sig c =
      (\<not> (byte c \<in> {48 .. 57} \<or> byte c \<in> {65 .. 90} \<or> byte c \<in> {97 .. 122}))"
    by (simp add: demo_sig_def)
  ultimately show ?thesis unfolding percent_bytes_def by (intro conjI exI [of _ ?enc] allI) (blast | rule TrueI)+
qed

lemma demo_to_str_plain: "to_str_plain demo_sig"
proof -
  have "\<not> visible CHR 0x0A" by code_simp
  then show ?thesis by (auto simp: to_str_plain_def demo_sig_def demo_to_str_def list_all_iff split: if_splits)
qed

text \<open>A presigned \<open>GET\<close>, and the same with its parameters in another order and with a body.\<close>

definition presigned_request :: "(string \<times> string) list \<Rightarrow> bytes \<Rightarrow> request" where
  "presigned_request params data =
     \<lparr>req_method = ''GET'',
      req_uri = ''/b/k-1?'' @ join_with ''&'' (map (\<lambda>(k, v). k @ ''='' @ v) (params @ [(''X-Amz-Signature'', presigned_sig)])),
      req_path = ''/b/k-1'', req_headers = (\<lambda>n. [''host'' \<mapsto> ''s3.local''] (to_lower n)),
      req_body = Plain \<lparr>stream_data = data, stream_fault = False\<rparr>\<rparr>"

lemma presigned_extracted:
  "extract_signature demo_sig (presigned_request demo_params []) = Some presigned_auth"
  "extract_signature demo_sig (presigned_request (rev demo_params) ''payload'') = Some presigned_auth"
proof -
  have none: "req_headers (presigned_request ps data) ''authorization'' = None" for ps data
  proof -
    have "to_lower ''authorization'' \<noteq> ''host''" by code_simp
    then show ?thesis by (simp add: presigned_request_def)
  qed
  show "extract_signature demo_sig (presigned_request demo_params []) = Some presigned_auth"
    by (rule presigned_extract [OF none], code_simp, code_simp)
  show "extract_signature demo_sig (presigned_request (rev demo_params) ''payload'') = Some presigned_auth"
    by (rule presigned_extract [OF none], code_simp, code_simp)
qed

lemma presigned_no_header: "from_authorization_header demo_sig (presigned_request ps data) = None"
proof -
  have "to_lower ''authorization'' \<noteq> ''host''" by code_simp
  then show ?thesis by (simp add: from_authorization_header_def header_text_def presigned_request_def)
qed

lemma presigned_lists:
  "signed_list demo_sig (presigned_request demo_params []) = ''host''"
  "signed_list demo_sig (presigned_request (rev demo_params) ''payload'') = ''host''"
  "payload_hash demo_sig (presigned_request ps data) = ''UNSIGNED-PAYLOAD''"
proof -
  have "query_of demo_sig (presigned_request demo_params []) ''x-amz-signedheaders'' = ''host''"
    "query_of demo_sig (presigned_request (rev demo_params) ''payload'') ''x-amz-signedheaders'' = ''host''"
    by code_simp+
  then show "signed_list demo_sig (presigned_request demo_params []) = ''host''"
    "signed_list demo_sig (presigned_request (rev demo_params) ''payload'') = ''host''"
    "payload_hash demo_sig (presigned_request ps data) = ''UNSIGNED-PAYLOAD''"
    by (simp_all add: signed_list_def payload_hash_def presigned_no_header)
qed

text \<open>The demonstration hash keeps the end of a string, so the second disjunct of the theorem cannot hold here,
  and the third does not either: the canonical requests are equal.\<close>

lemma presigned_canonical:
  "canonical_of demo_sig (presigned_request demo_params []) =
   canonical_of demo_sig (presigned_request (rev demo_params) ''payload'')"
proof -
  let ?sig = "[(''X-Amz-Signature'', presigned_sig)]"
  have pairs: "url_query_pairs demo_sig (''http://example.com/'' @ req_uri (presigned_request demo_params [])) = Some (demo_params @ ?sig)"
    "url_query_pairs demo_sig (''http://example.com/'' @ req_uri (presigned_request (rev demo_params) ''payload'')) = Some (rev demo_params @ ?sig)"
    unfolding demo_sig_def sig_env.select_convs by code_simp+
  have kept: "filter (\<lambda>(k, _). to_lower k \<noteq> ''x-amz-signature'') demo_params = demo_params"
    "filter (\<lambda>(k, _). to_lower k \<noteq> ''x-amz-signature'') ?sig = []"
    by code_simp+
  have "canonicalize_query_string demo_sig (req_uri (presigned_request demo_params [])) =
      canonicalize_query_string demo_sig (req_uri (presigned_request (rev demo_params) ''payload''))"
    by (rule canonical_query_order [OF pairs]) (simp only: filter_append kept flip: rev_filter, simp)
  then show ?thesis
    by (simp only: canonical_of_def presigned_lists) (simp add: presigned_request_def)
qed

theorem accepted_signature_binds_request_witness:
  "same_signed demo_sig (presigned_request demo_params []) (presigned_request (rev demo_params) ''payload'')"
proof -
  have "case_insensitive (presigned_request ps data)" for ps data
    by (simp add: case_insensitive_def presigned_request_def)
  moreover have "CHR 0x0A \<notin> set (req_method (presigned_request ps data))" for ps data
    by (simp add: presigned_request_def)
  moreover have "plain_list ''host''" by code_simp
  ultimately have "same_signed demo_sig (presigned_request demo_params []) (presigned_request (rev demo_params) ''payload'') \<or>
    collide (\<lambda>(key, text). hmac_sha256 demo_sig key text)
      (signing_key demo_sig demo_auth presigned_auth, ar_string_to_sign presigned_auth)
      (signing_key demo_sig demo_auth presigned_auth, ar_string_to_sign presigned_auth) \<or>
    collide (sha256 demo_sig) (canonical_of demo_sig (presigned_request demo_params []))
      (canonical_of demo_sig (presigned_request (rev demo_params) ''payload''))"
    by (intro accepted_signature_binds_request [OF demo_percent_bytes demo_to_str_plain demo_hex_laws
          demo_hex_injective presigned_extracted(1) presigned_valid presigned_extracted(2)
          presigned_valid refl]) (simp_all add: presigned_lists)
  then show ?thesis by (simp add: collide_def presigned_canonical)
qed

section \<open>Paths that are encoded\<close>

text \<open>C28: A key with an encoded character cannot be signed for. The server encodes the path of the request
  line once more, which the documentation for S3 does not, so a request that a client signs by the
  documentation is refused as soon as a byte of its path needs encoding (the percent sign of \<open>%20\<close>
  does): it is authenticated only when the two strings to sign have the same signature, or the two canonical
  requests the same hash.\<close>

theorem encoded_path_is_refused:
  assumes "percent_bytes S" and "hex_laws S" "hex_injective S" and "to_str_laws S"
    and "ch \<in> set (req_path r)" "ch \<noteq> CHR ''/''" "\<not> unreserved S ch"
    and "CHR 0x0A \<notin> set (req_method r)" "CHR 0x0A \<notin> set (req_path r)"
    and names: "names \<noteq> []" "\<forall>n \<in> set names. token n \<and> to_lower n = n \<and> n \<noteq> ''authorization''"
    and tokens: "\<forall>t \<in> {access_key c, date, region, service}. token t"
    and "header_text S (req_headers r) ''x-amz-date'' = Some dt"
    and "header_text S (req_headers r) ''x-amz-content-sha256'' = Some h"
  shows "\<not> authenticated S c (sign_in_header S c dt date region service names pairs h r) \<or>
    collide (aws_signature S (secret_key c) date region service)
      (aws_string_to_sign S dt date region service (server_canonical S r names h))
      (aws_string_to_sign S dt date region service (aws_canonical_request S r pairs names h)) \<or>
    collide (sha256 S) (server_canonical S r names h) (aws_canonical_request S r pairs names h)"
proof -
  let ?to_sign = "aws_string_to_sign S dt date region service"
  let ?mine = "server_canonical S r names h" and ?theirs = "aws_canonical_request S r pairs names h"
  have path: "canonicalize_uri S (req_path r) \<noteq> req_path r"
    using canonicalize_uri_fixed [OF assms(1) _ assms(5,6)] assms(7) by blast
  obtain x y where xy:
      "?mine = req_method r @ CHR 0x0A # canonicalize_uri S (req_path r) @ CHR 0x0A # x"
      "?theirs = req_method r @ CHR 0x0A # req_path r @ CHR 0x0A # y"
    by (simp add: server_canonical_def canonical_request_def lines_def aws_canonical_request_def)
  have differ: "?mine \<noteq> ?theirs"
    using path append_sep_inj canonicalize_uri_no_newline [OF assms(1)] assms(9) unfolding xy
    by (metis append_sep_inj same_append_eq list.inject)
  have "hex_encode S (sha256 S ?mine) = hex_encode S (sha256 S ?theirs)" if "?to_sign ?mine = ?to_sign ?theirs"
    using that string_to_sign_hash [OF assms(2)] by (metis string_to_sign_agree)
  then have "sha256 S ?mine = sha256 S ?theirs" if "?to_sign ?mine = ?to_sign ?theirs"
    using that assms(3) unfolding hex_injective_def by (metis injD)
  moreover have "aws_signature S (secret_key c) date region service (?to_sign ?mine) =
      aws_signature S (secret_key c) date region service (?to_sign ?theirs)"
    if "authenticated S c (sign_in_header S c dt date region service names pairs h r)"
    using that signed_header_extracted [OF assms(2,4) names tokens assms(13,14), of pairs]
    by (auto simp: authenticated_def is_valid_iff_signature client_signature_def)
  ultimately show ?thesis using differ unfolding collide_def by blast
qed

text \<open>Hash functions without collisions, and a key with a blank.\<close>

definition injective_sig :: sig_env where
  "injective_sig = demo_sig\<lparr>hmac_sha256 := (\<lambda>key d. d), sha256 := (\<lambda>d. d)\<rparr>"

definition blank_request :: request where
  "blank_request = (demo_request ''/b/a%20b'')\<lparr>req_path := ''/b/a%20b''\<rparr>"

theorem encoded_path_is_refused_witness:
  "\<not> authenticated injective_sig demo_auth
     (sign_in_header injective_sig demo_auth ''20250101T000000Z'' ''20250101'' ''ipfs'' ''s3'' demo_names []
        ''abc'' blank_request)"
proof -
  have laws: "percent_bytes injective_sig" "hex_laws injective_sig" "hex_injective injective_sig"
      "to_str_laws injective_sig"
    using demo_percent_bytes demo_hex_laws demo_hex_injective demo_to_str_laws
    by (simp_all add: injective_sig_def percent_bytes_def hex_laws_def hex_injective_def to_str_laws_def)
  have path: "CHR ''%'' \<in> set (req_path blank_request)" "CHR ''%'' \<noteq> CHR ''/''"
      "CHR 0x0A \<notin> set (req_method blank_request)" "CHR 0x0A \<notin> set (req_path blank_request)"
    by (simp_all add: blank_request_def demo_request_def)
  have reserved: "\<not> unreserved injective_sig CHR ''%''"
    using encode_set_percent [OF laws(1)] by (simp add: unreserved_def)
  have same_text: "header_text injective_sig (req_headers blank_request) n = header_text demo_sig (req_headers (demo_request u)) n" for n u
    by (simp add: header_text_def blank_request_def injective_sig_def demo_request_def)
  have "\<not> collide (aws_signature injective_sig k d g v) a b" for k d g v a b
    using laws(3) by (auto simp: collide_def aws_signature_def injective_sig_def hex_injective_def dest: injD)
  moreover have "\<not> collide (sha256 injective_sig) a b" for a b
    by (simp add: collide_def injective_sig_def)
  ultimately show ?thesis
    using encoded_path_is_refused [OF laws path(1,2) reserved path(3,4) demo_request_facts(2,4,5)
        demo_request_facts(6,7) [folded same_text]] by blast
qed

text \<open>What it does not vouch for: the body. A request that is accepted is accepted with any other body, which the
  handler then receives; the signed \<open>x-amz-content-sha256\<close> is not compared with it.\<close>

theorem body_is_not_signed:
  "authenticated S c (r\<lparr>req_body := b\<rparr>) = authenticated S c r"
proof (cases r)
  case (fields m u p h b')
  then have "extract_signature S (r\<lparr>req_body := b\<rparr>) = extract_signature S r"
    by (simp only: extract_signature_def from_authorization_header_def from_query_params_def
        request.select_convs request.update_convs)
  then show ?thesis by (simp add: authenticated_def)
qed

end
