(* ===== verification/ChunkGrammar.thy ===== *)
theory ChunkGrammar imports Chunks begin

text \<open>
  The language that \<open>streaming_chunk_body\<close> (\<^verbatim>\<open>src/src/s3/authorization.rs\<close>) accepts, as a
  grammar: which bodies decode without an error, and to which chunks.
\<close>

text \<open>A size: hexadecimal digits in valid UTF-8, no semicolon among them.\<close>

definition size_field :: "bytes \<Rightarrow> nat \<Rightarrow> bool" where
  "size_field s n \<longleftrightarrow> CHR '';'' \<notin> set s \<and> utf8_valid s \<and> usize_from_str_radix s 16 = Inr n"

text \<open>A body with its chunks. The signature and the line break after a chunk are any 82 and any two bytes;
  whatever follows the semicolon of an empty chunk is not read. At the end of the stream a size of zero may
  miss its semicolon; its last byte is then dropped in place of it.\<close>

inductive framed :: "bool \<Rightarrow> bytes \<Rightarrow> bytes list \<Rightarrow> bool" for fault where
  last_chunk: "size_field s 0 \<Longrightarrow> framed fault (s @ CHR '';'' # rest) []"
| cut_size: "\<not> fault \<Longrightarrow> size_field s 0 \<Longrightarrow> x \<noteq> CHR '';'' \<Longrightarrow> framed fault (s @ [x]) []"
| chunk: "size_field s (length c) \<Longrightarrow> c \<noteq> [] \<Longrightarrow> length c \<le> isize_max \<Longrightarrow> length sig = signature_len \<Longrightarrow>
    length eol = 2 \<Longrightarrow> framed fault rest cs \<Longrightarrow>
    framed fault (s @ CHR '';'' # sig @ c @ eol @ rest) (c # cs)"

lemma next_chunk_size:
  assumes "size_field s n" and "stream_data b = s @ CHR '';'' # rest"
  shows "next_chunk b =
    (if n = 0 then EndOfChunks
     else (case read_exact signature_len (b\<lparr>stream_data := rest\<rparr>) of
       Inl e \<Rightarrow> ChunkError e
     | Inr (_, b2) \<Rightarrow> if isize_max < n then ChunkPanic
         else (case read_exact n b2 of
           Inl e \<Rightarrow> ChunkError e
         | Inr (chunk, b3) \<Rightarrow> (case read_exact 2 b3 of
             Inl e \<Rightarrow> ChunkError e
           | Inr (_, b4) \<Rightarrow> NextChunk chunk b4))))"
proof -
  have "read_until CHR '';'' b = Inr (s @ [CHR '';''], b\<lparr>stream_data := rest\<rparr>)"
    using assms by (intro read_until_here) (simp_all add: size_field_def)
  then show ?thesis using assms(1) by (simp add: next_chunk_def size_field_def Let_def)
qed

lemma next_chunk_framed:
  assumes "size_field s (length c)" and "c \<noteq> []" and "length c \<le> isize_max" and "length sig = signature_len"
    and "length eol = 2" and "stream_data b = s @ CHR '';'' # sig @ c @ eol @ rest"
  shows "next_chunk b = NextChunk c (b\<lparr>stream_data := rest\<rparr>)"
  using assms by (subst next_chunk_size [OF assms(1) assms(6)]) (simp add: read_exact_def)

lemma next_chunk_cut:
  assumes "size_field s 0" and "x \<noteq> CHR '';''" and "stream_data b = s @ [x]" and "\<not> stream_fault b"
  shows "next_chunk b = EndOfChunks"
  using assms by (simp add: next_chunk_def read_until_def size_field_def Let_def)

text \<open>The converses.\<close>

lemma next_chunk_endE:
  assumes "next_chunk b = EndOfChunks"
  shows "framed (stream_fault b) (stream_data b) []"
proof -
  obtain s b1 where until: "read_until CHR '';'' b = Inr (s, b1)" and "s \<noteq> []"
    using assms by (auto simp: next_chunk_def split: sum.splits if_splits)
  then obtain t x where s: "s = t @ [x]" by (metis rev_exhaust)
  have size: "utf8_valid t" "usize_from_str_radix t 16 = Inr 0"
    using assms by (auto simp: next_chunk_def until s Let_def split: sum.splits if_splits prod.splits)
  show ?thesis
  proof (cases "CHR '';'' \<in> set (stream_data b)")
    case True
    then obtain p q where pq: "stream_data b = p @ CHR '';'' # q" "CHR '';'' \<notin> set p"
      by (meson split_list_first)
    with until s have "t = p" using read_until_here [OF pq(2) pq(1)] by simp
    with pq size show ?thesis by (simp add: last_chunk size_field_def)
  next
    case False
    with until s have "\<not> stream_fault b" "stream_data b = t @ [x]"
      by (auto simp: read_until_def split: if_splits)
    with False size show ?thesis by (auto intro!: cut_size simp: size_field_def)
  qed
qed

lemma read_exactD: "read_exact n b = Inr (x, b') \<Longrightarrow> stream_data b = x @ stream_data b' \<and> length x = n \<and> stream_fault b' = stream_fault b"
  by (auto simp: read_exact_def split: if_splits)

lemma next_chunk_nextE:
  assumes "next_chunk b = NextChunk c b'"
  obtains s sig eol where "stream_data b = s @ CHR '';'' # sig @ c @ eol @ stream_data b'"
    and "size_field s (length c)" and "c \<noteq> []" and "length c \<le> isize_max" and "length sig = signature_len"
    and "length eol = 2" and "stream_fault b' = stream_fault b"
proof (cases "CHR '';'' \<in> set (stream_data b)")
  case True
  then obtain p q where pq: "stream_data b = p @ CHR '';'' # q" "CHR '';'' \<notin> set p"
    by (meson split_list_first)
  have until: "read_until CHR '';'' b = Inr (p @ [CHR '';''], b\<lparr>stream_data := q\<rparr>)"
    by (rule read_until_here [OF pq(2,1)])
  obtain sig b2 eol b3 n where steps: "read_exact signature_len (b\<lparr>stream_data := q\<rparr>) = Inr (sig, b2)"
      "read_exact n b2 = Inr (c, b3)" "read_exact 2 b3 = Inr (eol, b')"
    and n: "utf8_valid p" "usize_from_str_radix p 16 = Inr n" "n \<noteq> 0" "n \<le> isize_max"
    using assms by (auto simp: next_chunk_def until Let_def split: sum.splits if_splits prod.splits)
  note r = steps [THEN read_exactD]
  show thesis
  proof (rule that)
    show "stream_data b = p @ CHR '';'' # sig @ c @ eol @ stream_data b'" using pq(1) r by simp
    show "size_field p (length c)" using pq(2) n r(2) by (simp add: size_field_def)
  qed (use n r in auto)
next
  case False
  have "read_exact signature_len (b\<lparr>stream_data := []\<rparr>) = Inl IoRead"
    by (simp add: read_exact_def signature_len_def)
  with False assms have False
    by (auto simp: next_chunk_def read_until_def Let_def split: sum.splits if_splits prod.splits)
  then show thesis ..
qed

lemma framed_decodes:
  "framed f d cs \<Longrightarrow> streaming_chunk_body \<lparr>stream_data = d, stream_fault = f\<rparr> = (cs, Finished)"
proof (induction rule: framed.induct)
  case (last_chunk s rest)
  then show ?case by (subst streaming_chunk_body.simps) (simp add: next_chunk_size)
next
  case (cut_size s x)
  then show ?case by (subst streaming_chunk_body.simps) (simp add: next_chunk_cut)
next
  case (chunk s c sig eol rest cs)
  have "next_chunk \<lparr>stream_data = s @ CHR '';'' # sig @ c @ eol @ rest, stream_fault = f\<rparr> =
      NextChunk c \<lparr>stream_data = rest, stream_fault = f\<rparr>"
    using next_chunk_framed [OF chunk.hyps(1-5)] by simp
  with chunk.IH show ?case by (subst streaming_chunk_body.simps) simp
qed

lemma decodes_framed:
  "streaming_chunk_body b = (cs, Finished) \<Longrightarrow> framed (stream_fault b) (stream_data b) cs"
proof (induction b arbitrary: cs rule: streaming_chunk_body.induct)
  case (1 b)
  note body = 1 (2) [unfolded streaming_chunk_body.simps [of b]]
  show ?case
  proof (cases "next_chunk b")
    case (NextChunk c b')
    with body obtain cs' where "cs = c # cs'" "streaming_chunk_body b' = (cs', Finished)"
      by (auto split: prod.splits)
    with 1 (1) [OF NextChunk] NextChunk show ?thesis
      by (elim next_chunk_nextE) (auto intro: framed.chunk)
  next
    case EndOfChunks
    with body show ?thesis using next_chunk_endE by simp
  qed (use body in simp_all)
qed

text \<open>C16: The decoder accepts exactly the framed bodies: it ends without an error and with the chunks \<open>cs\<close> if and
  only if the grammar derives the body with them, whether or not the connection breaks at the end.\<close>

theorem decoder_accepts_framed:
  "streaming_chunk_body \<lparr>stream_data = d, stream_fault = f\<rparr> = (cs, Finished) \<longleftrightarrow> framed f d cs"
  using framed_decodes decodes_framed [of "\<lparr>stream_data = d, stream_fault = f\<rparr>" cs] by auto

end
