(* ===== verification/SystemProps.thy ===== *)
theory SystemProps imports Instances begin

text \<open>
  Properties of the running server (\<^verbatim>\<open>Server.thy\<close>): start-up, what the authorization layer
  hands on, and the invariant of every run, which rests on the interpretation \<open>pinned\<close>.
\<close>

section \<open>Start-up\<close>

definition demo_init :: "(unit, int \<times> bool list) init_env" where
  "demo_init =
     \<lparr>ie_exists = (\<lambda>_ _. False), ie_parent = (\<lambda>_. Some ''data''),
      ie_create_dir_all = (\<lambda>_ fs. (Inr (), fs)), ie_display = id, ie_url_ok = (\<lambda>_. Inr ()),
      ie_defaults = \<lparr>auto_vacuum = Some ''none'', journal_mode = Some ''delete'', synchronous = Some ''full''\<rparr>,
      ie_connect = (\<lambda>_ fs. (Inr (0, []), fs)), ie_migrate = (\<lambda>_ fs. (Inr [], fs))\<rparr>"

definition demo_start ::
  "(int \<times> bool list, demo_node, nat \<times> (string \<times> nat \<times> (i8 \<times> bytes) list) list) app_state" where
  "demo_start = \<lparr>app_db = \<lparr>db_pool = (0, []), db_rows = []\<rparr>, app_node = demo_empty_node, app_slots = (2, []),
     app_tasks = []\<rparr>"

lemma demo_started:
  "run_setup demo_init demo_env demo_config demo_empty_node () =
     (Ready demo_start (new_with_config ''http://localhost:5001/api/v0'' None), ())"
  by (simp add: run_setup_def initialize_def prepare_directory_def db_new_with_config_def demo_init_def
      demo_config_def demo_start_def with_capacity_def demo_dashmap_def)

text \<open>The server starts exactly when the database does: the directory of a missing file could be created,
  the connection made and the migrations run. It starts with the rows the migrations leave, no upload, no
  task, and room for the configured number of uploads; otherwise the process exits with code 1.\<close>

theorem server_starts:
  assumes "dashmap_laws (slot_ops E) \<alpha>"
  shows "case run_setup I E config node fs of
      (Exited n, fs') \<Rightarrow> n = 1 \<and> (\<exists>e. initialize I (database_path config) (sqlite config) fs = (Inl e, fs'))
    | (Ready s client, fs') \<Rightarrow>
        initialize I (database_path config) (sqlite config) fs = (Inr (app_db s), fs') \<and>
        (\<exists>fs1. ie_migrate I (db_pool (app_db s)) fs1 = (Inr (rows_of s), fs')) \<and>
        \<alpha> (app_slots s) = Map.empty \<and> app_tasks s = [] \<and> app_node s = node \<and>
        concurrent_multipart_upload config \<le> dm_capacity (slot_ops E) (app_slots s)"
proof -
  obtain r fs' where r: "initialize I (database_path config) (sqlite config) fs = (r, fs')" by fastforce
  show ?thesis
  proof (cases r)
    case (Inl e)
    with r show ?thesis by (simp add: run_setup_def)
  next
    case (Inr db)
    with r initialize_rows [of I "database_path config" "sqlite config" fs db fs']
    show ?thesis
      using dashmap_lawsD(1,2) [OF assms] by (simp add: run_setup_def with_capacity_def)
  qed
qed

theorem server_starts_witness:
  "demo_map (app_slots demo_start) = Map.empty \<and> 2 \<le> dm_capacity demo_dashmap (app_slots demo_start)"
proof -
  have "concurrent_multipart_upload demo_config = 2" by (simp add: demo_config_def)
  then show ?thesis
    using server_starts [where E = demo_env, unfolded demo_env_simps, OF demo_dashmap_laws,
        where I = demo_init and config = demo_config and node = demo_empty_node and fs = "()"]
    by (simp add: demo_started)
qed

section \<open>Requests behind the layer\<close>

text \<open>A \<open>PUT\<close> of a plain body.\<close>

definition put_request :: "bytes \<Rightarrow> request" where
  "put_request data = \<lparr>req_method = ''PUT'', req_uri = ''/b/d/k'', req_path = ''/b/d/k'', req_headers = Map.empty,
     req_body = Plain \<lparr>stream_data = data, stream_fault = False\<rparr>\<rparr>"

text \<open>C31: With credentials configured, what an authenticated request with a signed streaming body hands to
  the handler is the client's data without the chunk framing. Without credentials the layer that decodes is
  not there, and the handler gets the framing as well.\<close>

theorem signed_stream_reaches_handler:
  assumes "authenticated S c r"
    and "req_headers r ''x-amz-content-sha256'' = Some streaming_payload"
    and "req_body r = Plain \<lparr>stream_data = aws_chunked scs last_sig, stream_fault = f\<rparr>"
    and "\<forall>(sig, data) \<in> set scs. length sig = 64 \<and> data \<noteq> [] \<and> length data \<le> isize_max"
    and "length (aws_chunked scs last_sig) \<le> hx_body_limit X"
  shows "(\<exists>r'. collect_body X (req_body r') = Inr (concat (map snd scs)) \<and>
        req_method r' = req_method r \<and> req_uri r' = req_uri r \<and> req_path r' = req_path r \<and>
        req_headers r' = req_headers r \<and> guarded S (cfg\<lparr>auth := Some c\<rparr>) inner r s = inner r' s) \<and>
    guarded S (cfg\<lparr>auth := None\<rparr>) inner r s = inner r s \<and>
    (\<not> f \<longrightarrow> collect_body X (req_body r) = Inr (aws_chunked scs last_sig))"
proof (intro conjI)
  have body: "decode_body r = Decoded (map snd scs) Finished"
    using assms(2,3) by (simp add: decode_body_def streaming_aws_chunked [OF assms(4)])
  have "length (concat (map snd scs)) \<le> hx_body_limit X"
    using streaming_total_length [of "\<lparr>stream_data = aws_chunked scs last_sig, stream_fault = f\<rparr>"] assms(5)
    by (simp only: streaming_aws_chunked [OF assms(4)] fst_conv body_stream.select_convs)
  then have "collect_body X (req_body (r\<lparr>req_body := decode_body r\<rparr>)) = Inr (concat (map snd scs))"
    by (simp add: body collect_body_def within_limit_def)
  then show "\<exists>r'. collect_body X (req_body r') = Inr (concat (map snd scs)) \<and>
      req_method r' = req_method r \<and> req_uri r' = req_uri r \<and> req_path r' = req_path r \<and>
      req_headers r' = req_headers r \<and> guarded S (cfg\<lparr>auth := Some c\<rparr>) inner r s = inner r' s"
    using assms(1) by (intro exI [of _ "r\<lparr>req_body := decode_body r\<rparr>"]) (simp add: guarded_def authorize_eq)
  show "guarded S (cfg\<lparr>auth := None\<rparr>) inner r s = inner r s" by (simp add: guarded_def)
  show "\<not> f \<longrightarrow> collect_body X (req_body r) = Inr (aws_chunked scs last_sig)"
    using assms(5) by (simp add: assms(3) collect_body_def within_limit_def)
qed

text \<open>A request signed by query, with a streaming body.\<close>

definition stream_request :: request where
  "stream_request =
     \<lparr>req_method = ''PUT'', req_uri = ''/b/k?X-Amz-Credential=KEY/20250101/ipfs/s3/aws4_request&X-Amz-Date=20250101T000000Z&X-Amz-SignedHeaders=host&X-Amz-Signature=6432303554455243'',
      req_path = ''/b/k'', req_headers = [''host'' \<mapsto> ''h'', ''x-amz-content-sha256'' \<mapsto> streaming_payload],
      req_body = Plain \<lparr>stream_data = aws_chunked demo_chunks ''s'', stream_fault = False\<rparr>\<rparr>"

theorem signed_stream_reaches_handler_witness:
  "\<exists>r' :: request. collect_body demo_http (req_body r') = Inr ''hello world'' \<and>
     guarded demo_sig (demo_config\<lparr>auth := Some \<lparr>access_key = ''KEY'', secret_key = ''SECRET''\<rparr>\<rparr>)
       (\<lambda>r n. (None, n)) stream_request (7 :: nat) = (None, 7)"
proof -
  let ?c = "\<lparr>access_key = ''KEY'', secret_key = ''SECRET''\<rparr>"
  have c: "?c = demo_auth" by (simp add: demo_auth_def)
  have "extract_signature demo_sig stream_request = Some presigned_auth"
    by (rule presigned_extract, simp add: stream_request_def, code_simp, code_simp)
  then have valid: "authenticated demo_sig ?c stream_request"
    using presigned_valid unfolding c by (simp add: authenticated_def)
  have fields: "req_headers stream_request ''x-amz-content-sha256'' = Some streaming_payload"
    "req_body stream_request = Plain \<lparr>stream_data = aws_chunked demo_chunks ''s'', stream_fault = False\<rparr>"
    by (simp_all add: stream_request_def)
  have "length (aws_chunked demo_chunks ''s'') \<le> 1000" by code_simp
  then have limit: "length (aws_chunked demo_chunks ''s'') \<le> hx_body_limit demo_http" by (simp add: demo_http_def)
  have total: "concat (map snd demo_chunks) = ''hello world''" by (simp add: demo_chunks_def)
  note reached = signed_stream_reaches_handler [OF valid fields demo_chunks_ok limit, where cfg = demo_config
      and inner = "\<lambda>r n. (None, n)" and s = "7 :: nat", THEN conjunct1, unfolded total]
  then show ?thesis by (elim exE conjE) (intro exI conjI)
qed

section \<open>Invariants of every run\<close>

text \<open>C1: In every run of the server, whatever requests arrive and in whatever order the tasks run between
  them, the table keeps its primary key and every content identifier in it stays pinned on the node; so no
  stored object is ever open to the node's garbage collection.\<close>

theorem referenced_content_stays_pinned:
  assumes "pin_laws (node_api E) pins" and "version_laws (node_api E) pins"
    and "primary_key (rows_of s)" and "referenced_cids (rows_of s) \<subseteq> pins (app_node s)"
    and "server_run X S E cfg s es s'"
  shows "primary_key (rows_of s') \<and> referenced_cids (rows_of s') \<subseteq> pins (app_node s')"
  using pinned.keeps_run [OF assms(5), of pins] assms(1-4) by (simp add: pins_ok_def)

theorem referenced_content_stays_pinned_witness:
  "referenced_cids (rows_of (snd (serve demo_http demo_sig demo_env demo_config 0 ''u'' (put_request ''hey'') demo_start)))
     \<subseteq> demo_pins (app_node (snd (serve demo_http demo_sig demo_env demo_config 0 ''u'' (put_request ''hey'') demo_start)))"
proof -
  let ?run = "serve demo_http demo_sig demo_env demo_config 0 ''u'' (put_request ''hey'') demo_start"
  have "server_run demo_http demo_sig demo_env demo_config demo_start
      ([] @ [Answered (put_request ''hey'') (fst ?run)]) (snd ?run)"
    by (rule next_step [OF idle answer [OF prod.collapse [symmetric]]])
  moreover have "primary_key (rows_of demo_start)" "referenced_cids (rows_of demo_start) \<subseteq> demo_pins (app_node demo_start)"
    by (simp_all add: demo_start_def primary_key_def referenced_cids_def)
  ultimately show ?thesis
    using referenced_content_stays_pinned [where E = demo_env, unfolded demo_env_simps, OF demo_pin_laws demo_version_laws]
    by blast
qed

end
