(* ===== verification/Concurrency.thy ===== *)
theory Concurrency imports Invariants begin

text \<open>
  The handlers at the granularity of their \<open>await\<close> points. Requests and spawned tasks run
  concurrently; between two statements or node calls of one, those of the others may run. A request or
  task is a program counter with its local variables (\<open>pc\<close>), \<open>advance\<close> runs it to its next call and
  through it, and \<open>conc_step\<close> interleaves any number of them over the shared state. Run without
  interruption, the small steps compute the handlers of \<^verbatim>\<open>PutObject.thy\<close>,
  \<^verbatim>\<open>Multipart.thy\<close>, \<^verbatim>\<open>DeleteObject.thy\<close> and \<^verbatim>\<open>ReadObject.thy\<close>.
\<close>

section \<open>Program counters\<close>

text \<open>\<open>store_object\<close> runs for a \<open>PUT\<close> or inside a completion; deleting runs for a \<open>DELETE\<close> or for one
  key of \<open>DeleteObjects\<close>, with the keys that remain and the answers so far; \<open>unpin_if_orphan\<close> runs for
  either, or in the task of a \<open>PUT\<close>.\<close>

datatype put_owner = PlainPut | Completion string string

datatype delete_owner = PlainDelete | Batch string string "string list" "string list" "string list"

datatype unpin_owner = OfDelete delete_owner | OfPut

datatype 'ip pc =
    SelectOld put_owner string string "string option" bytes
  | AddBytes put_owner string string "metadata_response option" string string bytes
  | LinkContent put_owner string string "metadata_response option" string string nat add_response
  | StoreRow put_owner string string "metadata_response option" string nat add_response
  | WritePart multi_part_params bytes
  | SelectDoomed delete_owner string string
  | UnlinkDoomed delete_owner metadata_response string
  | DeleteRow delete_owner metadata_response
  | CountRefs unpin_owner metadata_response
  | UnpinContent unpin_owner metadata_response
  | SearchDir metadata_response "string list" "string option"
  | UnlinkDir string
  | CheckSlots string string string
  | InsertSlot string string string
  | TakeSlot string string string
  | DropSlot string
  | ReadRow string string 'ip
  | HeadRow string string
  | Finished "handler option"

section \<open>What follows a handler's end\<close>

definition put_answer ::
  "('p, 'i, 'm, 'n, 'net, 'ip) env \<Rightarrow> put_owner \<Rightarrow> handler \<Rightarrow> handler" where
  "put_answer E owner h =
     (case owner of
        PlainPut \<Rightarrow> h
      | Completion b k \<Rightarrow>
          (case h of
             Inl e \<Rightarrow> Inl e
           | Inr r \<Rightarrow>
               (let etag = (case Option.bind (header_get ''etag'' r) (header_to_str E) of
                              None \<Rightarrow> [] | Some v \<Rightarrow> v)
                in Inr (unwrap_or_default (build (header_value_ok E) OK []
                     (Full (complete_body b k etag)))))))"

abbreviation put_done ::
  "('p, 'i, 'm, 'n, 'net, 'ip) env \<Rightarrow> put_owner \<Rightarrow> handler \<Rightarrow> 'ip pc" where
  "put_done E owner h \<equiv> Finished (Some (put_answer E owner h))"

definition delete_report ::
  "('p, 'i, 'm, 'n, 'net, 'ip) env \<Rightarrow> string list \<Rightarrow> string list \<Rightarrow> handler" where
  "delete_report E deleted errors =
     Inr (unwrap_or_default (build (header_value_ok E) OK [(''content-type'', ''application/xml'')]
       (Full (case print_delete_result E deleted errors of None \<Rightarrow> [] | Some x \<Rightarrow> x))))"

definition next_delete ::
  "('p, 'i, 'm, 'n, 'net, 'ip) env \<Rightarrow> string \<Rightarrow> string list \<Rightarrow> string list \<Rightarrow> string list \<Rightarrow> 'ip pc" where
  "next_delete E bucket keys deleted errors =
     (case keys of
        [] \<Rightarrow> Finished (Some (delete_report E deleted errors))
      | k # ks \<Rightarrow> SelectDoomed (Batch bucket k ks deleted errors) bucket k)"

definition delete_done ::
  "('p, 'i, 'm, 'n, 'net, 'ip) env \<Rightarrow> delete_owner \<Rightarrow> handler \<Rightarrow> 'ip pc" where
  "delete_done E owner h =
     (case owner of
        PlainDelete \<Rightarrow> Finished (Some h)
      | Batch b k ks deleted errors \<Rightarrow>
          (case h of
             Inr _ \<Rightarrow> next_delete E b ks (deleted @ [k]) errors
           | Inl _ \<Rightarrow> next_delete E b ks deleted (errors @ [k])))"

definition unpin_done ::
  "('p, 'i, 'm, 'n, 'net, 'ip) env \<Rightarrow> 'net run_config \<Rightarrow> unpin_owner \<Rightarrow> metadata_response
     \<Rightarrow> status + unit \<Rightarrow> ('p, 'i, 'm) app_state \<Rightarrow> 'ip pc \<times> ('p, 'i, 'm) app_state" where
  "unpin_done E cfg owner metadata r s =
     (case owner of
        OfPut \<Rightarrow> (Finished None, s)
      | OfDelete d \<Rightarrow>
          (case r of
             Inl st \<Rightarrow> (delete_done E d (Inl (Status st)), s)
           | Inr _ \<Rightarrow>
               (delete_done E d (Inr (unwrap_or_default (build (header_value_ok E) NO_CONTENT
                  (delete_headers (md_cid metadata)) no_body))),
                if flag (trim_empty_folders (experimental cfg)) then spawn (TrimEmpty metadata) s else s)))"

definition search_done ::
  "('p, 'i, 'm, 'n, 'net, 'ip) env \<Rightarrow> 'net run_config \<Rightarrow> metadata_response \<Rightarrow> string option \<Rightarrow> 'ip pc" where
  "search_done E cfg metadata found =
     (case found of
        None \<Rightarrow> Finished None
      | Some to_remove \<Rightarrow>
          (case normalized_path E (folder_prefix cfg) (md_bucket metadata) to_remove of
             Inr path \<Rightarrow> UnlinkDir path
           | Inl _ \<Rightarrow> Finished None))"

section \<open>One step\<close>

text \<open>What each call does, with the code up to the next one.\<close>

definition await_old ::
  "('p, 'i, 'm, 'n, 'net, 'ip) env \<Rightarrow> 'net run_config \<Rightarrow> put_owner \<Rightarrow> string \<Rightarrow> string \<Rightarrow> string option \<Rightarrow> bytes
     \<Rightarrow> ('p, 'i, 'm) app_state \<Rightarrow> 'ip pc \<times> ('p, 'i, 'm) app_state" where
  "await_old E cfg p b k ct body s =
     (case with_db (get_object_metadata (sqlx_exec E) b k) s of
        (Inl _, s1) \<Rightarrow> (put_done E p (Inl (Status INTERNAL_SERVER_ERROR)), s1)
      | (Inr old, s1) \<Rightarrow>
          (case normalized_path E (folder_prefix cfg) b k of
             Inl _ \<Rightarrow> (put_done E p (Inl (Status BAD_REQUEST)), s1)
           | Inr path \<Rightarrow> (AddBytes p b k old (content_type_of E cfg ct k) path body, s1)))"

definition await_add ::
  "('p, 'i, 'm, 'n, 'net, 'ip) env \<Rightarrow> put_owner \<Rightarrow> string \<Rightarrow> string \<Rightarrow> metadata_response option \<Rightarrow> string \<Rightarrow> string
     \<Rightarrow> bytes \<Rightarrow> ('p, 'i, 'm) app_state \<Rightarrow> 'ip pc \<times> ('p, 'i, 'm) app_state" where
  "await_add E p b k old ct path body s =
     (case with_node (api_add (node_api E) body) s of
        (Inl _, s1) \<Rightarrow> (put_done E p (Inl (Status INTERNAL_SERVER_ERROR)), s1)
      | (Inr added, s1) \<Rightarrow> (LinkContent p b k old ct path (length body) added, s1))"

definition await_link ::
  "('p, 'i, 'm, 'n, 'net, 'ip) env \<Rightarrow> put_owner \<Rightarrow> string \<Rightarrow> string \<Rightarrow> metadata_response option \<Rightarrow> string \<Rightarrow> string
     \<Rightarrow> nat \<Rightarrow> add_response \<Rightarrow> ('p, 'i, 'm) app_state \<Rightarrow> 'ip pc \<times> ('p, 'i, 'm) app_state" where
  "await_link E p b k old ct path n added s =
     (case with_node (api_files_cp (node_api E)
             \<lparr>cp_path = ''/ipfs/'' @ ar_hash added, cp_dest = path,
              cp_parents = Some True, cp_force = Some True\<rparr>) s of
        (Inl _, s1) \<Rightarrow> (put_done E p (Inl (Status INTERNAL_SERVER_ERROR)), s1)
      | (Inr _, s1) \<Rightarrow> (StoreRow p b k old ct n added, s1))"

definition await_store ::
  "('p, 'i, 'm, 'n, 'net, 'ip) env \<Rightarrow> put_owner \<Rightarrow> string \<Rightarrow> string \<Rightarrow> metadata_response option \<Rightarrow> string \<Rightarrow> nat
     \<Rightarrow> add_response \<Rightarrow> ('p, 'i, 'm) app_state \<Rightarrow> 'ip pc \<times> ('p, 'i, 'm) app_state" where
  "await_store E p b k old ct n added s =
     (case with_db (store_object_metadata (sqlx_exec E) b k (ar_hash added) (usize_as_i64 n) ct) s of
        (Inl _, s1) \<Rightarrow> (put_done E p (Inl (Status INTERNAL_SERVER_ERROR)), s1)
      | (Inr _, s1) \<Rightarrow>
          (put_done E p (case build (header_value_ok E) OK (put_headers (ar_hash added)) no_body of
                           Inl _ \<Rightarrow> Inl Panicked | Inr r \<Rightarrow> Inr r),
           spawn (UnpinOld old added) s1))"

definition await_doomed ::
  "('p, 'i, 'm, 'n, 'net, 'ip) env \<Rightarrow> 'net run_config \<Rightarrow> delete_owner \<Rightarrow> string \<Rightarrow> string \<Rightarrow> ('p, 'i, 'm) app_state \<Rightarrow> 'ip pc \<times> ('p, 'i, 'm) app_state" where
  "await_doomed E cfg d b k s =
     (case with_db (get_object_metadata (sqlx_exec E) b k) s of
        (Inl _, s1) \<Rightarrow> (delete_done E d (Inl (Status INTERNAL_SERVER_ERROR)), s1)
      | (Inr None, s1) \<Rightarrow> (delete_done E d (Inl (Status NOT_FOUND)), s1)
      | (Inr (Some md), s1) \<Rightarrow>
          (case normalized_path E (folder_prefix cfg) (md_bucket md) (md_key md) of
             Inl _ \<Rightarrow> (delete_done E d (Inl (Status INTERNAL_SERVER_ERROR)), s1)
           | Inr path \<Rightarrow> (UnlinkDoomed d md path, s1)))"

definition await_unlink ::
  "('p, 'i, 'm, 'n, 'net, 'ip) env \<Rightarrow> delete_owner \<Rightarrow> metadata_response \<Rightarrow> string \<Rightarrow> ('p, 'i, 'm) app_state \<Rightarrow> 'ip pc \<times> ('p, 'i, 'm) app_state" where
  "await_unlink E d md path s =
     (case with_node (unlink (node_api E) path) s of
        (Inl _, s1) \<Rightarrow> (delete_done E d (Inl (Status INTERNAL_SERVER_ERROR)), s1)
      | (Inr _, s1) \<Rightarrow> (DeleteRow d md, s1))"

definition await_delete ::
  "('p, 'i, 'm, 'n, 'net, 'ip) env \<Rightarrow> delete_owner \<Rightarrow> metadata_response \<Rightarrow> ('p, 'i, 'm) app_state \<Rightarrow> 'ip pc \<times> ('p, 'i, 'm) app_state" where
  "await_delete E d md s =
     (case with_db (db_delete_object (sqlx_exec E) md) s of
        (Inl _, s1) \<Rightarrow> (delete_done E d (Inl (Status INTERNAL_SERVER_ERROR)), s1)
      | (Inr _, s1) \<Rightarrow> (CountRefs (OfDelete d) md, s1))"

definition await_count ::
  "('p, 'i, 'm, 'n, 'net, 'ip) env \<Rightarrow> 'net run_config \<Rightarrow> unpin_owner \<Rightarrow> metadata_response \<Rightarrow> ('p, 'i, 'm) app_state \<Rightarrow> 'ip pc \<times> ('p, 'i, 'm) app_state" where
  "await_count E cfg u md s =
     (case with_db (cid_count (sqlx_exec E) (md_cid md)) s of
        (Inl _, s1) \<Rightarrow> unpin_done E cfg u md (Inl INTERNAL_SERVER_ERROR) s1
      | (Inr n, s1) \<Rightarrow> if n = 0 then (UnpinContent u md, s1) else unpin_done E cfg u md (Inr ()) s1)"

definition await_unpin ::
  "('p, 'i, 'm, 'n, 'net, 'ip) env \<Rightarrow> 'net run_config \<Rightarrow> unpin_owner \<Rightarrow> metadata_response \<Rightarrow> ('p, 'i, 'm) app_state \<Rightarrow> 'ip pc \<times> ('p, 'i, 'm) app_state" where
  "await_unpin E cfg u md s =
     (case with_node (unpin (node_api E) md) s of
        (Inl _, s1) \<Rightarrow> unpin_done E cfg u md (Inl INTERNAL_SERVER_ERROR) s1
      | (Inr _, s1) \<Rightarrow> unpin_done E cfg u md (Inr ()) s1)"

definition await_search ::
  "('p, 'i, 'm, 'n, 'net, 'ip) env \<Rightarrow> 'net run_config \<Rightarrow> metadata_response \<Rightarrow> string list \<Rightarrow> string option \<Rightarrow> ('p, 'i, 'm) app_state
     \<Rightarrow> 'ip pc \<times> ('p, 'i, 'm) app_state" where
  "await_search E cfg md as found s =
     (case as of
        [] \<Rightarrow> (search_done E cfg md found, s)
      | a # as' \<Rightarrow>
          (case with_db (run_statement (sqlx_exec E)
                  (\<lambda>_ rows. (sql_count_like (md_bucket md) (a @ ''/%'') rows, rows))) s of
             (Inl _, s1) \<Rightarrow> (Finished None, s1)
           | (Inr n, s1) \<Rightarrow>
               if n = 0 then (SearchDir md as' (Some a), s1) else (search_done E cfg md found, s1)))"

definition check_slots ::
  "('p, 'i, 'm, 'n, 'net, 'ip) env \<Rightarrow> string \<Rightarrow> string \<Rightarrow> string \<Rightarrow> ('p, 'i, 'm) app_state \<Rightarrow> 'ip pc \<times> ('p, 'i, 'm) app_state" where
  "check_slots E b k fresh s =
     (case check_capacity (slot_ops E) (app_slots s) of
        Inl _ \<Rightarrow> (Finished (Some (Inl (Status SERVICE_UNAVAILABLE))), s)
      | Inr _ \<Rightarrow> (InsertSlot b k fresh, s))"

definition insert_slot ::
  "('p, 'i, 'm, 'n, 'net, 'ip) env \<Rightarrow> string \<Rightarrow> string \<Rightarrow> string \<Rightarrow> ('p, 'i, 'm) app_state \<Rightarrow> 'ip pc \<times> ('p, 'i, 'm) app_state" where
  "insert_slot E b k fresh s =
     (Finished (Some (Inr (unwrap_or_default (build (header_value_ok E) OK [(''content-type'', ''text/xml'')]
        (Full (initiate_body b k fresh)))))),
      s\<lparr>app_slots := snd (dm_insert (slot_ops E) fresh (new_parts E) (app_slots s))\<rparr>)"

definition take_slot ::
  "('p, 'i, 'm, 'n, 'net, 'ip) env \<Rightarrow> string \<Rightarrow> string \<Rightarrow> string \<Rightarrow> ('p, 'i, 'm) app_state \<Rightarrow> 'ip pc \<times> ('p, 'i, 'm) app_state" where
  "take_slot E b k upload s =
     (case with_slots (slot_remove (slot_ops E) upload) s of
        (Some (_, parts), s1) \<Rightarrow> (SelectOld (Completion b k) b k None (assemble_parts E parts), s1)
      | (None, s1) \<Rightarrow> (Finished (Some (Inl (Status BAD_REQUEST))), s1))"

lemmas await_defs [simp] = await_old_def await_add_def await_link_def await_store_def await_doomed_def
  await_unlink_def await_delete_def await_count_def await_unpin_def await_search_def check_slots_def
  insert_slot_def take_slot_def

fun advance ::
  "('p, 'i, 'm, 'n, 'net, 'ip) env \<Rightarrow> 'net run_config \<Rightarrow> 'ip pc \<Rightarrow> ('p, 'i, 'm) app_state \<Rightarrow> 'ip pc \<times> ('p, 'i, 'm) app_state" where
  "advance E cfg (SelectOld p b k ct body) s = await_old E cfg p b k ct body s"
| "advance E cfg (AddBytes p b k old ct path body) s = await_add E p b k old ct path body s"
| "advance E cfg (LinkContent p b k old ct path n added) s = await_link E p b k old ct path n added s"
| "advance E cfg (StoreRow p b k old ct n added) s = await_store E p b k old ct n added s"
| "advance E cfg (WritePart part body) s =
     (case upload_part E part body s of (h, s1) \<Rightarrow> (Finished (Some h), s1))"
| "advance E cfg (SelectDoomed d b k) s = await_doomed E cfg d b k s"
| "advance E cfg (UnlinkDoomed d md path) s = await_unlink E d md path s"
| "advance E cfg (DeleteRow d md) s = await_delete E d md s"
| "advance E cfg (CountRefs u md) s = await_count E cfg u md s"
| "advance E cfg (UnpinContent u md) s = await_unpin E cfg u md s"
| "advance E cfg (SearchDir md as found) s = await_search E cfg md as found s"
| "advance E cfg (UnlinkDir path) s = (Finished None, snd (with_node (unlink (node_api E) path) s))"
| "advance E cfg (CheckSlots b k fresh) s = check_slots E b k fresh s"
| "advance E cfg (InsertSlot b k fresh) s = insert_slot E b k fresh s"
| "advance E cfg (TakeSlot b k upload) s = take_slot E b k upload s"
| "advance E cfg (DropSlot upload) s =
     (case abort_upload E upload s of (h, s1) \<Rightarrow> (Finished (Some h), s1))"
| "advance E cfg (ReadRow b k ip) s =
     (case get_object E cfg (b, k) ip s of (h, s1) \<Rightarrow> (Finished (Some h), s1))"
| "advance E cfg (HeadRow b k) s =
     (case head_object_metadata E (b, k) s of (r, s1) \<Rightarrow> (Finished (Some (Inr r)), s1))"
| "advance E cfg (Finished h) s = (Finished h, s)"

section \<open>Requests and tasks\<close>

datatype 'ip op =
    Put string string "string option" "multi_part_params option" bytes
  | Delete string string "string option"
  | DeleteMany string "string option" bytes
  | Get string string 'ip
  | Head string string
  | Post string string post_object_params string

definition start :: "('p, 'i, 'm, 'n, 'net, 'ip) env \<Rightarrow> 'ip op \<Rightarrow> 'ip pc" where
  "start E op =
     (case op of
        Put b k ct part body \<Rightarrow>
          (case part of Some p \<Rightarrow> WritePart p body | None \<Rightarrow> SelectOld PlainPut b k ct body)
      | Delete b k upload \<Rightarrow>
          (case upload of Some u \<Rightarrow> DropSlot u | None \<Rightarrow> SelectDoomed PlainDelete b k)
      | DeleteMany b param body \<Rightarrow>
          if param \<noteq> None then
            (case parse_delete_payload E body of
               None \<Rightarrow> Finished (Some (Inl (Status BAD_REQUEST)))
             | Some keys \<Rightarrow> next_delete E b keys [] [])
          else Finished (Some (Inl (Status NOT_IMPLEMENTED)))
      | Get b k ip \<Rightarrow> ReadRow b k ip
      | Head b k \<Rightarrow> HeadRow b k
      | Post b k params fresh \<Rightarrow>
          if uploads_param params \<noteq> None then CheckSlots b k fresh
          else (case upload_id_param params of
                  Some u \<Rightarrow> TakeSlot b k u
                | None \<Rightarrow> Finished (Some (Inl (Status BAD_REQUEST)))))"

definition start_task :: "('p, 'i, 'm, 'n, 'net, 'ip) env \<Rightarrow> background \<Rightarrow> 'ip pc" where
  "start_task E t =
     (case t of
        UnpinOld old added \<Rightarrow>
          (case old of
             Some md \<Rightarrow> if md_cid md \<noteq> ar_hash added then CountRefs OfPut md else Finished None
           | None \<Rightarrow> Finished None)
      | TrimEmpty md \<Rightarrow> SearchDir md (filter (\<lambda>a. a \<noteq> []) (path_ancestors E (md_key md))) None)"

text \<open>The same requests handled in one go.\<close>

definition handle ::
  "('p, 'i, 'm, 'n, 'net, 'ip) env \<Rightarrow> 'net run_config \<Rightarrow> 'ip op \<Rightarrow> ('p, 'i, 'm) app_state
     \<Rightarrow> handler \<times> ('p, 'i, 'm) app_state" where
  "handle E cfg op s =
     (case op of
        Put b k ct part body \<Rightarrow> put_object E cfg (b, k) ct part body s
      | Delete b k upload \<Rightarrow> delete_object E cfg (b, k) upload s
      | DeleteMany b param body \<Rightarrow> modify_bucket E cfg b param body s
      | Get b k ip \<Rightarrow> get_object E cfg (b, k) ip s
      | Head b k \<Rightarrow> (case head_object_metadata E (b, k) s of (r, s1) \<Rightarrow> (Inr r, s1))
      | Post b k params fresh \<Rightarrow> multipart_upload E cfg (b, k) params fresh s)"

section \<open>Every request ends\<close>

fun keys_left :: "delete_owner \<Rightarrow> nat" where
  "keys_left PlainDelete = 0"
| "keys_left (Batch _ _ ks _ _) = length ks"

fun owner_weight :: "unpin_owner \<Rightarrow> nat" where
  "owner_weight OfPut = 0"
| "owner_weight (OfDelete d) = 5 * keys_left d"

text \<open>An upper bound on the steps a request still has to take.\<close>

fun weight :: "'ip pc \<Rightarrow> nat" where
  "weight (SelectOld _ _ _ _ _) = 4"
| "weight (AddBytes _ _ _ _ _ _ _) = 3"
| "weight (LinkContent _ _ _ _ _ _ _ _) = 2"
| "weight (StoreRow _ _ _ _ _ _ _) = 1"
| "weight (SelectDoomed d _ _) = 5 + 5 * keys_left d"
| "weight (UnlinkDoomed d _ _) = 4 + 5 * keys_left d"
| "weight (DeleteRow d _) = 3 + 5 * keys_left d"
| "weight (CountRefs u _) = 2 + owner_weight u"
| "weight (UnpinContent u _) = 1 + owner_weight u"
| "weight (SearchDir _ as _) = 2 + length as"
| "weight (CheckSlots _ _ _) = 2"
| "weight (TakeSlot _ _ _) = 5"
| "weight (Finished _) = 0"
| "weight _ = 1"

lemma weight_next_delete [simp]: "weight (next_delete E b ks ds es) = 5 * length ks"
  by (cases ks) (simp_all add: next_delete_def)

lemma weight_delete_done [simp]: "weight (delete_done E d h) = 5 * keys_left d"
  by (cases d; cases h) (simp_all add: delete_done_def)

lemma weight_unpin_done [simp]: "weight (fst (unpin_done E cfg u md r s)) = owner_weight u"
  by (cases u; cases r) (simp_all add: unpin_done_def)

lemma weight_search_done [simp]:
  "weight (search_done E cfg md found) < 2" "weight (search_done E cfg md found) < Suc (Suc n)"
  by (auto simp: search_done_def split: option.splits sum.splits)

lemma advance_weight:
  "weight pc \<noteq> 0 \<Longrightarrow> weight (fst (advance E cfg pc s)) < weight pc"
  by (cases "(E, cfg, pc, s)" rule: advance.cases)
    (auto split: prod.splits sum.splits option.splits list.splits)

lemma weight_zero: "weight pc = 0 \<longleftrightarrow> (\<exists>h. pc = Finished h)"
  by (cases pc rule: weight.cases) auto

text \<open>A request that nothing interrupts.\<close>

function alone ::
  "('p, 'i, 'm, 'n, 'net, 'ip) env \<Rightarrow> 'net run_config \<Rightarrow> 'ip pc \<Rightarrow> ('p, 'i, 'm) app_state
     \<Rightarrow> handler option \<times> ('p, 'i, 'm) app_state" where
  "alone E cfg pc s =
     (case pc of
        Finished h \<Rightarrow> (h, s)
      | _ \<Rightarrow> alone E cfg (fst (advance E cfg pc s)) (snd (advance E cfg pc s)))"
  by pat_completeness auto
termination
  by (relation "measure (\<lambda>x. weight (fst (snd (snd x))))") (simp only: wf_measure, (simp only: in_measure fst_conv snd_conv, rule advance_weight, simp)+)

declare alone.simps [simp del]

lemma alone_Finished [simp]: "alone E cfg (Finished h) s = (h, s)"
  by (simp add: alone.simps)

lemma alone_step:
  "weight pc \<noteq> 0 \<Longrightarrow> alone E cfg pc s = (case advance E cfg pc s of (pc', s') \<Rightarrow> alone E cfg pc' s')"
  by (cases pc; subst alone.simps; simp del: advance.simps add: case_prod_unfold)

section \<open>The small steps compute the handlers\<close>

lemmas alone_moves = alone_step [where pc = "SelectOld _ _ _ _ _"] alone_step [where pc = "AddBytes _ _ _ _ _ _ _"]
  alone_step [where pc = "LinkContent _ _ _ _ _ _ _ _"] alone_step [where pc = "StoreRow _ _ _ _ _ _ _"]
  alone_step [where pc = "WritePart _ _"] alone_step [where pc = "SelectDoomed _ _ _"]
  alone_step [where pc = "UnlinkDoomed _ _ _"] alone_step [where pc = "DeleteRow _ _"]
  alone_step [where pc = "CountRefs _ _"] alone_step [where pc = "UnpinContent _ _"]
  alone_step [where pc = "UnlinkDir _"] alone_step [where pc = "CheckSlots _ _ _"]
  alone_step [where pc = "InsertSlot _ _ _"] alone_step [where pc = "TakeSlot _ _ _"]
  alone_step [where pc = "DropSlot _"] alone_step [where pc = "ReadRow _ _ _"] alone_step [where pc = "HeadRow _ _"]

lemma with_add_content:
  "with_node (add_content A path d) s =
     (case with_node (api_add A d) s of
        (Inl e, s1) \<Rightarrow> (Inl (ClientError e), s1)
      | (Inr a, s1) \<Rightarrow>
          (case with_node (api_files_cp A
                  \<lparr>cp_path = ''/ipfs/'' @ ar_hash a, cp_dest = path,
                   cp_parents = Some True, cp_force = Some True\<rparr>) s1 of
             (Inl e, s2) \<Rightarrow> (Inl (ClientError e), s2)
           | (Inr _, s2) \<Rightarrow> (Inr a, s2)))"
  by (simp add: with_node_def add_content_def split: prod.split sum.split)

lemma alone_put:
  "alone E cfg (SelectOld p b k ct body) s =
     (case store_object E cfg b k ct body s of (h, s') \<Rightarrow> (Some (put_answer E p h), s'))"
  by (auto simp: alone_moves store_object_def with_add_content Let_def
      split: prod.split sum.split)

lemma alone_unpin:
  "alone E cfg (CountRefs u md) s =
     (case unpin_if_orphan E md s of
        (r, s1) \<Rightarrow> (case unpin_done E cfg u md r s1 of (pc, s2) \<Rightarrow> alone E cfg pc s2))"
  by (simp add: alone_moves unpin_if_orphan_def split: prod.split sum.split)

lemma alone_delete:
  "alone E cfg (SelectDoomed d b k) s =
     (case remove_object E cfg b k s of (h, s') \<Rightarrow> alone E cfg (delete_done E d h) s')"
  by (simp add: alone_moves alone_unpin remove_object_def unpin_done_def Let_def
      split: prod.split sum.split option.split)

lemma alone_deletes:
  "alone E cfg (next_delete E b ks ds es) s =
     (case delete_each E cfg b ks s of
        (ds', es', s') \<Rightarrow> (Some (delete_report E (ds @ ds') (es @ es')), s'))"
proof (induction ks arbitrary: ds es s)
  case Nil
  then show ?case by (simp add: next_delete_def)
next
  case (Cons k ks)
  obtain h s1 where "remove_object E cfg b k s = (h, s1)" by fastforce
  then show ?case
    by (cases h) (simp_all add: next_delete_def [of _ _ "k # ks"] alone_delete delete_done_def Cons.IH
        delete_object_def split: prod.split)
qed

lemma alone_search:
  "alone E cfg (SearchDir md as found) s =
     (None,
      case with_db (shallowest_loop (sqlx_exec E) (md_bucket md) as found) s of
        (Inr (Some to_remove), s1) \<Rightarrow>
          (case normalized_path E (folder_prefix cfg) (md_bucket md) to_remove of
             Inr path \<Rightarrow> snd (with_node (unlink (node_api E) path) s1)
           | Inl _ \<Rightarrow> s1)
      | (_, s1) \<Rightarrow> s1)"
proof (induction as arbitrary: found s)
  case Nil
  have "with_db (\<lambda>db. (Inr found :: database_error + string option, db)) s = (Inr found, s)"
    by (simp add: with_db_def)
  then show ?case
    by (simp add: alone_step [where pc = "SearchDir _ _ _"] alone_moves search_done_def
        split: option.split sum.split)
next
  case (Cons a as)
  let ?count = "run_statement (sqlx_exec E) (\<lambda>_ rows. (sql_count_like (md_bucket md) (a @ ''/%'') rows, rows))"
  obtain q db1 where q: "?count (app_db s) = (q, db1)" by fastforce
  show ?case
    by (cases q)
      (simp_all add: alone_step [where pc = "SearchDir _ _ _"] alone_moves search_done_def Cons.IH with_db_def q
        split: option.split sum.split prod.split)
qed

text \<open>The requests and the tasks.\<close>

lemma alone_start:
  "alone E cfg (start E op) s = (case handle E cfg op s of (h, s') \<Rightarrow> (Some h, s'))"
proof (cases op)
  case (Put b k ct part body)
  then show ?thesis
    by (simp add: start_def handle_def alone_moves alone_put put_answer_def put_object_def
        split: option.split prod.split)
next
  case (Delete b k upload)
  then show ?thesis
    by (simp add: start_def handle_def alone_moves alone_delete delete_done_def delete_object_def
        split: option.split prod.split)
next
  case (DeleteMany b param body)
  then show ?thesis
    by (simp add: start_def handle_def modify_bucket_def alone_deletes delete_report_def
        split: option.split prod.split)
next
  case (Get b k ip)
  then show ?thesis by (simp add: start_def handle_def alone_moves split: prod.split)
next
  case (Head b k)
  then show ?thesis by (simp add: start_def handle_def alone_moves split: prod.split)
next
  case (Post b k params fresh)
  obtain c where c: "check_capacity (slot_ops E) (app_slots s) = c" by simp
  show ?thesis
    unfolding Post
    by (cases c)
      (simp_all add: start_def handle_def multipart_upload_def create_upload_def complete_upload_def
        alone_moves alone_put put_answer_def put_object_def with_slots_def slot_insert_def c
        split: option.split prod.split sum.split)
qed

lemma find_directory_eta:
  "find_shallowest_removable_directory exec ancestors b path =
     shallowest_loop exec b (filter (\<lambda>a. a \<noteq> []) (ancestors path)) None"
  by (rule ext) (simp add: find_shallowest_removable_directory_def)

lemma alone_start_task:
  "alone E cfg (start_task E t) s = (None, run_background E cfg t s)"
  by (cases t)
    (simp_all add: start_task_def run_background_def unpin_old_def trim_empty_def alone_unpin alone_search
      unpin_done_def find_directory_eta case_prod_unfold split: option.split)

section \<open>Interleaving\<close>

text \<open>A configuration: the requests and tasks in progress, and the shared state. A request arrives, a
  spawned task is taken up, one of those in progress makes its next step, or one is dropped where it stands
  (the server does so with the request of a client that disconnects).\<close>

type_synonym ('p, 'i, 'm, 'ip) conf = "'ip pc list \<times> ('p, 'i, 'm) app_state"

datatype 'ip move = Arrive "'ip op" | Wake nat | Move nat | Cancel nat

inductive conc_step ::
  "('p, 'i, 'm, 'n, 'net, 'ip) env \<Rightarrow> 'net run_config \<Rightarrow> ('p, 'i, 'm, 'ip) conf \<Rightarrow> 'ip move
     \<Rightarrow> ('p, 'i, 'm, 'ip) conf \<Rightarrow> bool"
  for E cfg where
  arrive: "conc_step E cfg (ths, s) (Arrive op) (ths @ [start E op], s)"
| wake: "n < length (app_tasks s) \<Longrightarrow>
    conc_step E cfg (ths, s) (Wake n)
      (ths @ [start_task E (app_tasks s ! n)],
       s\<lparr>app_tasks := take n (app_tasks s) @ drop (Suc n) (app_tasks s)\<rparr>)"
| move: "i < length ths \<Longrightarrow> advance E cfg (ths ! i) s = (pc, s') \<Longrightarrow>
    conc_step E cfg (ths, s) (Move i) (ths[i := pc], s')"
| cancel: "i < length ths \<Longrightarrow> conc_step E cfg (ths, s) (Cancel i) (ths[i := Finished None], s)"

inductive_cases arriveE: "conc_step E cfg (ths, s) (Arrive op) c"
inductive_cases wakeE: "conc_step E cfg (ths, s) (Wake n) c"
inductive_cases moveE: "conc_step E cfg (ths, s) (Move i) c"
inductive_cases cancelE: "conc_step E cfg (ths, s) (Cancel i) c"

inductive conc_run ::
  "('p, 'i, 'm, 'n, 'net, 'ip) env \<Rightarrow> 'net run_config \<Rightarrow>
     (('p, 'i, 'm, 'ip) conf \<Rightarrow> 'ip move \<Rightarrow> bool) \<Rightarrow> ('p, 'i, 'm, 'ip) conf \<Rightarrow> 'ip move list
     \<Rightarrow> ('p, 'i, 'm, 'ip) conf \<Rightarrow> bool"
  for E cfg allowed where
  still: "conc_run E cfg allowed c [] c"
| onward: "allowed c l \<Longrightarrow> conc_step E cfg c l c' \<Longrightarrow> conc_run E cfg allowed c' ls c'' \<Longrightarrow>
    conc_run E cfg allowed c (l # ls) c''"

text \<open>A schedule, played.\<close>

fun play ::
  "('p, 'i, 'm, 'n, 'net, 'ip) env \<Rightarrow> 'net run_config \<Rightarrow> (('p, 'i, 'm, 'ip) conf \<Rightarrow> 'ip move \<Rightarrow> bool) \<Rightarrow> ('p, 'i, 'm, 'ip) conf
     \<Rightarrow> 'ip move list \<Rightarrow> ('p, 'i, 'm, 'ip) conf option" where
  "play E cfg allowed c [] = Some c"
| "play E cfg allowed (ths, s) (l # ls) =
     (if \<not> allowed (ths, s) l then None
      else
        (case l of
           Arrive op \<Rightarrow> play E cfg allowed (ths @ [start E op], s) ls
         | Wake n \<Rightarrow>
             if n < length (app_tasks s) then
               play E cfg allowed
                 (ths @ [start_task E (app_tasks s ! n)],
                  s\<lparr>app_tasks := take n (app_tasks s) @ drop (Suc n) (app_tasks s)\<rparr>) ls
             else None
         | Move i \<Rightarrow>
             if i < length ths then
               (case advance E cfg (ths ! i) s of (pc, s') \<Rightarrow> play E cfg allowed (ths[i := pc], s') ls)
             else None
         | Cancel i \<Rightarrow>
             if i < length ths then play E cfg allowed (ths[i := Finished None], s) ls else None))"

lemma play_run: "play E cfg allowed c ls = Some c' \<Longrightarrow> conc_run E cfg allowed c ls c'"
proof (induction E cfg allowed c ls rule: play.induct)
  case (2 E cfg allowed ths s l ls)
  then show ?case
  proof (cases l)
    case (Move i)
    obtain pc s1 where "advance E cfg (ths ! i) s = (pc, s1)" by fastforce
    with 2 Move show ?thesis by (auto intro!: onward move simp del: advance.simps split: if_splits)
  qed (use 2 in \<open>auto intro: onward arrive wake cancel split: if_splits\<close>)
qed (auto intro: still)

lemma run_append:
  "conc_run E cfg allowed c ls c1 \<Longrightarrow> conc_run E cfg allowed c1 ls' c2 \<Longrightarrow> conc_run E cfg allowed c (ls @ ls') c2"
  by (induction rule: conc_run.induct) (auto intro: onward)

text \<open>What a request does that nothing interrupts is a run of the interleaved system.\<close>

lemma alone_run:
  "\<exists>n \<le> weight pc. conc_run E cfg (\<lambda>_ _. True) (ths @ [pc], s) (replicate n (Move (length ths)))
     (ths @ [Finished (fst (alone E cfg pc s))], snd (alone E cfg pc s))"
proof (induction "weight pc" arbitrary: pc s rule: less_induct)
  case less
  show ?case
  proof (cases "weight pc = 0")
    case True
    then obtain h where "pc = Finished h" by (auto simp: weight_zero)
    then show ?thesis by (intro exI [of _ 0]) (auto intro: still)
  next
    case False
    obtain pc1 s1 where step: "advance E cfg pc s = (pc1, s1)" by fastforce
    have smaller: "weight pc1 < weight pc" using advance_weight [OF False, of E cfg s] step by simp
    obtain n where n: "n \<le> weight pc1" "conc_run E cfg (\<lambda>_ _. True) (ths @ [pc1], s1) (replicate n (Move (length ths)))
        (ths @ [Finished (fst (alone E cfg pc1 s1))], snd (alone E cfg pc1 s1))"
      using less [OF smaller, of s1] by blast
    have "alone E cfg pc s = alone E cfg pc1 s1" by (simp add: alone_step [OF False] step)
    moreover have "conc_step E cfg (ths @ [pc], s) (Move (length ths)) ((ths @ [pc])[length ths := pc1], s1)"
      by (rule move) (use step in simp_all)
    ultimately show ?thesis using n smaller by (intro exI [of _ "Suc n"]) (auto intro: onward)
  qed
qed

section \<open>Rows and pins under interleaving\<close>

text \<open>The content a \<open>PUT\<close> has added and not yet recorded.\<close>

fun claimed :: "'ip pc \<Rightarrow> string set" where
  "claimed (LinkContent _ _ _ _ _ _ _ added) = {ar_hash added}"
| "claimed (StoreRow _ _ _ _ _ _ added) = {ar_hash added}"
| "claimed _ = {}"

text \<open>The content that a thread is about to unpin, or counts the references of for that purpose; and the content
  that its next step unpins.\<close>

fun sweeps :: "'ip pc \<Rightarrow> string set" where
  "sweeps (CountRefs _ md) = {md_cid md}"
| "sweeps (UnpinContent _ md) = {md_cid md}"
| "sweeps _ = {}"


fun unpins :: "'ip pc \<Rightarrow> string set" where
  "unpins (UnpinContent _ md) = {md_cid md}"
| "unpins _ = {}"

definition in_flight :: "'ip pc list \<Rightarrow> string set" where
  "in_flight ths = (\<Union>pc \<in> set ths. claimed pc)"

text \<open>No content is being counted or unpinned while a \<open>PUT\<close> in progress has added it.\<close>

definition apart :: "'ip pc list \<Rightarrow> bool" where
  "apart ths \<longleftrightarrow> (\<forall>pc \<in> set ths. \<forall>pc' \<in> set ths. sweeps pc \<inter> claimed pc' = {})"

lemma unpins_sweeps: "unpins pc \<subseteq> sweeps pc"
  by (cases pc) simp_all

lemma apart_in_flight: "apart ths \<Longrightarrow> pc \<in> set ths \<Longrightarrow> sweeps pc \<inter> in_flight ths = {}"
  by (auto simp: apart_def in_flight_def)

lemma unpins_done [simp]:
  "unpins (next_delete E b ks ds es) = {}" "unpins (delete_done E d h) = {}"
  "unpins (search_done E cfg md found) = {}" "unpins (fst (unpin_done E cfg u md r s)) = {}"
proof -
  show next_del: "unpins (next_delete E b ks ds es) = {}" for b ks ds es
    by (simp add: next_delete_def split: list.split)
  show del: "unpins (delete_done E d h) = {}" for d h
    by (simp add: delete_done_def next_del split: delete_owner.split sum.split)
  show "unpins (search_done E cfg md found) = {}"
    by (simp add: search_done_def split: option.split sum.split)
  show "unpins (fst (unpin_done E cfg u md r s)) = {}"
    by (simp add: unpin_done_def del split: unpin_owner.split sum.split)
qed

lemma unpins_start [simp]: "unpins (start E op) = {}" "unpins (start_task E t) = {}"
  by (auto simp: start_def start_task_def split: op.split option.split background.split)

lemma claimed_done [simp]:
  "claimed (next_delete E b ks ds es) = {}" "claimed (delete_done E d h) = {}"
  "claimed (search_done E cfg md found) = {}" "claimed (fst (unpin_done E cfg u md r s)) = {}"
proof -
  show next_del: "claimed (next_delete E b ks ds es) = {}" for b ks ds es
    by (simp add: next_delete_def split: list.split)
  show del: "claimed (delete_done E d h) = {}" for d h
    by (simp add: delete_done_def next_del split: delete_owner.split sum.split)
  show "claimed (search_done E cfg md found) = {}"
    by (simp add: search_done_def split: option.split sum.split)
  show "claimed (fst (unpin_done E cfg u md r s)) = {}"
    by (simp add: unpin_done_def del split: unpin_owner.split sum.split)
qed

lemma unpin_done_frame [simp]:
  "app_db (snd (unpin_done E cfg u md r s)) = app_db s"
  "app_node (snd (unpin_done E cfg u md r s)) = app_node s"
  by (simp_all add: unpin_done_def split: unpin_owner.split sum.split)

text \<open>The steps that change the table or the node.\<close>

fun effectful :: "'ip pc \<Rightarrow> bool" where
  "effectful (AddBytes _ _ _ _ _ _ _) = True"
| "effectful (LinkContent _ _ _ _ _ _ _ _) = True"
| "effectful (StoreRow _ _ _ _ _ _ _) = True"
| "effectful (UnlinkDoomed _ _ _) = True"
| "effectful (DeleteRow _ _) = True"
| "effectful (UnpinContent _ _) = True"
| "effectful (UnlinkDir _) = True"
| "effectful _ = False"

lemma with_query:
  "with_db (get_object_metadata exec b k) s = (r, s1) \<Longrightarrow> rows_of s1 = rows_of s \<and> app_node s1 = app_node s"
  "with_db (cid_count exec c) s = (r', s1) \<Longrightarrow> rows_of s1 = rows_of s \<and> app_node s1 = app_node s"
  "with_db (run_statement exec (\<lambda>_ rows. (q rows, rows))) s = (r'', s1) \<Longrightarrow>
     rows_of s1 = rows_of s \<and> app_node s1 = app_node s"
  by (auto elim!: with_dbE dest: get_object_metadata_rows cid_count_rows run_query_rows)

lemma get_object_same: "get_object E cfg (b, k) ip s = (h, s') \<Longrightarrow> same_data s s'"
  by (erule get_object_cases) simp_all

lemma head_object_same: "head_object_metadata E (b, k) s = (h, s') \<Longrightarrow> same_data s s'"
  by (erule head_object_cases) simp_all

lemma abort_upload_same: "abort_upload E u s = (h, s') \<Longrightarrow> rows_of s' = rows_of s \<and> app_node s' = app_node s"
  by (auto simp: abort_upload_def with_slots_def split: prod.splits)

lemma advance_quiet:
  assumes "\<not> effectful pc" and run: "advance E cfg pc s = (pc', s')"
  shows "rows_of s' = rows_of s \<and> app_node s' = app_node s \<and> claimed pc' = {}"
proof (cases pc)
  case (SelectOld p b k ct body)
  obtain q s1 where q: "with_db (get_object_metadata (sqlx_exec E) b k) s = (q, s1)" by fastforce
  with run have "s' = s1 \<and> claimed pc' = {}" by (auto simp: SelectOld split: sum.splits)
  then show ?thesis using with_query(1) [OF q] by simp
next
  case (SelectDoomed d b k)
  obtain q s1 where q: "with_db (get_object_metadata (sqlx_exec E) b k) s = (q, s1)" by fastforce
  with run have "s' = s1 \<and> claimed pc' = {}" by (auto simp: SelectDoomed split: sum.splits option.splits)
  then show ?thesis using with_query(1) [OF q] by simp
next
  case (CountRefs u md)
  obtain q s1 where q: "with_db (cid_count (sqlx_exec E) (md_cid md)) s = (q, s1)" by fastforce
  have "claimed pc' = {} \<and> rows_of s' = rows_of s1 \<and> app_node s' = app_node s1"
  proof (cases "q = Inr 0")
    case True
    with run q show ?thesis by (auto simp: CountRefs)
  next
    case False
    with run q obtain r where "unpin_done E cfg u md r s1 = (pc', s')"
      by (auto simp: CountRefs split: sum.splits if_splits)
    then show ?thesis using claimed_done(4) [of E cfg u md r s1] unpin_done_frame [of E cfg u md r s1]
      by (metis fst_conv snd_conv)
  qed
  then show ?thesis using with_query(2) [OF q] by simp
next
  case (SearchDir md as found)
  show ?thesis
  proof (cases as)
    case Nil
    with run show ?thesis by (auto simp: SearchDir)
  next
    case (Cons a bs)
    obtain q s1 where q: "with_db (run_statement (sqlx_exec E)
        (\<lambda>_ rows. (sql_count_like (md_bucket md) (a @ ''/%'') rows, rows))) s = (q, s1)" by fastforce
    with run Cons have "s' = s1 \<and> claimed pc' = {}" by (auto simp: SearchDir split: sum.splits if_splits)
    then show ?thesis using with_query(3) [OF q] by simp
  qed
next
  case (WritePart p body)
  with run show ?thesis by (auto split: prod.splits dest!: upload_part_frame)
next
  case (CheckSlots b k u)
  with run show ?thesis by (auto split: sum.splits)
next
  case (TakeSlot b k u)
  with run show ?thesis by (auto simp: with_slots_def split: prod.splits option.splits)
next
  case (DropSlot u)
  with run show ?thesis by (auto split: prod.splits dest!: abort_upload_same)
next
  case (ReadRow b k ip)
  with run show ?thesis by (auto simp: same_data_def split: prod.splits dest!: get_object_same)
next
  case (HeadRow b k)
  with run show ?thesis by (auto simp: same_data_def split: prod.splits dest!: head_object_same)
qed (use assms in auto)

lemma node_call:
  assumes "with_node f s = (r, s1)"
  shows "rows_of s1 = rows_of s" and "f (app_node s) = (r, app_node s1)"
  using assms by (auto elim: with_nodeE)

lemma unpin_step:
  assumes "advance E cfg (UnpinContent u md) s = (pc', s')"
  obtains q s1 where "with_node (unpin (node_api E) md) s = (q, s1)" "rows_of s' = rows_of s1"
    "app_node s' = app_node s1" "claimed pc' = {}"
proof -
  obtain q s1 where q: "with_node (unpin (node_api E) md) s = (q, s1)" by fastforce
  obtain r where "unpin_done E cfg u md r s1 = (pc', s')"
    using assms q by (auto split: sum.splits)
  then show thesis
    using that [OF q] claimed_done(4) [of E cfg u md r s1] unpin_done_frame [of E cfg u md r s1] by (metis fst_conv snd_conv)
qed

text \<open>What a step does to the table, and what it does to the pins.\<close>

lemma advance_rows:
  assumes pk: "primary_key (rows_of s)" and run: "advance E cfg pc s = (pc', s')"
  shows "primary_key (rows_of s') \<and> referenced_cids (rows_of s') \<subseteq> referenced_cids (rows_of s) \<union> claimed pc"
proof (cases "effectful pc")
  case False
  from advance_quiet [OF False run] pk show ?thesis by simp
next
  case True
  then show ?thesis
  proof (cases pc)
    case (StoreRow p b k old ct n added)
    obtain q s1 where q: "with_db (store_object_metadata (sqlx_exec E) b k (ar_hash added) (usize_as_i64 n) ct) s
        = (q, s1)" by fastforce
    then obtain db1 where db1: "store_object_metadata (sqlx_exec E) b k (ar_hash added) (usize_as_i64 n) ct (app_db s)
        = (q, db1)" "s1 = s\<lparr>app_db := db1\<rparr>" by (rule with_dbE)
    have "rows_of s' = db_rows db1" using run q db1(2) by (auto simp: StoreRow split: sum.splits)
    then show ?thesis
      using store_object_metadata_rows [OF db1(1)] pk primary_key_upsert [OF pk]
      by (cases "is_ok q") (auto simp: StoreRow dest: subsetD [OF referenced_cids_upsert [OF pk]])
  next
    case (DeleteRow d md)
    obtain q s1 where q: "with_db (db_delete_object (sqlx_exec E) md) s = (q, s1)" by fastforce
    then obtain db1 where db1: "db_delete_object (sqlx_exec E) md (app_db s) = (q, db1)" "s1 = s\<lparr>app_db := db1\<rparr>"
      by (rule with_dbE)
    have "rows_of s' = db_rows db1" using run q db1(2) by (auto simp: DeleteRow split: sum.splits)
    then show ?thesis
      using db_delete_object_rows [OF db1(1)] pk referenced_cids_delete [OF pk] primary_key_delete [OF pk]
      by (cases "is_ok q") auto
  next
    case (UnpinContent u md)
    obtain q s1 where "with_node (unpin (node_api E) md) s = (q, s1)" "rows_of s' = rows_of s1"
      using run unfolding UnpinContent by (rule unpin_step)
    then show ?thesis using pk node_call(1) by fastforce
  qed (use run pk in \<open>auto split: prod.splits sum.splits dest!: node_call(1)\<close>)
qed

lemma advance_node_pins:
  assumes laws: "pin_laws (node_api E) pins" and run: "advance E cfg pc s = (pc', s')"
  shows "pins (app_node s) - unpins pc \<subseteq> pins (app_node s') \<and> claimed pc' \<subseteq> pins (app_node s') \<union> claimed pc"
proof (cases "effectful pc")
  case False
  from advance_quiet [OF False run] show ?thesis by auto
next
  case True
  have unlinked: "pins (app_node s1) = pins (app_node s)"
    if "with_node (unlink (node_api E) path) s = (q, s1)" for path q s1
    using node.drop_link_keeps [OF laws] node_call(2) [OF that] by (metis snd_conv)
  show ?thesis using True
  proof (cases pc)
    case (AddBytes p b k old ct path body)
    obtain q s1 where q: "with_node (api_add (node_api E) body) s = (q, s1)" by fastforce
    have "pins (app_node s) \<subseteq> pins (app_node s1)" "\<And>a. q = Inr a \<Longrightarrow> ar_hash a \<in> pins (app_node s1)"
      using laws node_call(2) [OF q] unfolding pin_laws_def by (metis snd_conv, metis fst_conv snd_conv)
    then show ?thesis using run q by (auto simp: AddBytes split: sum.splits)
  next
    case (LinkContent p b k old ct path n added)
    obtain q s1 where q: "with_node (api_files_cp (node_api E) \<lparr>cp_path = ''/ipfs/'' @ ar_hash added,
        cp_dest = path, cp_parents = Some True, cp_force = Some True\<rparr>) s = (q, s1)" by fastforce
    have "pins (app_node s1) = pins (app_node s)"
      using laws node_call(2) [OF q] unfolding pin_laws_def by (metis snd_conv)
    then show ?thesis using run q by (auto simp: LinkContent split: sum.splits)
  next
    case (StoreRow p b k old ct n added)
    obtain q s1 where q: "with_db (store_object_metadata (sqlx_exec E) b k (ar_hash added) (usize_as_i64 n) ct) s
        = (q, s1)" by fastforce
    then have "app_node s1 = app_node s" by (auto elim: with_dbE)
    then show ?thesis using run q by (auto simp: StoreRow split: sum.splits)
  next
    case (DeleteRow d md)
    obtain q s1 where q: "with_db (db_delete_object (sqlx_exec E) md) s = (q, s1)" by fastforce
    then have "app_node s1 = app_node s" by (auto elim: with_dbE)
    then show ?thesis using run q by (auto simp: DeleteRow split: sum.splits)
  next
    case (UnlinkDoomed d md path)
    obtain q s1 where q: "with_node (unlink (node_api E) path) s = (q, s1)" by fastforce
    with run have "s' = s1 \<and> claimed pc' = {}" by (auto simp: UnlinkDoomed split: sum.splits)
    then show ?thesis using unlinked [OF q] by simp
  next
    case (UnlinkDir path)
    obtain q s1 where q: "with_node (unlink (node_api E) path) s = (q, s1)" by fastforce
    with run have "s' = s1 \<and> claimed pc' = {}" by (auto simp: UnlinkDir)
    then show ?thesis using unlinked [OF q] by simp
  next
    case (UnpinContent u md)
    obtain q s1 where q: "with_node (unpin (node_api E) md) s = (q, s1)"
      and same: "app_node s' = app_node s1" "claimed pc' = {}"
      using run unfolding UnpinContent by (rule unpin_step)
    have "pins (app_node s) - {md_cid md} \<subseteq> pins (app_node s1)"
      using node.drop_pin_keeps [OF laws] node_call(2) [OF q] by (metis snd_conv)
    with same show ?thesis by (simp add: UnpinContent)
  qed simp_all
qed

text \<open>A thread comes to unpin content only by counting no reference to it.\<close>

lemma advance_unpins:
  assumes pk: "primary_key (rows_of s)" and run: "advance E cfg pc s = (pc', s')"
  shows "unpins pc' \<inter> referenced_cids (rows_of s') = {}"
proof (cases pc)
  case (CountRefs u md)
  obtain q s1 where q: "with_db (cid_count (sqlx_exec E) (md_cid md)) s = (q, s1)" by fastforce
  then obtain db1 where db1: "cid_count (sqlx_exec E) (md_cid md) (app_db s) = (q, db1)" "s1 = s\<lparr>app_db := db1\<rparr>"
    by (rule with_dbE)
  show ?thesis
  proof (cases "q = Inr 0")
    case True
    with run q have "pc' = UnpinContent u md" "s' = s1" by (simp_all add: CountRefs)
    moreover have "md_cid md \<notin> referenced_cids (rows_of s)"
      using cid_count_rows [OF db1(1)] True sql_count_zero [OF pk] by simp
    moreover have "rows_of s1 = rows_of s" using cid_count_rows [OF db1(1)] db1(2) by simp
    ultimately show ?thesis by simp
  next
    case False
    with run q obtain r where "unpin_done E cfg u md r s1 = (pc', s')"
      by (auto simp: CountRefs split: sum.splits if_splits)
    then show ?thesis using unpins_done(4) [of E cfg u md r s1] by simp
  qed
next
  case (UnpinContent u md)
  then obtain r s1 where "unpin_done E cfg u md r s1 = (pc', s')"
    using run by (auto split: prod.splits sum.splits)
  then show ?thesis using unpins_done(4) [of E cfg u md r s1] by simp
qed (use run in \<open>auto split: prod.splits sum.splits option.splits list.splits if_splits\<close>)

lemma in_flight_append [simp]: "in_flight (ths @ [pc]) = in_flight ths \<union> claimed pc"
  by (auto simp: in_flight_def)

lemma in_flight_update: "i < length ths \<Longrightarrow> in_flight (ths[i := pc]) \<subseteq> in_flight ths \<union> claimed pc"
  using set_update_subset_insert [of ths i pc] by (auto simp: in_flight_def)

lemma claimed_in_flight: "i < length ths \<Longrightarrow> claimed (ths ! i) \<subseteq> in_flight ths"
  unfolding in_flight_def by (intro UN_upper nth_mem)

lemma claimed_start [simp]: "claimed (start E op) = {}" "claimed (start_task E t) = {}"
  by (auto simp: start_def start_task_def split: op.split option.split background.split)

end
