(* ===== verification/ObjectStore.thy ===== *)
theory ObjectStore imports Concurrency begin

text \<open>
  What the service promises, as an abstract specification: a map from bucket and key to the bytes and the
  content type of an object and the size recorded for it (\<open>objects\<close>), and for each request the ways it may change that map and what it
  may answer (\<open>spec\<close>). The handlers implement it as long as the node keeps pinned content
  (\<open>store_ok\<close>); the background tasks change nothing.
\<close>

section \<open>The interface: pinned content is kept\<close>

locale durable_content = pin_store add drop_link drop_pin pins lawful
  for add :: "string \<Rightarrow> bytes \<Rightarrow> 'i \<Rightarrow> (ipfs_error + add_response) \<times> 'i"
    and drop_link :: "string \<Rightarrow> 'i \<Rightarrow> (ipfs_error + unit) \<times> 'i"
    and drop_pin :: "metadata_response \<Rightarrow> 'i \<Rightarrow> (ipfs_error + unit) \<times> 'i"
    and pins :: "'i \<Rightarrow> string set"
    and lawful :: bool +
  fixes content :: "'i \<Rightarrow> string \<Rightarrow> bytes option"
  assumes add_content_stores: "lawful \<Longrightarrow> fst (add p d i) = Inr a \<Longrightarrow> content (snd (add p d i)) (ar_hash a) = Some d"
    and add_content_keeps: "lawful \<Longrightarrow> c \<in> pins i \<Longrightarrow> content i c \<noteq> None \<Longrightarrow>
      content (snd (add p d i)) c = content i c"
    and drop_link_content: "lawful \<Longrightarrow> c \<in> pins i \<Longrightarrow> content (snd (drop_link p i)) c = content i c"
    and drop_pin_content: "lawful \<Longrightarrow> c \<in> pins i \<Longrightarrow> c \<noteq> md_cid m \<Longrightarrow>
      content (snd (drop_pin m i)) c = content i c"
begin

text \<open>A set of identifiers is held: pinned, with bytes. It is carried over: still held, with the same bytes.\<close>

definition held :: "'i \<Rightarrow> string set \<Rightarrow> bool" where
  "held i cs \<longleftrightarrow> (\<forall>c \<in> cs. c \<in> pins i \<and> content i c \<noteq> None)"

definition carried :: "'i \<Rightarrow> string set \<Rightarrow> 'i \<Rightarrow> bool" where
  "carried i cs i' \<longleftrightarrow> held i' cs \<and> (\<forall>c \<in> cs. content i' c = content i c)"

lemma carried_refl: "held i cs \<Longrightarrow> carried i cs i"
  by (simp add: carried_def)

lemma carried_add: "lawful \<Longrightarrow> held i cs \<Longrightarrow> add p d i = (r, i') \<Longrightarrow> carried i cs i'"
  using add_content_keeps [of _ i p d] add_keeps [of i p d] by (auto simp: carried_def held_def)

lemma held_added: "lawful \<Longrightarrow> add p d i = (Inr a, i') \<Longrightarrow> held i' {ar_hash a} \<and> content i' (ar_hash a) = Some d"
  using add_content_stores [of p d i a] add_pins [of p d i a] by (simp add: held_def)

lemma carried_drop_link: "lawful \<Longrightarrow> held i cs \<Longrightarrow> drop_link p i = (r, i') \<Longrightarrow> carried i cs i'"
  using drop_link_content [of _ i p] drop_link_keeps [of p i] by (auto simp: carried_def held_def)

lemma carried_drop_pin:
  "lawful \<Longrightarrow> held i cs \<Longrightarrow> md_cid m \<notin> cs \<Longrightarrow> drop_pin m i = (r, i') \<Longrightarrow> carried i cs i'"
  using drop_pin_content [of _ i m] drop_pin_keeps [of i m] by (fastforce simp: carried_def held_def)

end

lemma content_lawsD_kept:
  assumes "content_laws A pins content" and "c \<in> pins i"
  shows "content i c \<noteq> None \<Longrightarrow> content (snd (api_add A d i)) c = content i c"
    and "content (snd (api_files_cp A r i)) c = content i c"
    and "content (snd (api_files_rm A p b i)) c = content i c"
    and "c \<noteq> c' \<Longrightarrow> content (snd (api_pin_rm A c' b i)) c = content i c"
  using assms unfolding content_laws_def by simp_all

interpretation durable: durable_content "add_content A" "unlink A" "unpin A" pins
    "pin_laws A pins \<and> content_laws A pins content" content
  for A :: "'i ipfs_api" and pins content
proof
  fix p d i a c and m :: metadata_response
  assume laws: "pin_laws A pins \<and> content_laws A pins content"
  then have pin: "pin_laws A pins" and con: "content_laws A pins content" by simp_all
  show "pins i \<subseteq> pins (snd (add_content A p d i))"
    and "pins (snd (unlink A p i)) = pins i"
    and "pins i - {md_cid m} \<subseteq> pins (snd (unpin A m i))"
    by (rule node.add_keeps [OF pin] node.drop_link_keeps [OF pin] node.drop_pin_keeps [OF pin])+
  show "ar_hash a \<in> pins (snd (add_content A p d i))" if "fst (add_content A p d i) = Inr a"
    by (rule node.add_pins [OF pin that])
  show "pins (snd (unpin A m i)) = pins i - {md_cid m}" if "is_ok (fst (unpin A m i))"
    by (rule node.drop_pin_drops [OF pin that])
  show "content (snd (add_content A p d i)) (ar_hash a) = Some d" if "fst (add_content A p d i) = Inr a"
    by (rule blocks.add_stores [OF laws that])
  show "content (snd (unlink A p i)) c = content i c" if "c \<in> pins i"
    using content_lawsD_kept(3) [OF con that, of p True] by (auto simp: unlink_def split: prod.splits sum.splits)
  show "content (snd (unpin A m i)) c = content i c" if "c \<in> pins i" "c \<noteq> md_cid m"
    using content_lawsD_kept(4) [OF con that, of True] by (auto simp: unpin_def split: prod.splits sum.splits)
  show "content (snd (add_content A p d i)) c = content i c" if c: "c \<in> pins i" "content i c \<noteq> None"
  proof -
    obtain r1 i1 where add: "api_add A d i = (r1, i1)" by fastforce
    have "c \<in> pins i1" using pin c(1) add unfolding pin_laws_def by (metis in_mono snd_conv)
    with content_lawsD_kept(2) [OF con, of c i1] content_lawsD_kept(1) [OF con c, of d] add show ?thesis
      by (auto simp: add_content_def split: sum.splits prod.splits) (metis snd_conv)+
  qed
qed

section \<open>The abstract objects\<close>

type_synonym object_map = "string \<times> string \<Rightarrow> (bytes \<times> string \<times> i64) option"

definition objects ::
  "('i \<Rightarrow> string \<Rightarrow> bytes option) \<Rightarrow> ('p, 'i, 'm) app_state \<Rightarrow> object_map" where
  "objects content s bk =
     Option.bind (sql_select (fst bk) (snd bk) (rows_of s))
       (\<lambda>md. map_option (\<lambda>d. (d, md_content_type md, md_size md)) (content (app_node s) (md_cid md)))"

definition store_ok ::
  "('i \<Rightarrow> string set) \<Rightarrow> ('i \<Rightarrow> string \<Rightarrow> bytes option) \<Rightarrow> ('p, 'i, 'm) app_state \<Rightarrow> bool" where
  "store_ok pins content s \<longleftrightarrow>
     primary_key (rows_of s) \<and> durable.held pins content (app_node s) (referenced_cids (rows_of s))"

lemma select_referenced: "sql_select b k rows = Some md \<Longrightarrow> md_cid md \<in> referenced_cids rows"
  by (auto simp: sql_select_def referenced_cids_def metadata_of_row_def find_Some_iff)

lemma objects_carried:
  assumes "durable.carried pins content (app_node s) cs (app_node s')" and "rows_of s' = rows_of s"
    and "referenced_cids (rows_of s) \<subseteq> cs"
  shows "objects content s' = objects content s"
proof
  fix bk
  show "objects content s' bk = objects content s bk"
    using assms select_referenced [of "fst bk" "snd bk" "rows_of s"]
    by (cases "sql_select (fst bk) (snd bk) (rows_of s)") (auto simp: objects_def durable.carried_def)
qed

lemma store_ok_carried:
  assumes "store_ok pins content s" and "rows_of s' = rows_of s"
    and "durable.carried pins content (app_node s) (referenced_cids (rows_of s)) (app_node s')"
  shows "store_ok pins content s' \<and> objects content s' = objects content s"
  using assms objects_carried [OF assms(3,2)] by (simp add: store_ok_def durable.carried_def)

lemma store_ok_same:
  "store_ok pins content s \<Longrightarrow> rows_of s' = rows_of s \<Longrightarrow> app_node s' = app_node s \<Longrightarrow>
     store_ok pins content s' \<and> objects content s' = objects content s"
  by (auto simp: store_ok_def objects_def fun_eq_iff)

abbreviation store_laws where
  "store_laws E pins content \<equiv> pin_laws (node_api E) pins \<and> content_laws (node_api E) pins content"

section \<open>What each handler does to the objects\<close>

lemma unpin_if_orphan_objects:
  assumes laws: "store_laws E pins content" and ok: "store_ok pins content s"
    and run: "unpin_if_orphan E md s = (r, s')"
  shows "store_ok pins content s' \<and> objects content s' = objects content s"
  using run
proof (cases rule: unpin_if_orphan_cases)
  case (kept db')
  then show ?thesis by (intro store_ok_same [OF ok]) simp_all
next
  case (unpinned db' u i')
  have "md_cid md \<notin> referenced_cids (rows_of s)"
    using unpinned(3) ok by (simp add: store_ok_def flip: sql_count_zero)
  then show ?thesis
    using durable.carried_drop_pin [OF laws _ _ unpinned(4)] ok unpinned(1,2)
    by (intro store_ok_carried [OF ok]) (simp_all add: store_ok_def)
qed

lemma unpin_status: "unpin_if_orphan E md s = (Inl st, s') \<Longrightarrow> st \<noteq> NOT_FOUND"
  by (auto simp: unpin_if_orphan_def split: sum.splits if_splits prod.splits)

lemma add_content_objects:
  assumes laws: "store_laws E pins content" and ok: "store_ok pins content s" and "rows_of s' = rows_of s"
    and run: "add_content (node_api E) path d (app_node s) = (r, app_node s')"
  shows "store_ok pins content s' \<and> objects content s' = objects content s"
  using durable.carried_add [OF laws _ run] ok assms(3) by (intro store_ok_carried [OF ok]) (simp_all add: store_ok_def)

lemma unlink_objects:
  assumes laws: "store_laws E pins content" and ok: "store_ok pins content s" and "rows_of s' = rows_of s"
    and run: "unlink (node_api E) path (app_node s) = (r, app_node s')"
  shows "store_ok pins content s' \<and> objects content s' = objects content s"
  using durable.carried_drop_link [OF laws _ run] ok assms(3)
  by (intro store_ok_carried [OF ok]) (simp_all add: store_ok_def)

lemma stored_objects:
  assumes laws: "store_laws E pins content" and ok: "store_ok pins content s"
    and add: "add_content (node_api E) path d (app_node s) = (Inr added, app_node s')"
    and rows: "rows_of s' = sql_upsert (ar_hash added) b k ct sz now (rows_of s)"
  shows "store_ok pins content s' \<and> objects content s' = (objects content s)((b, k) \<mapsto> (d, ct, sz))"
proof -
  have pk: "primary_key (rows_of s)" using ok by (simp add: store_ok_def)
  have old: "durable.carried pins content (app_node s) (referenced_cids (rows_of s)) (app_node s')"
    using durable.carried_add [OF laws _ add] ok by (simp add: store_ok_def)
  have new: "durable.held pins content (app_node s') {ar_hash added}"
      "content (app_node s') (ar_hash added) = Some d"
    using durable.held_added [OF laws add] by simp_all
  have "durable.held pins content (app_node s') (referenced_cids (rows_of s'))"
    using old new(1) referenced_cids_upsert [OF pk, of "ar_hash added" b k ct sz now] rows
    by (auto simp: durable.held_def durable.carried_def)
  then have "store_ok pins content s'"
    using pk by (simp add: store_ok_def rows primary_key_upsert)
  moreover have "objects content s' bk = ((objects content s)((b, k) \<mapsto> (d, ct, sz))) bk" for bk
  proof (cases "bk = (b, k)")
    case True
    then show ?thesis by (simp add: objects_def rows sql_select_upsert new(2))
  next
    case False
    then have "sql_select (fst bk) (snd bk) (rows_of s') = sql_select (fst bk) (snd bk) (rows_of s)"
      by (cases bk) (auto simp: rows sql_select_upsert)
    then show ?thesis
      using False old select_referenced [of "fst bk" "snd bk" "rows_of s"]
      by (cases "sql_select (fst bk) (snd bk) (rows_of s)") (auto simp: objects_def durable.carried_def)
  qed
  ultimately show ?thesis by (simp add: fun_eq_iff)
qed

text \<open>\<open>PUT\<close>: stored on success (and when only the response could not be built), else unchanged.\<close>

lemma store_object_objects:
  assumes laws: "store_laws E pins content" and ok: "store_ok pins content s"
    and run: "store_object E cfg b k ct body s = (r, s')"
  shows "store_ok pins content s' \<and> objects content s' =
    (case r of Inl (Status _) \<Rightarrow> objects content s
     | _ \<Rightarrow> (objects content s)((b, k) \<mapsto> (body, content_type_of E cfg ct k, usize_as_i64 (length body))))"
  using run
proof (cases rule: store_object_cases)
  case (add_failed path e)
  with add_content_objects [OF laws ok add_failed(4,3)] show ?thesis by simp
next
  case (store_failed path added)
  with add_content_objects [OF laws ok store_failed(4,3)] show ?thesis by simp
next
  case (stored path added now)
  from stored_objects [OF laws ok stored(2,3)] show ?thesis
    by (auto simp: stored(6) split: sum.splits)
qed (use store_ok_same [OF ok, of s'] in simp_all)

text \<open>\<open>DELETE\<close>: removed on success; missing only when there is none; after an error either is possible.\<close>

lemma remove_object_objects:
  assumes laws: "store_laws E pins content" and ok: "store_ok pins content s"
    and run: "remove_object E cfg b k s = (r, s')"
  shows "store_ok pins content s' \<and>
    (case r of
       Inr _ \<Rightarrow> objects content s (b, k) \<noteq> None \<and> objects content s' = (objects content s)((b, k) := None)
     | Inl e \<Rightarrow>
         if e = Status NOT_FOUND then objects content s (b, k) = None \<and> objects content s' = objects content s
         else objects content s' \<in> {objects content s, (objects content s)((b, k) := None)})"
  using run
proof (cases rule: remove_object_cases)
  case missing
  with store_ok_same [OF ok, of s'] show ?thesis by (simp add: objects_def)
next
  case (unlink_failed md path e)
  with unlink_objects [OF laws ok unlink_failed(5,4)] show ?thesis by simp
next
  case (delete_failed md path)
  with unlink_objects [OF laws ok delete_failed(5,4)] show ?thesis by simp
next
  case (removed md path s3 w s4)
  have pk: "primary_key (rows_of s)" using ok by (simp add: store_ok_def)
  have carried: "durable.carried pins content (app_node s) (referenced_cids (rows_of s)) (app_node s3)"
    using durable.carried_drop_link [OF laws _ removed(3)] ok by (simp add: store_ok_def)
  have there: "objects content s (b, k) \<noteq> None"
    using ok select_referenced [OF removed(1)] removed(1) by (auto simp: objects_def store_ok_def durable.held_def)
  have "objects content s3 bk = ((objects content s)((b, k) := None)) bk" for bk
    using carried select_referenced [of "fst bk" "snd bk" "rows_of s"]
    by (cases bk; cases "sql_select (fst bk) (snd bk) (rows_of s)")
      (auto simp: objects_def removed(4) sql_select_delete durable.carried_def)
  then have objs3: "objects content s3 = (objects content s)((b, k) := None)" by (simp add: fun_eq_iff)
  have "store_ok pins content s3"
    using carried pk referenced_cids_delete [OF pk, of b k] removed(4)
    by (auto simp: store_ok_def durable.carried_def durable.held_def primary_key_delete)
  from unpin_if_orphan_objects [OF laws this removed(7)]
  have s4: "store_ok pins content s4" "objects content s4 = (objects content s)((b, k) := None)"
    using objs3 by simp_all
  have same: "rows_of s' = rows_of s4" "app_node s' = app_node s4"
    using removed(8) by (auto split: sum.splits if_splits)
  have "store_ok pins content s'" "objects content s' = (objects content s)((b, k) := None)"
    using store_ok_same [OF s4(1) same] s4(2) by simp_all
  then show ?thesis using removed(8) there removed(7) by (auto split: sum.splits dest: unpin_status)
qed (use store_ok_same [OF ok, of s'] in simp_all)

lemma delete_each_objects:
  assumes laws: "store_laws E pins content"
  shows "store_ok pins content s \<Longrightarrow> delete_each E cfg b ks s = (ds, es, s') \<Longrightarrow>
    store_ok pins content s' \<and> (\<exists>D. set ds \<subseteq> D \<and> D \<subseteq> set ks \<and>
      objects content s' = (\<lambda>bk. if fst bk = b \<and> snd bk \<in> D then None else objects content s bk))"
proof (induction ks arbitrary: s ds es s')
  case (Cons k ks)
  obtain r s1 where r: "remove_object E cfg b k s = (r, s1)" by fastforce
  obtain ds1 es1 s2 where rest: "delete_each E cfg b ks s1 = (ds1, es1, s2)" by (metis prod_cases3)
  have step: "store_ok pins content s1" "is_ok r \<Longrightarrow> objects content s1 = (objects content s)((b, k) := None)"
      "objects content s1 \<in> {objects content s, (objects content s)((b, k) := None)}"
    using remove_object_objects [OF laws Cons.prems(1) r] by (auto split: sum.splits if_splits)
  have s': "s' = s2" and ds: "ds = (if is_ok r then k # ds1 else ds1)"
    using Cons.prems(2) r rest by (auto simp: delete_object_def split: sum.splits)
  from Cons.IH [OF step(1) rest] obtain D where D: "store_ok pins content s2" "set ds1 \<subseteq> D" "D \<subseteq> set ks"
      "objects content s2 = (\<lambda>bk. if fst bk = b \<and> snd bk \<in> D then None else objects content s1 bk)"
    by blast
  show ?case
  proof (cases "objects content s1 = (objects content s)((b, k) := None)")
    case True
    then show ?thesis
      using D ds unfolding s' by (intro conjI exI [of _ "insert k D"]) (auto simp: fun_eq_iff)
  next
    case False
    then show ?thesis
      using D ds step(2,3) unfolding s' by (intro conjI exI [of _ D]) auto
  qed
qed auto

lemma trim_empty_objects:
  assumes laws: "store_laws E pins content" and ok: "store_ok pins content s"
  shows "store_ok pins content (trim_empty E cfg md s) \<and> objects content (trim_empty E cfg md s) = objects content s"
proof -
  obtain q s1 where q: "with_db (find_shallowest_removable_directory (sqlx_exec E) (path_ancestors E)
      (md_bucket md) (md_key md)) s = (q, s1)" by fastforce
  then have node: "app_node s1 = app_node s" by (auto elim: with_dbE)
  have "\<exists>path. trim_empty E cfg md s = s1 \<or> trim_empty E cfg md s = snd (with_node (unlink (node_api E) path) s1)"
    using q by (auto simp: trim_empty_def split: sum.splits option.splits)
  then obtain path where "trim_empty E cfg md s = s1 \<or> trim_empty E cfg md s = snd (with_node (unlink (node_api E) path) s1)"
    by blast
  then consider "app_node (trim_empty E cfg md s) = app_node s"
    | "unlink (node_api E) path (app_node s) = (fst (unlink (node_api E) path (app_node s)), app_node (trim_empty E cfg md s))"
    using node by fastforce
  then show ?thesis
    by cases (use store_ok_same [OF ok trim_empty_rows] unlink_objects [OF laws ok trim_empty_rows] in blast)+
qed

lemma run_background_objects:
  assumes laws: "store_laws E pins content" and ok: "store_ok pins content s"
  shows "store_ok pins content (run_background E cfg t s) \<and> objects content (run_background E cfg t s) = objects content s"
proof (cases t)
  case (UnpinOld old added)
  then show ?thesis
    using ok unpin_if_orphan_objects [OF laws ok surjective_pairing]
    by (auto simp: run_background_def unpin_old_def split: option.split)
qed (simp add: run_background_def trim_empty_objects [OF laws ok])

lemma complete_upload_objects:
  assumes laws: "store_laws E pins content" and ok: "store_ok pins content s"
    and run: "complete_upload E cfg (b, k) u s = (r, s')"
  shows "store_ok pins content s' \<and>
    (if \<exists>st. r = Inl (Status st) then objects content s' = objects content s
     else \<exists>d. objects content s' = (objects content s)((b, k) \<mapsto> (d, content_type_of E cfg None k, usize_as_i64 (length d))))"
proof -
  obtain q s1 where q: "with_slots (slot_remove (slot_ops E) u) s = (q, s1)" by fastforce
  then have same: "rows_of s1 = rows_of s" "app_node s1 = app_node s" by (auto elim: with_slotsE)
  note ok1 = store_ok_same [OF ok same]
  show ?thesis
  proof (cases q)
    case None
    with run q ok1 show ?thesis by (auto simp: complete_upload_def)
  next
    case (Some kp)
    obtain j p where kp: "kp = (j, p)" by fastforce
    obtain w s2 where w: "store_object E cfg b k None (assemble_parts E p) s1 = (w, s2)" by fastforce
    have "s' = s2" "(\<exists>st. r = Inl (Status st)) = (\<exists>st. w = Inl (Status st))"
      using run q Some kp w by (auto simp: complete_upload_def put_object_def Let_def split: sum.splits)
    with store_object_objects [OF laws conjunct1 [OF ok1] w] ok1 show ?thesis
      by (auto split: sum.splits failure.splits)
  qed
qed

text \<open>A body that \<open>GET\<close> streams without an error is the object's bytes.\<close>

lemma map_sum_chunks:
  assumes "list_all is_ok (map (map_sum f id) xs)"
  shows "list_all is_ok xs" and "map projr (map (map_sum f id) xs) = map projr xs"
  using assms by (induction xs) (auto split: sum.splits simp: map_sum_sel isl_map_sum)

lemma get_object_streams:
  assumes laws: "store_laws E pins content" and run: "get_object E cfg (b, k) ip s = (Inr r, s')"
    and "resp_body r = Streamed cs" and "list_all is_ok cs" and "objects content s (b, k) = Some (d, ct, sz)"
  shows "concat (map projr cs) = d"
  using run
proof (cases rule: get_object_cases)
  case (found md)
  have content: "content (app_node s) (md_cid md) = Some d"
    using assms(5) found(1) by (auto simp: objects_def)
  have "cs = map (map_sum ipfs_error_text id) (get_content (node_api E) (md_cid md) (app_node s))"
    using found(3) assms(3)
    by (auto simp: redirect_def proxy_def build_def unwrap_or_default_def default_response_def Let_def
        split: if_splits)
  with map_sum_chunks assms(4) blocks.get_content [OF laws content] show ?thesis by metis
qed simp_all

section \<open>The specification\<close>

text \<open>What a request may answer and do to the objects. A \<open>PUT\<close> answered with an error status has stored
  nothing, a \<open>DELETE\<close> may have deleted all the same.\<close>

definition spec ::
  "('p, 'i, 'm, 'n, 'net, 'ip) env \<Rightarrow> 'net run_config \<Rightarrow> 'ip op \<Rightarrow> handler \<Rightarrow> object_map \<Rightarrow> object_map \<Rightarrow> bool" where
  "spec E cfg op h m m' \<longleftrightarrow>
     (case op of
        Put b k ct part data \<Rightarrow>
          (case part of
             Some _ \<Rightarrow> m' = m
           | None \<Rightarrow>
               (case h of
                  Inl (Status _) \<Rightarrow> m' = m
                | _ \<Rightarrow> m' = m((b, k) \<mapsto> (data, content_type_of E cfg ct k, usize_as_i64 (length data)))))
      | Delete b k upload \<Rightarrow>
          (case upload of
             Some _ \<Rightarrow> m' = m
           | None \<Rightarrow>
               (case h of
                  Inr _ \<Rightarrow> m (b, k) \<noteq> None \<and> m' = m((b, k) := None)
                | Inl e \<Rightarrow>
                    if e = Status NOT_FOUND then m (b, k) = None \<and> m' = m
                    else m' \<in> {m, m((b, k) := None)}))
      | DeleteMany b param payload \<Rightarrow>
          (case (param, parse_delete_payload E payload) of
             (Some _, Some ks) \<Rightarrow>
               \<exists>D. D \<subseteq> set ks \<and> m' = (\<lambda>bk. if fst bk = b \<and> snd bk \<in> D then None else m bk)
           | _ \<Rightarrow> m' = m)
      | Get b k _ \<Rightarrow>
          m' = m \<and>
          (case h of
             Inl e \<Rightarrow> e = Status NOT_FOUND \<longrightarrow> m (b, k) = None
           | Inr r \<Rightarrow>
               \<exists>d ct sz. m (b, k) = Some (d, ct, sz) \<and>
                 (\<forall>cs. resp_body r = Streamed cs \<and> list_all is_ok cs \<longrightarrow> concat (map projr cs) = d))
      | Head b k \<Rightarrow>
          m' = m \<and> (\<forall>r. h = Inr r \<longrightarrow>
            (resp_status r = NOT_FOUND \<longrightarrow> m (b, k) = None) \<and>
            (\<forall>v. header_get ''content-length'' r = Some v \<longrightarrow>
              (\<exists>d ct sz. m (b, k) = Some (d, ct, sz) \<and> v = show_i64 sz \<and> header_get ''content-type'' r = Some ct)))
      | Post b k params _ \<Rightarrow>
          if uploads_param params \<noteq> None \<or> upload_id_param params = None \<or> (\<exists>st. h = Inl (Status st))
          then m' = m
          else \<exists>d. m' = m((b, k) \<mapsto> (d, content_type_of E cfg None k, usize_as_i64 (length d))))"

lemma found_object:
  "store_ok pins content s \<Longrightarrow> sql_select b k (rows_of s) = Some md \<Longrightarrow>
     \<exists>d. objects content s (b, k) = Some (d, md_content_type md, md_size md)"
  using select_referenced [of b k "rows_of s" md] by (auto simp: objects_def store_ok_def durable.held_def)

lemma same_data_objects:
  "store_ok pins content s \<Longrightarrow> same_data s s' \<Longrightarrow> store_ok pins content s' \<and> objects content s' = objects content s"
  by (intro store_ok_same) (simp_all add: same_data_def)

lemma get_object_spec:
  assumes laws: "store_laws E pins content" and ok: "store_ok pins content s"
    and run: "get_object E cfg (b, k) ip s = (h, s')"
  shows "store_ok pins content s' \<and> spec E cfg (Get b k ip) h (objects content s) (objects content s')"
  using run
proof (cases rule: get_object_cases)
  case (found md)
  obtain d where "objects content s (b, k) = Some (d, md_content_type md, md_size md)"
    using found_object [OF ok found(1)] by blast
  with same_data_objects [OF ok found(2)] get_object_streams [OF laws run [unfolded found(3)]] show ?thesis
    by (auto simp: spec_def found(3))
qed (use same_data_objects [OF ok, of s'] in \<open>simp_all add: spec_def objects_def\<close>)

lemma head_object_spec:
  assumes ok: "store_ok pins content s" and run: "head_object_metadata E (b, k) s = (r, s')"
  shows "store_ok pins content s' \<and> spec E cfg (Head b k) (Inr r) (objects content s) (objects content s')"
  using run
proof (cases rule: head_object_cases)
  case (found md)
  have "r = default_response \<or> r = \<lparr>resp_status = OK, resp_headers = head_headers E md, resp_body = no_body\<rparr>"
    unfolding found(3) by (auto simp: unwrap_or_default_def build_def)
  then have "resp_status r \<noteq> NOT_FOUND" and "header_get ''content-length'' r = Some v \<longrightarrow>
      v = show_i64 (md_size md) \<and> header_get ''content-type'' r = Some (md_content_type md)" for v
    by (auto simp: default_response_def header_get_def head_headers_def)
  with same_data_objects [OF ok found(2)] found_object [OF ok found(1)] show ?thesis by (auto simp: spec_def)
qed (use same_data_objects [OF ok, of s'] in \<open>simp_all add: spec_def objects_def header_get_def\<close>)

lemma handle_spec:
  assumes laws: "store_laws E pins content" and ok: "store_ok pins content s"
    and run: "handle E cfg op s = (h, s')"
  shows "store_ok pins content s' \<and> spec E cfg op h (objects content s) (objects content s')"
proof (cases op)
  case (Put b k ct part data)
  show ?thesis
  proof (cases part)
    case None
    with run Put have "store_object E cfg b k ct data s = (h, s')" by (simp add: handle_def put_object_def)
    from store_object_objects [OF laws ok this] show ?thesis
      by (simp add: spec_def Put None split: sum.splits failure.splits)
  next
    case (Some p)
    with run Put have "upload_part E p data s = (h, s')" by (simp add: handle_def put_object_def)
    from upload_part_frame [OF this] store_ok_same [OF ok, of s'] show ?thesis by (simp add: spec_def Put Some)
  qed
next
  case (Delete b k upload)
  show ?thesis
  proof (cases upload)
    case None
    with run Delete have "remove_object E cfg b k s = (h, s')" by (simp add: handle_def delete_object_def)
    from remove_object_objects [OF laws ok this] show ?thesis by (simp add: spec_def Delete None split: sum.splits)
  next
    case (Some u)
    with run Delete have "abort_upload E u s = (h, s')" by (simp add: handle_def delete_object_def)
    from abort_upload_same [OF this] store_ok_same [OF ok, of s'] show ?thesis by (simp add: spec_def Delete Some)
  qed
next
  case (DeleteMany b param payload)
  show ?thesis
  proof (cases "param \<noteq> None \<and> parse_delete_payload E payload \<noteq> None")
    case True
    then obtain x ks where px: "param = Some x" "parse_delete_payload E payload = Some ks" by auto
    obtain ds es s1 where each: "delete_each E cfg b ks s = (ds, es, s1)" by (metis prod_cases3)
    have "s' = s1" using run each px by (auto simp: DeleteMany handle_def modify_bucket_def)
    with delete_each_objects [OF laws ok each] show ?thesis by (auto simp: spec_def DeleteMany px)
  next
    case False
    with run have "s' = s" by (auto simp: DeleteMany handle_def modify_bucket_def split: if_splits)
    then show ?thesis using ok False
      by (cases param; cases "parse_delete_payload E payload") (simp_all add: spec_def DeleteMany)
  qed
next
  case (Get b k ip)
  with run get_object_spec [OF laws ok, of cfg b k ip h s'] show ?thesis by (simp add: handle_def)
next
  case (Head b k)
  obtain r where "head_object_metadata E (b, k) s = (r, s')" "h = Inr r"
    using run Head by (auto simp: handle_def split: prod.splits)
  with head_object_spec [OF ok] show ?thesis by (simp add: Head)
next
  case (Post b k params u)
  consider (create) "uploads_param params \<noteq> None" | (bad) "uploads_param params = None" "upload_id_param params = None"
    | (complete) v where "uploads_param params = None" "upload_id_param params = Some v" by auto
  then show ?thesis
  proof cases
    case create
    with run Post have "create_upload E (b, k) u s = (h, s')" by (auto simp: handle_def multipart_upload_def)
    from create_upload_frame [OF this] store_ok_same [OF ok, of s'] create show ?thesis by (auto simp: spec_def Post)
  next
    case bad
    with run Post ok show ?thesis by (auto simp: handle_def multipart_upload_def spec_def)
  next
    case complete
    with run Post have "complete_upload E cfg (b, k) v s = (h, s')" by (simp add: handle_def multipart_upload_def)
    from complete_upload_objects [OF laws ok this] complete show ?thesis by (auto simp: spec_def Post)
  qed
qed

text \<open>Every object has the size that is recorded for it; the specification keeps that.\<close>

definition well_sized :: "object_map \<Rightarrow> bool" where
  "well_sized m \<longleftrightarrow> (\<forall>bk d ct sz. m bk = Some (d, ct, sz) \<longrightarrow> sz = usize_as_i64 (length d))"

lemma well_sized_empty [simp]: "well_sized Map.empty"
  by (simp add: well_sized_def)

lemma well_sized_update: "well_sized m \<Longrightarrow> well_sized (m(bk \<mapsto> (d, ct, usize_as_i64 (length d))))"
  by (auto simp: well_sized_def)

lemma well_sized_mono: "well_sized m \<Longrightarrow> (\<And>bk. m' bk = m bk \<or> m' bk = None) \<Longrightarrow> well_sized m'"
  unfolding well_sized_def by (metis option.distinct(1))

lemma spec_well_sized:
  assumes "spec E cfg op h m m'" and "well_sized m"
  shows "well_sized m'"
proof (cases op)
  case (Put b k ct part data)
  with assms show ?thesis
    by (auto simp: spec_def well_sized_update split: option.splits sum.splits failure.splits)
next
  case (Delete b k upload)
  have "well_sized (m((b, k) := None))" by (rule well_sized_mono [OF assms(2)]) simp
  with assms Delete show ?thesis by (auto simp: spec_def split: option.splits sum.splits if_splits)
next
  case (DeleteMany b param payload)
  have "well_sized (\<lambda>bk. if fst bk = b \<and> snd bk \<in> D then None else m bk)" for D
    by (rule well_sized_mono [OF assms(2)]) simp
  with assms DeleteMany show ?thesis by (auto simp: spec_def split: option.splits)
qed (use assms in \<open>auto simp: spec_def well_sized_update split: if_splits\<close>)

section \<open>Sequences of requests and tasks\<close>

datatype 'ip activity = Request "'ip op" | Task background

fun perform ::
  "('p, 'i, 'm, 'n, 'net, 'ip) env \<Rightarrow> 'net run_config \<Rightarrow> 'ip activity \<Rightarrow> ('p, 'i, 'm) app_state
     \<Rightarrow> ('p, 'i, 'm) app_state" where
  "perform E cfg (Request op) s = snd (handle E cfg op s)"
| "perform E cfg (Task t) s = run_background E cfg t (s\<lparr>app_tasks := remove1 t (app_tasks s)\<rparr>)"

text \<open>Whether a request may change the object \<open>(b, k)\<close>.\<close>

fun touches :: "('p, 'i, 'm, 'n, 'net, 'ip) env \<Rightarrow> string \<Rightarrow> string \<Rightarrow> 'ip activity \<Rightarrow> bool" where
  "touches E b k (Request (Put b' k' _ None _)) \<longleftrightarrow> (b', k') = (b, k)"
| "touches E b k (Request (Delete b' k' None)) \<longleftrightarrow> (b', k') = (b, k)"
| "touches E b k (Request (DeleteMany b' (Some _) payload)) \<longleftrightarrow>
     b' = b \<and> (case parse_delete_payload E payload of None \<Rightarrow> False | Some ks \<Rightarrow> k \<in> set ks)"
| "touches E b k (Request (Post b' k' params _)) \<longleftrightarrow>
     (b', k') = (b, k) \<and> uploads_param params = None \<and> upload_id_param params \<noteq> None"
| "touches E b k _ \<longleftrightarrow> False"

lemma spec_untouched:
  assumes "spec E cfg op h m m'" and "\<not> touches E b k (Request op)"
  shows "m' (b, k) = m (b, k)"
  using assms
  by (cases "(E, b, k, Request op)" rule: touches.cases)
    (auto simp: spec_def split: sum.splits failure.splits if_splits option.splits)

lemma perform_objects:
  assumes laws: "store_laws E pins content" and ok: "store_ok pins content s"
    and "\<not> touches E b k a"
  shows "store_ok pins content (perform E cfg a s) \<and>
    objects content (perform E cfg a s) (b, k) = objects content s (b, k)"
proof (cases a)
  case (Request op)
  obtain h s' where run: "handle E cfg op s = (h, s')" by fastforce
  from handle_spec [OF laws ok run] spec_untouched assms(3) show ?thesis by (simp add: Request run) blast
next
  case (Task t)
  let ?s = "s\<lparr>app_tasks := remove1 t (app_tasks s)\<rparr>"
  have "store_ok pins content ?s \<and> objects content ?s = objects content s" by (rule store_ok_same [OF ok]) simp_all
  with run_background_objects [OF laws, of ?s cfg t] show ?thesis by (simp add: Task)
qed

definition perform_all ::
  "('p, 'i, 'm, 'n, 'net, 'ip) env \<Rightarrow> 'net run_config \<Rightarrow> 'ip activity list \<Rightarrow> ('p, 'i, 'm) app_state
     \<Rightarrow> ('p, 'i, 'm) app_state" where
  "perform_all E cfg = fold (perform E cfg)"

lemma perform_all_objects:
  assumes "store_laws E pins content"
  shows "store_ok pins content s \<Longrightarrow> list_all (\<lambda>a. \<not> touches E b k a) as \<Longrightarrow>
    store_ok pins content (perform_all E cfg as s) \<and>
    objects content (perform_all E cfg as s) (b, k) = objects content s (b, k)"
proof (induction as arbitrary: s)
  case (Cons a as)
  with perform_objects [OF assms Cons.prems(1), of b k a cfg] show ?case by (simp add: perform_all_def)
qed (simp add: perform_all_def)

end
