(* ===== verification/ServerObjects.thy ===== *)
theory ServerObjects imports ObjectStore Invariants begin

text \<open>
  The running server of \<^verbatim>\<open>Server.thy\<close> as an object store: which operation of the handlers a
  request amounts to (\<open>request_op\<close>: route, layers and extractors of \<^verbatim>\<open>src/src/main.rs\<close> and
  \<^verbatim>\<open>src/src/s3/mod.rs\<close> applied to it), that serving the request is performing that operation and
  nothing else, and the object map of \<^verbatim>\<open>ObjectStore.thy\<close> along the runs of the server.
\<close>

section \<open>The operation of a request\<close>

text \<open>What a layer or an extractor hands on, if it does.\<close>

definition extracted :: "'r + 'a \<Rightarrow> 'a option" where
  "extracted x = (case x of Inl _ \<Rightarrow> None | Inr a \<Rightarrow> Some a)"

lemma extracted_simps [simp]: "extracted (Inl r) = None" "extracted (Inr a) = Some a"
  by (simp_all add: extracted_def)

lemma extracted_Some [simp]: "extracted x = Some a \<longleftrightarrow> x = Inr a"
  by (cases x) (auto simp: extracted_def)

definition decode_op ::
  "'ip http_env \<Rightarrow> 'net run_config \<Rightarrow> string \<Rightarrow> endpoint \<Rightarrow> string list \<Rightarrow> request \<Rightarrow> 'ip op option" where
  "decode_op X cfg fresh ep raw r =
     (case ep of
        HealthCheck \<Rightarrow> None
      | GetBucket \<Rightarrow> None
      | ModifyBucket \<Rightarrow>
          Option.bind (extracted (bucket_param X raw)) (\<lambda>b.
          Option.bind (extracted (hx_query X (req_uri r))) (\<lambda>q.
          Option.bind (extracted (query_field X ''delete'' q)) (\<lambda>del.
          Option.bind (extracted (collect_body X (req_body r))) (\<lambda>data. Some (DeleteMany b del data)))))
      | endpoint.PutObject \<Rightarrow>
          Option.bind (extracted (object_param X raw)) (\<lambda>(b, k).
          Option.bind (extracted (hx_content_type X r)) (\<lambda>ct.
          Option.bind (extracted (hx_query X (req_uri r))) (\<lambda>q.
          Option.bind (extracted (collect_body X (req_body r))) (\<lambda>data.
            Some (Put b k ct (upload_part_from_query q) data)))))
      | endpoint.DeleteObject \<Rightarrow>
          Option.bind (extracted (object_param X raw)) (\<lambda>(b, k).
          Option.bind (extracted (hx_query X (req_uri r))) (\<lambda>q.
          Option.bind (extracted (query_field X ''uploadId'' q)) (\<lambda>u. Some (Delete b k u))))
      | GetObject \<Rightarrow>
          Option.bind (extracted (object_param X raw)) (\<lambda>(b, k).
          Option.bind (extracted (hx_client_ip X (ip_extraction cfg) r)) (\<lambda>ip. Some (Get b k ip)))
      | HeadObject \<Rightarrow> Option.bind (extracted (object_param X raw)) (\<lambda>(b, k). Some (Head b k))
      | MultipartUpload \<Rightarrow>
          Option.bind (extracted (object_param X raw)) (\<lambda>(b, k).
          Option.bind (extracted (hx_query X (req_uri r))) (\<lambda>q.
          Option.bind (extracted (post_params X q)) (\<lambda>params. Some (Post b k params fresh)))))"

text \<open>A request that reaches no handler, or one that reads no object, leaves the table alone; the health
  check pings the database and asks the node for its version.\<close>

definition idle :: "('p, 'i, 'm, 'n, 'net, 'ip) env \<Rightarrow> ('p, 'i, 'm) app_state \<Rightarrow> ('p, 'i, 'm) app_state \<Rightarrow> bool" where
  "idle E s s' \<longleftrightarrow>
     rows_of s' = rows_of s \<and> app_slots s' = app_slots s \<and> app_tasks s' = app_tasks s \<and>
     app_db s' \<in> {app_db s, snd (db_ping (sqlx_exec E) (app_db s))} \<and>
     app_node s' \<in> {app_node s, snd (api_version (node_api E) (app_node s))}"

lemma idle_refl [simp]: "idle E s s"
  by (simp add: idle_def)

lemma health_check_db: "health_check E cfg now s = (x, s') \<Longrightarrow> app_db s' = snd (db_ping (sqlx_exec E) (app_db s))"
  by (auto simp: health_check_def with_db_def with_node_def Let_def split: prod.splits)

lemma call_performs:
  assumes "decode_op X cfg fresh ep raw r = Some op"
  shows "call_endpoint X E cfg now fresh ep raw r s = respond (handle E cfg op s)"
  using assms
  by (cases ep) (auto simp: decode_op_def call_endpoint_def with_arg_def extract_body_def handle_def respond_def
      bind_eq_Some_conv split: prod.splits)

lemma call_idle:
  assumes "decode_op X cfg fresh ep raw r = None"
  shows "idle E s (snd (call_endpoint X E cfg now fresh ep raw r s))"
proof (cases ep)
  case HealthCheck
  obtain x s' where "health_check E cfg now s = (x, s')" by fastforce
  moreover from health_check_same [OF this] health_check_db [OF this] have "idle E s s'" by (simp add: idle_def)
  ultimately show ?thesis by (cases x) (simp add: call_endpoint_def HealthCheck)
qed (use assms in \<open>auto simp: decode_op_def call_endpoint_def with_arg_def extract_body_def split: sum.splits prod.splits\<close>)

lemma authenticated_code [code]:
  "authenticated S config request =
     (case extract_signature S request of None \<Rightarrow> False | Some a \<Rightarrow> is_valid S a config)"
  by (auto simp: authenticated_def split: option.split)

text \<open>The layers of the S3 routes.\<close>

definition admitted :: "sig_env \<Rightarrow> 'net run_config \<Rightarrow> request \<Rightarrow> request option" where
  "admitted S cfg r =
     (case auth cfg of
        None \<Rightarrow> Some r
      | Some c \<Rightarrow> if authenticated S c r then Some (r\<lparr>req_body := decode_body r\<rparr>) else None)"

definition request_op ::
  "'ip http_env \<Rightarrow> sig_env \<Rightarrow> 'net run_config \<Rightarrow> string \<Rightarrow> request \<Rightarrow> 'ip op option" where
  "request_op X S cfg fresh r =
     Option.bind (hx_match X (map fst app_routes) (req_path r)) (\<lambda>(pattern, raw).
     Option.bind (map_of s3_routes pattern) (\<lambda>methods.
       if hx_preflight X s3_cors r \<noteq> None then None
       else Option.bind (admitted S cfg r) (\<lambda>r'.
         Option.bind (Option.bind (hx_method X (map fst methods) (req_method r')) (map_of methods)) (\<lambda>ep.
           decode_op X cfg fresh ep raw r'))))"

definition layered :: "'ip http_env \<Rightarrow> request \<Rightarrow> response option \<Rightarrow> response option" where
  "layered X r a = map_option (\<lambda>x. hx_outer X r (hx_cors X s3_cors r x)) a"

lemma guarded_admitted:
  "guarded S cfg inner r s =
     (case admitted S cfg r of None \<Rightarrow> (Some unauthorized_response, s) | Some r' \<Rightarrow> inner r' s)"
  by (auto simp: guarded_def admitted_def authorize_eq split: option.splits)

lemma serve_op:
  assumes "request_op X S cfg fresh r = Some op"
  shows "serve X S E cfg now fresh r s =
    (case handle E cfg op s of (h, s') \<Rightarrow> (layered X r (into_response h), s'))"
proof -
  from assms obtain pattern raw methods r' m ep where
    route: "hx_match X (map fst app_routes) (req_path r) = Some (pattern, raw)" "map_of s3_routes pattern = Some methods"
      "hx_preflight X s3_cors r = None" "admitted S cfg r = Some r'"
      "hx_method X (map fst methods) (req_method r') = Some m" "map_of methods m = Some ep"
    and op: "decode_op X cfg fresh ep raw r' = Some op"
    by (auto simp: request_op_def bind_eq_Some_conv split: if_splits)
  have "dispatch X E cfg now fresh methods raw r' s = respond (handle E cfg op s)"
    using call_performs [OF op] by (simp add: dispatch_def route)
  then show ?thesis
    by (simp add: serve_def route with_cors_def guarded_admitted respond_def layered_def case_prod_unfold
        option.map_comp comp_def)
qed

lemma serve_idle:
  assumes "request_op X S cfg fresh r = None"
  shows "idle E s (snd (serve X S E cfg now fresh r s))"
proof -
  have health: "idle E s (snd (dispatch X E cfg now fresh [(''GET'', HealthCheck)] raw r s))" for raw
    using call_idle [of X cfg fresh HealthCheck raw r E s now]
    by (auto simp: dispatch_def decode_op_def bind_eq_Some_conv split: option.split if_splits)
  show ?thesis
  proof (cases "hx_match X (map fst app_routes) (req_path r)")
    case (Some pr)
    obtain pattern raw where pr: "pr = (pattern, raw)" by fastforce
    show ?thesis
    proof (cases "map_of s3_routes pattern")
      case None
      then show ?thesis using health by (simp add: serve_def Some pr case_prod_unfold)
    next
      case (Some methods)
      note route = \<open>hx_match _ _ _ = _\<close> [unfolded pr] Some
      have "idle E s (snd (dispatch X E cfg now fresh methods raw r' s))"
        if "admitted S cfg r = Some r'" "hx_preflight X s3_cors r = None" for r'
      proof (cases "Option.bind (hx_method X (map fst methods) (req_method r')) (map_of methods)")
        case (Some ep)
        then have "decode_op X cfg fresh ep raw r' = None" using assms that route by (simp add: request_op_def del: bind_assoc)
        from call_idle [OF this] Some show ?thesis by (simp add: dispatch_def)
      qed (simp add: dispatch_def)
      then show ?thesis
        using route by (auto simp: serve_def with_cors_def guarded_admitted case_prod_unfold split: option.split)
    qed
  qed (simp add: serve_def)
qed

section \<open>The objects along a run\<close>

text \<open>Asking the node for its version leaves pinned content as it is.\<close>

definition version_content ::
  "'i ipfs_api \<Rightarrow> ('i \<Rightarrow> string set) \<Rightarrow> ('i \<Rightarrow> string \<Rightarrow> bytes option) \<Rightarrow> bool" where
  "version_content A pins content \<longleftrightarrow>
     version_laws A pins \<and> (\<forall>i c. c \<in> pins i \<longrightarrow> content (snd (api_version A i)) c = content i c)"

abbreviation server_laws where
  "server_laws E pins content \<equiv> store_laws E pins content \<and> version_content (node_api E) pins content"

lemma idle_objects:
  assumes "server_laws E pins content" and ok: "store_ok pins content s" and "idle E s s'"
  shows "store_ok pins content s' \<and> objects content s' = objects content s"
proof (cases "app_node s' = app_node s")
  case True
  with assms(3) show ?thesis by (intro store_ok_same [OF ok]) (simp_all add: idle_def)
next
  case False
  with assms(3) have node: "app_node s' = snd (api_version (node_api E) (app_node s))" and rows: "rows_of s' = rows_of s"
    by (auto simp: idle_def)
  have "durable.carried pins content (app_node s) (referenced_cids (rows_of s)) (app_node s')"
    using assms(1) ok unfolding node
    by (simp add: durable.carried_def durable.held_def store_ok_def version_content_def version_laws_def)
  then show ?thesis by (rule store_ok_carried [OF ok rows])
qed

text \<open>Whether an event may change the object \<open>(b, k)\<close>. The upload identifier a request would get does not
  matter for that.\<close>

definition event_touches ::
  "'ip http_env \<Rightarrow> sig_env \<Rightarrow> ('p, 'i, 'm, 'n, 'net, 'ip) env \<Rightarrow> 'net run_config \<Rightarrow> string \<Rightarrow> string
     \<Rightarrow> event \<Rightarrow> bool" where
  "event_touches X S E cfg b k e =
     (case e of
        Ran _ \<Rightarrow> False
      | Answered r _ \<Rightarrow>
          (case request_op X S cfg [] r of None \<Rightarrow> False | Some op \<Rightarrow> touches E b k (Request op)))"

definition same_but_fresh :: "'ip op \<Rightarrow> 'ip op \<Rightarrow> bool" where
  "same_but_fresh op op' \<longleftrightarrow>
     op' = op \<or> (case (op, op') of (Post b k params _, Post b' k' params' _) \<Rightarrow> (b', k', params') = (b, k, params) | _ \<Rightarrow> False)"

lemma decode_op_fresh:
  assumes "decode_op X cfg fresh ep raw r = Some op"
  shows "\<exists>op'. decode_op X cfg other ep raw r = Some op' \<and> same_but_fresh op op'"
proof (cases ep)
  case MultipartUpload
  with assms show ?thesis by (auto simp: decode_op_def same_but_fresh_def bind_eq_Some_conv)
qed (use assms in \<open>simp_all add: decode_op_def same_but_fresh_def\<close>)

lemma request_op_fresh:
  assumes "request_op X S cfg fresh r = Some op"
  shows "\<exists>op'. request_op X S cfg other r = Some op' \<and> same_but_fresh op op'"
proof -
  from assms obtain pattern raw methods r' m ep where
    route: "hx_match X (map fst app_routes) (req_path r) = Some (pattern, raw)" "map_of s3_routes pattern = Some methods"
      "hx_preflight X s3_cors r = None" "admitted S cfg r = Some r'"
      "hx_method X (map fst methods) (req_method r') = Some m" "map_of methods m = Some ep"
    and op: "decode_op X cfg fresh ep raw r' = Some op"
    by (auto simp: request_op_def bind_eq_Some_conv split: if_splits)
  from decode_op_fresh [OF op] show ?thesis by (simp add: request_op_def route)
qed

lemma event_touches_answer:
  assumes "request_op X S cfg fresh r = Some op" and "\<not> event_touches X S E cfg b k (Answered r a)"
  shows "\<not> touches E b k (Request op)"
proof -
  obtain op' where op': "request_op X S cfg [] r = Some op'" "same_but_fresh op op'"
    using request_op_fresh [OF assms(1)] by blast
  then have "touches E b k (Request op') = touches E b k (Request op)"
    by (auto simp: same_but_fresh_def split: op.splits)
  with assms(2) op'(1) show ?thesis by (simp add: event_touches_def)
qed

lemma server_step_objects:
  assumes laws: "server_laws E pins content" and ok: "store_ok pins content s"
    and step: "server_step X S E cfg s e s'"
  shows "store_ok pins content s' \<and>
    (well_sized (objects content s) \<longrightarrow> well_sized (objects content s')) \<and>
    (\<not> event_touches X S E cfg b k e \<longrightarrow> objects content s' (b, k) = objects content s (b, k))"
  using step
proof cases
  case (answer now fresh r a)
  show ?thesis
  proof (cases "request_op X S cfg fresh r")
    case None
    from serve_idle [OF None, of E s now] answer(2) have "idle E s s'" by simp
    from idle_objects [OF laws ok this] show ?thesis by simp
  next
    case (Some op)
    obtain h s'' where run: "handle E cfg op s = (h, s'')" by fastforce
    with serve_op [OF Some, of E now s] answer(2) have "s'' = s'" by simp
    with handle_spec [OF conjunct1 [OF laws] ok run]
    have "store_ok pins content s'" "spec E cfg op h (objects content s) (objects content s')" by simp_all
    then show ?thesis
      using spec_well_sized spec_untouched event_touches_answer [OF Some] answer(1) by blast
  qed
next
  case (task ts t us)
  let ?s = "s\<lparr>app_tasks := ts @ us\<rparr>"
  have "store_ok pins content ?s \<and> objects content ?s = objects content s" by (rule store_ok_same [OF ok]) simp_all
  with run_background_objects [OF conjunct1 [OF laws], of ?s cfg t] show ?thesis by (simp add: task(2))
qed

lemma server_run_objects:
  assumes laws: "server_laws E pins content"
  shows "server_run X S E cfg s es s' \<Longrightarrow> store_ok pins content s \<Longrightarrow>
    store_ok pins content s' \<and>
    (well_sized (objects content s) \<longrightarrow> well_sized (objects content s')) \<and>
    (list_all (\<lambda>e. \<not> event_touches X S E cfg b k e) es \<longrightarrow> objects content s' (b, k) = objects content s (b, k))"
proof (induction rule: server_run.induct)
  case (next_step s es s' e s'')
  then have "store_ok pins content s'" by blast
  from server_step_objects [OF laws this next_step.hyps(2), of b k] next_step show ?case by auto
qed simp

end
