(* ===== verification/RoutingProps.thy ===== *)
theory RoutingProps imports SystemProps ServerObjects ChunkGrammar begin

text \<open>
  Which handler answers a request, and with which arguments: the table of the routes
  (\<open>routes\<close> in \<^verbatim>\<open>src/src/s3/mod.rs\<close>), written out path by path and method by method, for
  the requests that the authorization layer lets through and whose parts can be extracted.
\<close>

section \<open>What a handler is given\<close>

text \<open>The bytes that a request carries for its handler: its body, but with credentials configured and the content
  hash of a signed stream the contents of the chunks it is framed in.\<close>

definition carries :: "auth_config option \<Rightarrow> request \<Rightarrow> bytes \<Rightarrow> bool" where
  "carries credentials r data \<longleftrightarrow>
     (if credentials \<noteq> None \<and> req_headers r ''x-amz-content-sha256'' = Some ''STREAMING-AWS4-HMAC-SHA256-PAYLOAD''
      then \<exists>d fault cs. req_body r = Plain \<lparr>stream_data = d, stream_fault = fault\<rparr> \<and> framed fault d cs \<and> data = concat cs
      else req_body r = Plain \<lparr>stream_data = data, stream_fault = False\<rparr>)"

text \<open>The request that reaches the routes behind the layer.\<close>

lemma carries_admitted:
  assumes "carries (auth cfg) r data" and "\<forall>c. auth cfg = Some c \<longrightarrow> authenticated S c r"
    and "length data \<le> hx_body_limit X"
  obtains body where "admitted S cfg r = Some (r\<lparr>req_body := body\<rparr>)" and "collect_body X body = Inr data"
proof (cases "auth cfg")
  case None
  with assms have "admitted S cfg r = Some (r\<lparr>req_body := req_body r\<rparr>)" "collect_body X (req_body r) = Inr data"
    by (simp_all add: carries_def admitted_def collect_body_def within_limit_def)
  then show thesis by (rule that)
next
  case (Some c)
  have "collect_body X (decode_body r) = Inr data"
  proof (cases "req_headers r ''x-amz-content-sha256'' = Some ''STREAMING-AWS4-HMAC-SHA256-PAYLOAD''")
    case True
    with assms(1) Some obtain d fault cs where "req_body r = Plain \<lparr>stream_data = d, stream_fault = fault\<rparr>"
        "framed fault d cs" "data = concat cs"
      by (auto simp: carries_def)
    with True assms(3) framed_decodes show ?thesis
      by (simp add: decode_body_def streaming_payload_def collect_body_def within_limit_def)
  next
    case False
    with assms(1,3) Some show ?thesis
      by (simp add: carries_def decode_body_def streaming_payload_def collect_body_def within_limit_def)
  qed
  moreover have "admitted S cfg r = Some (r\<lparr>req_body := decode_body r\<rparr>)"
    using assms(2) Some by (simp add: admitted_def)
  ultimately show thesis using that by blast
qed

text \<open>In a query without repeated names a field is what the query says.\<close>

lemma query_field_distinct: "distinct (map fst q) \<Longrightarrow> query_field X name q = Inr (map_of q name)"
proof (induction q)
  case (Cons p q)
  have "filter (\<lambda>(k, _). k = name) q = []" if "name \<notin> fst ` set q"
    using that by (force simp: filter_empty_conv)
  with Cons show ?case by (cases p) (auto simp: query_field_def)
qed (simp add: query_field_def)

lemma post_params_distinct:
  "distinct (map fst q) \<Longrightarrow>
     post_params X q = Inr \<lparr>uploads_param = map_of q ''uploads'', upload_id_param = map_of q ''uploadId''\<rparr>"
  by (simp add: post_params_def query_field_distinct)

text \<open>The layers around the routes, for a request they let through.\<close>

definition sent_on ::
  "'ip http_env \<Rightarrow> request \<Rightarrow> response option \<times> 's \<Rightarrow> response option \<times> 's" where
  "sent_on X r answer = (map_option (\<lambda>x. hx_outer X r (hx_cors X s3_cors r x)) (fst answer), snd answer)"

lemma serve_admitted:
  assumes "hx_match X (map fst app_routes) (req_path r) = Some (pattern, raw)" and "map_of s3_routes pattern = Some methods"
    and "hx_preflight X s3_cors r = None" and "admitted S cfg r = Some r'"
  shows "serve X S E cfg now fresh r s = sent_on X r (dispatch X E cfg now fresh methods raw r' s)"
  using assms
  by (simp add: serve_def with_cors_def guarded_admitted sent_on_def case_prod_unfold option.map_comp comp_def)

lemma object_route:
  assumes "match_laws X" and "b \<noteq> []" and "CHR ''/'' \<notin> set b" and "k \<noteq> []" and "p = ''/'' @ b @ ''/'' @ k"
  shows "hx_match X (map fst app_routes) p = Some (''/{bucket}/{*key}'', [b, k])"
    and "map_of s3_routes ''/{bucket}/{*key}'' =
      Some [(''PUT'', endpoint.PutObject), (''DELETE'', endpoint.DeleteObject), (''GET'', GetObject), (''HEAD'', HeadObject),
            (''POST'', MultipartUpload)]"
  using assms unfolding match_laws_def by (metis, simp add: s3_routes_def)

lemma bucket_route:
  assumes "match_laws X" and "b \<noteq> []" and "CHR ''/'' \<notin> set b"
    and "p = ''/'' @ b @ ''/'' \<or> p = ''/'' @ b \<and> b \<noteq> ''healthz''"
  shows "\<exists>pattern. hx_match X (map fst app_routes) p = Some (pattern, [b]) \<and>
    map_of s3_routes pattern = Some [(''GET'', GetBucket), (''POST'', ModifyBucket)]"
proof -
  have "map_of s3_routes ''/{bucket}'' = Some [(''GET'', GetBucket), (''POST'', ModifyBucket)]"
    "map_of s3_routes ''/{bucket}/'' = Some [(''GET'', GetBucket), (''POST'', ModifyBucket)]"
    by (simp_all add: s3_routes_def)
  then show ?thesis using assms unfolding match_laws_def by metis
qed

section \<open>Object requests\<close>

text \<open>C4: A request for \<open>/bucket/key\<close> that the authorization layer lets through, and whose parts can be
  extracted, is answered by the one handler its method names, with its own arguments, and by nothing else:
  \<open>PUT\<close> by \<open>put_object\<close> and \<open>POST\<close> by \<open>multipart_upload\<close>, \<open>GET\<close> by \<open>get_object\<close> with the client's
  address, \<open>HEAD\<close> by \<open>head_object_metadata\<close> and not by \<open>GET\<close>'s handler, \<open>DELETE\<close> by \<open>delete_object\<close>; any other
  method is answered 405 with nothing done. The bucket and the key are the decoded parts of the path, the
  upload is the one the query names, and the bytes are those of the body, or with credentials configured those
  of the chunks a signed stream is framed in. The handler's state is the new state, and its answer passes
  through the CORS and the outer layers.\<close>

theorem object_requests_reach_handlers:
  assumes "match_laws X" and "method_laws X" and "hx_preflight X s3_cors r = None"
    and "b \<noteq> []" and "CHR ''/'' \<notin> set b" and "k \<noteq> []" and "req_path r = ''/'' @ b @ ''/'' @ k"
    and "hx_decode X [b, k] = Inr [b', k']"
    and "\<forall>c. auth cfg = Some c \<longrightarrow> authenticated S c r"
    and "carries (auth cfg) r data" and "length data \<le> hx_body_limit X"
    and "hx_query X (req_uri r) = Inr q" and "distinct (map fst q)"
    and "\<forall>body. hx_content_type X (r\<lparr>req_body := body\<rparr>) = Inr ct"
    and "\<forall>body. hx_client_ip X (ip_extraction cfg) (r\<lparr>req_body := body\<rparr>) = Inr ip"
  shows "serve X S E cfg now fresh r s = sent_on X r
    (if req_method r = ''PUT'' then respond (put_object E cfg (b', k') ct (upload_part_from_query q) data s)
     else if req_method r = ''GET'' then respond (get_object E cfg (b', k') ip s)
     else if req_method r = ''HEAD'' then
       (Some (fst (head_object_metadata E (b', k') s)), snd (head_object_metadata E (b', k') s))
     else if req_method r = ''DELETE'' then respond (delete_object E cfg (b', k') (map_of q ''uploadId'') s)
     else if req_method r = ''POST'' then
       respond (multipart_upload E cfg (b', k')
         \<lparr>uploads_param = map_of q ''uploads'', upload_id_param = map_of q ''uploadId''\<rparr> fresh s)
     else (Some (hx_method_not_allowed X), s))"
proof -
  note route = object_route [OF assms(1,4-7)]
  obtain body where body: "admitted S cfg r = Some (r\<lparr>req_body := body\<rparr>)" "collect_body X body = Inr data"
    by (rule carries_admitted [OF assms(10,9,11)])
  have param: "object_param X [b, k] = Inr (b', k')" by (simp add: object_param_def assms(8))
  have chosen: "hx_method X [''PUT'', ''DELETE'', ''GET'', ''HEAD'', ''POST''] m =
      (if m \<in> {''PUT'', ''DELETE'', ''GET'', ''HEAD'', ''POST''} then Some m else None)" for m
    using assms(2) by (simp add: method_laws_def)
  show ?thesis
    unfolding serve_admitted [OF route assms(3) body(1)] dispatch_def
    by (simp add: chosen call_endpoint_def with_arg_def extract_body_def param body(2) assms(12,14,15)
        query_field_distinct [OF assms(13)] post_params_distinct [OF assms(13)] case_prod_unfold)
qed

text \<open>A signed stream of two chunks, with credentials configured.\<close>

lemma stream_request_valid: "authenticated demo_sig demo_auth stream_request"
proof -
  have "extract_signature demo_sig stream_request = Some presigned_auth"
    by (rule presigned_extract, simp add: stream_request_def, code_simp, code_simp)
  then show ?thesis using presigned_valid by (simp add: authenticated_def)
qed

lemma stream_request_carries: "carries (Some demo_auth) stream_request ''hello world''"
proof -
  have "streaming_chunk_body \<lparr>stream_data = aws_chunked demo_chunks ''s'', stream_fault = False\<rparr>
      = ([''hello '', ''world''], stream_end.Finished)"
    using streaming_aws_chunked [OF demo_chunks_ok] by (simp add: demo_chunks_def)
  from decodes_framed [OF this] show ?thesis
    by (auto simp: carries_def stream_request_def streaming_payload_def
        intro!: exI [of _ "aws_chunked demo_chunks ''s''"] exI [of _ False] exI [of _ "[''hello '', ''world'']"])
qed

theorem object_requests_reach_handlers_witness:
  "\<exists>part. serve demo_http demo_sig demo_env (demo_config\<lparr>auth := Some demo_auth\<rparr>) 0 ''u'' stream_request demo_start =
     sent_on demo_http stream_request
       (respond (put_object demo_env (demo_config\<lparr>auth := Some demo_auth\<rparr>) (''b'', ''k'') None part ''hello world'' demo_start))"
proof -
  let ?cfg = "demo_config\<lparr>auth := Some demo_auth\<rparr>"
  have "map_option (\<lambda>q. distinct (map fst q)) (demo_pairs (req_uri stream_request)) = Some True"
    unfolding stream_request_def by code_simp
  then obtain q where q: "demo_pairs (req_uri stream_request) = Some q" "distinct (map fst q)" by auto
  have "hx_query demo_http (req_uri stream_request) = Inr q" by (simp add: demo_http_def q(1))
  moreover have "hx_preflight demo_http s3_cors stream_request = None" "req_path stream_request = ''/'' @ ''b'' @ ''/'' @ ''k''"
    "\<forall>body. hx_content_type demo_http (stream_request\<lparr>req_body := body\<rparr>) = Inr None"
    "\<forall>body. hx_client_ip demo_http (ip_extraction ?cfg) (stream_request\<lparr>req_body := body\<rparr>) = Inr ''10.0.0.1''"
    "hx_decode demo_http [''b'', ''k''] = Inr [''b'', ''k'']" "length ''hello world'' \<le> hx_body_limit demo_http"
    and put: "req_method stream_request = ''PUT''"
    by (simp_all add: demo_http_def stream_request_def)
  moreover have "carries (auth ?cfg) stream_request ''hello world''" using stream_request_carries by simp
  moreover have "\<forall>c. auth ?cfg = Some c \<longrightarrow> authenticated demo_sig c stream_request" using stream_request_valid by simp
  ultimately show ?thesis
    using object_requests_reach_handlers [OF demo_match_laws demo_method_laws, of stream_request "''b''" "''k''" "''b''"
        "''k''" ?cfg demo_sig "''hello world''" q None "''10.0.0.1''" demo_env 0 "''u''" demo_start] q(2) put
    by auto
qed

section \<open>Bucket requests\<close>

text \<open>C25: A request for \<open>/bucket\<close>, or for \<open>/bucket/\<close>, under the same conditions: \<open>POST\<close> is answered by
  \<open>modify_bucket\<close> with the \<open>delete\<close> parameter of the query and the bytes of the body, \<open>GET\<close> and \<open>HEAD\<close> by
  \<open>get_bucket\<close>, which changes nothing, and any other method 405. The one bucket without the first of the two
  paths is \<open>healthz\<close>.\<close>

theorem bucket_requests_reach_handlers:
  assumes "match_laws X" and "method_laws X" and "hx_preflight X s3_cors r = None"
    and "b \<noteq> []" and "CHR ''/'' \<notin> set b" and "req_path r = ''/'' @ b @ ''/'' \<or> req_path r = ''/'' @ b \<and> b \<noteq> ''healthz''"
    and "hx_decode X [b] = Inr [b']"
    and "\<forall>c. auth cfg = Some c \<longrightarrow> authenticated S c r"
    and "carries (auth cfg) r data" and "length data \<le> hx_body_limit X"
    and "hx_query X (req_uri r) = Inr q" and "distinct (map fst q)"
  shows "serve X S E cfg now fresh r s = sent_on X r
    (if req_method r = ''POST'' then respond (modify_bucket E cfg b' (map_of q ''delete'') data s)
     else if req_method r \<in> {''GET'', ''HEAD''} then
       (into_response (get_bucket E b' (map_of q ''location'') (hx_show_time X now)), s)
     else (Some (hx_method_not_allowed X), s))"
proof -
  obtain pattern where route: "hx_match X (map fst app_routes) (req_path r) = Some (pattern, [b])"
    "map_of s3_routes pattern = Some [(''GET'', GetBucket), (''POST'', ModifyBucket)]"
    using bucket_route [OF assms(1,4-6)] by blast
  obtain body where body: "admitted S cfg r = Some (r\<lparr>req_body := body\<rparr>)" "collect_body X body = Inr data"
    by (rule carries_admitted [OF assms(9,8,10)])
  have param: "bucket_param X [b] = Inr b'" by (simp add: bucket_param_def assms(7))
  have chosen: "hx_method X [''GET'', ''POST''] m =
      (if m \<in> {''GET'', ''POST''} then Some m else if m = ''HEAD'' then Some ''GET'' else None)" for m
    using assms(2) by (simp add: method_laws_def)
  show ?thesis
    unfolding serve_admitted [OF route assms(3) body(1)] dispatch_def
    by (simp add: chosen call_endpoint_def with_arg_def extract_body_def param body(2) assms(11)
        query_field_distinct [OF assms(12)])
qed

definition bucket_request :: request where
  "bucket_request = \<lparr>req_method = ''HEAD'', req_uri = ''/b?location'', req_path = ''/b'', req_headers = Map.empty,
     req_body = Plain \<lparr>stream_data = [], stream_fault = False\<rparr>\<rparr>"

theorem bucket_requests_reach_handlers_witness:
  "\<exists>loc. serve demo_http demo_sig demo_env demo_config 0 ''u'' bucket_request demo_start =
     sent_on demo_http bucket_request (into_response (get_bucket demo_env ''b'' loc (dec_of_int 0)), demo_start)"
proof -
  have "map_option (\<lambda>q. distinct (map fst q)) (demo_pairs (req_uri bucket_request)) = Some True"
    unfolding bucket_request_def by code_simp
  then obtain q where q: "demo_pairs (req_uri bucket_request) = Some q" "distinct (map fst q)" by auto
  have "hx_query demo_http (req_uri bucket_request) = Inr q" by (simp add: demo_http_def q(1))
  moreover have "hx_preflight demo_http s3_cors bucket_request = None" "req_path bucket_request = ''/'' @ ''b'' \<and> ''b'' \<noteq> ''healthz''"
    "hx_decode demo_http [''b''] = Inr [''b'']" "length [] \<le> hx_body_limit demo_http"
    and head: "req_method bucket_request = ''HEAD''" and time: "hx_show_time demo_http = dec_of_int"
    by (simp_all add: demo_http_def bucket_request_def)
  moreover have "carries (auth demo_config) bucket_request []"
    by (simp add: carries_def demo_config_def bucket_request_def)
  moreover have "\<forall>c. auth demo_config = Some c \<longrightarrow> authenticated demo_sig c bucket_request" by (simp add: demo_config_def)
  ultimately show ?thesis
    using bucket_requests_reach_handlers [OF demo_match_laws demo_method_laws, of bucket_request "''b''" "''b''"
        demo_config demo_sig "[]" q demo_env 0 "''u''" demo_start] q(2)
    by auto
qed

end
