(* ===== verification/ServerObjectProps.thy ===== *)
theory ServerObjectProps imports ServerObjects Instances begin

text \<open>
  The running server (\<^verbatim>\<open>Server.thy\<close>) as an object store: requests are operations of the
  handlers, and the objects along every run.
\<close>

text \<open>Serving a request is performing one operation of the handlers, and nothing else. The operation is read
  off the request: the route and the method choose it, the authorization layer lets the request through with
  its body decoded, and the extractors give its arguments; the answer passes the CORS and the outer layers.
  A request without an operation (no route, no permission, a preflight, arguments that do not decode, a health
  check) leaves table, uploads and tasks as they are; at most the database is pinged and the node asked for its
  version.\<close>

theorem serve_performs_operation:
  "case request_op X S cfg fresh r of
     Some op \<Rightarrow> serve X S E cfg now fresh r s =
       (case handle E cfg op s of (h, s') \<Rightarrow> (layered X r (into_response h), s'))
   | None \<Rightarrow> idle E s (snd (serve X S E cfg now fresh r s))"
proof (cases "request_op X S cfg fresh r")
  case None
  from serve_idle [OF None] show ?thesis by (simp add: None)
next
  case (Some op)
  from serve_op [OF Some] show ?thesis by (simp only: Some option.case)
qed

text \<open>C17: In every run of the server each row describes its content: the content is pinned and available, the
  recorded size is the number of its bytes (as an \<open>i64\<close>), and the \<open>Content-Length\<close> and \<open>Content-Type\<close> a
  \<open>HEAD\<close> answers are those of the bytes and the type stored; up to the largest \<open>isize\<close> the length is the
  decimal number of bytes.\<close>

theorem rows_describe_content:
  assumes "pin_laws (node_api E) pins" "content_laws (node_api E) pins content"
    and "version_content (node_api E) pins content"
    and "server_run X S E cfg s0 es s" and "store_ok pins content s0" and "well_sized (objects content s0)"
  shows "store_ok pins content s \<and> well_sized (objects content s) \<and>
    (header_get ''content-length'' (fst (head_object_metadata E (b, k) s)) = Some v \<longrightarrow>
      (\<exists>d ct. objects content s (b, k) = Some (d, ct, usize_as_i64 (length d)) \<and>
         v = show_i64 (usize_as_i64 (length d)) \<and> (length d \<le> isize_max \<longrightarrow> v = dec_of_nat (length d)) \<and>
         header_get ''content-type'' (fst (head_object_metadata E (b, k) s)) = Some ct))"
proof -
  have s: "store_ok pins content s" "well_sized (objects content s)"
    using server_run_objects [OF _ assms(4,5)] assms(1-3,6) by simp_all
  obtain r s' where head: "head_object_metadata E (b, k) s = (r, s')" by fastforce
  from head_object_spec [OF s(1) head] have "spec E cfg (Head b k) (Inr r) (objects content s) (objects content s')"
    by simp
  then have "header_get ''content-length'' r = Some v \<longrightarrow> (\<exists>d ct sz. objects content s (b, k) = Some (d, ct, sz) \<and>
      v = show_i64 sz \<and> header_get ''content-type'' r = Some ct)"
    by (simp add: spec_def)
  moreover have "sz = usize_as_i64 (length d)" if "objects content s (b, k) = Some (d, ct, sz)" for d ct sz
    using s(2) that unfolding well_sized_def by blast
  ultimately show ?thesis using s show_usize_as_i64 by (simp add: head) blast
qed

text \<open>C9: A stored object is served. After a \<open>PUT\<close> over HTTP that the handler accepted, whatever requests are answered
  and tasks run, a later \<open>GET\<close> over HTTP of the same object is the answer of a handler that does not say 404
  and streams, when it streams without an error, exactly the bytes that were sent; unless one of the requests
  in between was itself a \<open>PUT\<close>, completion or \<open>DELETE\<close> of that object.\<close>

theorem served_object_lasts:
  assumes "pin_laws (node_api E) pins" "content_laws (node_api E) pins content"
    and "version_content (node_api E) pins content" and "store_ok pins content s"
    and "request_op X S cfg fresh r = Some (Put b k ct None data)"
    and "handle E cfg (Put b k ct None data) s = (Inr stored, s1)"
    and "server_run X S E cfg (snd (serve X S E cfg now fresh r s)) es s2"
    and "list_all (\<lambda>e. \<not> event_touches X S E cfg b k e) es"
    and "request_op X S cfg fresh' r' = Some (Get b k ip)"
  shows "\<exists>h. fst (serve X S E cfg now' fresh' r' s2) = layered X r' (into_response h) \<and>
    h \<noteq> Inl (Status NOT_FOUND) \<and>
    (\<forall>x cs. h = Inr x \<and> resp_body x = Streamed cs \<and> list_all is_ok cs \<longrightarrow> concat (map projr cs) = data)"
proof -
  have laws: "server_laws E pins content" using assms(1-3) by simp
  have s1: "snd (serve X S E cfg now fresh r s) = s1" by (simp add: serve_op [OF assms(5)] assms(6))
  from handle_spec [OF conjunct1 [OF laws] assms(4,6)]
  have "store_ok pins content s1" "objects content s1 (b, k) \<noteq> None"
    "fst (the (objects content s1 (b, k))) = data" by (simp_all add: spec_def)
  then have s2: "store_ok pins content s2" "objects content s2 (b, k) = objects content s1 (b, k)"
    using server_run_objects [OF laws, of X S cfg s1 es s2 b k] assms(7,8) s1 by simp_all
  obtain h s3 where get: "handle E cfg (Get b k ip) s2 = (h, s3)" by fastforce
  from handle_spec [OF conjunct1 [OF laws] s2(1) get] have "spec E cfg (Get b k ip) h (objects content s2) (objects content s3)"
    by simp
  with s2(2) \<open>objects content s1 (b, k) \<noteq> None\<close> \<open>fst _ = data\<close>
  have "h \<noteq> Inl (Status NOT_FOUND) \<and>
      (\<forall>x cs. h = Inr x \<and> resp_body x = Streamed cs \<and> list_all is_ok cs \<longrightarrow> concat (map projr cs) = data)"
    by (auto simp: spec_def)
  moreover have "fst (serve X S E cfg now' fresh' r' s2) = layered X r' (into_response h)"
    by (simp add: serve_op [OF assms(9)] get)
  ultimately show ?thesis by blast
qed

section \<open>Instances\<close>

lemma demo_version_content: "version_content demo_node_api demo_pins demo_content"
proof -
  have "dn_blocks (snd (demo_version i)) = dn_blocks i" for i
    by (simp add: demo_version_def with_fault_def split: list.split)
  then show ?thesis using demo_version_laws by (simp add: version_content_def demo_content_def demo_node_api_def)
qed

lemma demo_empty_objects: "store_ok demo_pins demo_content demo_state \<and> well_sized (objects demo_content demo_state)"
  by (simp add: store_ok_def demo_state_def primary_key_def referenced_cids_def durable.held_def objects_def
      sql_select_def well_sized_def)

definition object_request :: "string \<Rightarrow> string \<Rightarrow> bytes \<Rightarrow> request" where
  "object_request m p data = \<lparr>req_method = m, req_uri = p, req_path = p, req_headers = Map.empty,
     req_body = Plain \<lparr>stream_data = data, stream_fault = False\<rparr>\<rparr>"

abbreviation demo_serve where
  "demo_serve r s \<equiv> serve demo_http demo_sig demo_env demo_config 0 ''u'' r s"

lemma demo_pairs_plain: "CHR ''?'' \<notin> set p \<Longrightarrow> demo_pairs p = Some []"
proof -
  assume "CHR ''?'' \<notin> set p"
  then have "dropWhile (\<lambda>c. c \<noteq> CHR ''?'') p = []" by (auto simp: dropWhile_eq_Nil_conv)
  then show ?thesis by (simp only: demo_pairs_def list.case)
qed

lemma demo_object_op:
  assumes "p = ''/b/'' @ [c]" and "c \<noteq> CHR ''?''" and "c \<noteq> CHR ''/''" and "length data \<le> 100"
  shows "request_op demo_http demo_sig demo_config u (object_request ''PUT'' p data) = Some (Put ''b'' [c] None None data)"
    and "request_op demo_http demo_sig demo_config u (object_request ''GET'' p data) = Some (Get ''b'' [c] ''10.0.0.1'')"
proof -
  have plain: "demo_pairs p = Some []" using assms(1,2) by (intro demo_pairs_plain) simp
  have "demo_match (map fst app_routes) p = Some (''/{bucket}/{*key}'', [''b'', [c]])"
    using assms(3) by (simp add: assms(1) demo_match_def)
  then show "request_op demo_http demo_sig demo_config u (object_request ''PUT'' p data) = Some (Put ''b'' [c] None None data)"
    "request_op demo_http demo_sig demo_config u (object_request ''GET'' p data) = Some (Get ''b'' [c] ''10.0.0.1'')"
    using plain assms(4)
    by (simp_all add: request_op_def demo_http_def object_request_def s3_routes_def decode_op_def object_param_def
        collect_body_def within_limit_def demo_config_def admitted_def upload_part_from_query_def)
qed

lemmas demo_object_ops =
  demo_object_op(1) [of "''/b/k''" "CHR ''k''" "''hey''", simplified]
  demo_object_op(1) [of "''/b/j''" "CHR ''j''" "''you''", simplified]
  demo_object_op(2) [of "''/b/k''" "CHR ''k''" "[]", simplified]

lemma demo_served:
  "request_op demo_http demo_sig demo_config ''u'' r = Some op \<Longrightarrow>
     demo_serve r s = (layered demo_http r (into_response (fst (handle demo_env demo_config op s))),
       snd (handle demo_env demo_config op s))"
  by (simp add: serve_op case_prod_unfold)

lemma layered_body: "map_option resp_body (layered demo_http r a) = map_option resp_body a"
  by (simp add: layered_def demo_http_def option.map_comp comp_def)

lemma demo_run:
  "server_run demo_http demo_sig demo_env demo_config s
     [Answered r1 (fst (demo_serve r1 s)), Answered r2 (fst (demo_serve r2 (snd (demo_serve r1 s))))]
     (snd (demo_serve r2 (snd (demo_serve r1 s))))"
  using server_run.intros(2) [OF server_run.intros(2) [OF server_run.intros(1) server_step.answer] server_step.answer]
  by (metis append_Cons append_Nil prod.collapse)

theorem rows_describe_content_witness:
  "\<exists>v. header_get ''content-length'' (fst (head_object_metadata demo_env (''b'', ''k'')
       (snd (demo_serve (object_request ''GET'' ''/b/k'' []) (snd (demo_serve (object_request ''PUT'' ''/b/k'' ''hey'') demo_state))))))
     = Some v \<and> v = ''3''"
proof -
  let ?s = "snd (demo_serve (object_request ''GET'' ''/b/k'' []) (snd (demo_serve (object_request ''PUT'' ''/b/k'' ''hey'') demo_state)))"
  let ?done = "snd (handle demo_env demo_config (Get ''b'' ''k'' ''10.0.0.1'')
      (snd (handle demo_env demo_config (Put ''b'' ''k'' None None ''hey'') demo_state)))"
  have s: "?s = ?done" by (simp add: demo_served demo_object_ops)
  have "header_get ''content-length'' (fst (head_object_metadata demo_env (''b'', ''k'') ?done)) \<noteq> None" by code_simp
  then have "header_get ''content-length'' (fst (head_object_metadata demo_env (''b'', ''k'') ?s)) \<noteq> None" unfolding s .
  then obtain v where v: "header_get ''content-length'' (fst (head_object_metadata demo_env (''b'', ''k'') ?s)) = Some v"
    by blast
  have "objects demo_content ?done (''b'', ''k'') = Some (''hey'', ''text/plain'', 3)" by code_simp
  then have object: "objects demo_content ?s (''b'', ''k'') = Some (''hey'', ''text/plain'', 3)" unfolding s .
  from rows_describe_content [where E = demo_env and b = "''b''" and k = "''k''" and v = v, unfolded demo_env_simps,
      OF demo_pin_laws demo_content_laws demo_version_content demo_run demo_empty_objects [THEN conjunct1]
        demo_empty_objects [THEN conjunct2]]
  have "header_get ''content-length'' (fst (head_object_metadata demo_env (''b'', ''k'') ?s)) = Some v \<longrightarrow>
      (\<exists>d ct. objects demo_content ?s (''b'', ''k'') = Some (d, ct, usize_as_i64 (length d)) \<and>
         v = show_i64 (usize_as_i64 (length d)) \<and> (length d \<le> isize_max \<longrightarrow> v = dec_of_nat (length d)) \<and>
         header_get ''content-type'' (fst (head_object_metadata demo_env (''b'', ''k'') ?s)) = Some ct)"
    by blast
  with v object have "v = dec_of_nat (length ''hey'')"
    by (elim impE exE conjE) (simp_all add: isize_max_def)
  moreover have "dec_of_nat (length ''hey'') = ''3''" by code_simp
  ultimately have "v = ''3''" by simp
  with v show ?thesis by blast
qed

theorem served_object_lasts_witness:
  "(let s1 = snd (demo_serve (object_request ''PUT'' ''/b/k'' ''hey'') demo_state);
        s2 = snd (demo_serve (object_request ''PUT'' ''/b/j'' ''you'') s1)
    in \<exists>x cs. fst (demo_serve (object_request ''GET'' ''/b/k'' []) s2) =
         layered demo_http (object_request ''GET'' ''/b/k'' []) (Some x) \<and>
       resp_body x = Streamed cs \<and> concat (map projr cs) = ''hey'')"
proof -
  let ?s1 = "snd (demo_serve (object_request ''PUT'' ''/b/k'' ''hey'') demo_state)"
  let ?s2 = "snd (demo_serve (object_request ''PUT'' ''/b/j'' ''you'') ?s1)"
  let ?put = "handle demo_env demo_config (Put ''b'' ''k'' None None ''hey'') demo_state"
  let ?es = "[Answered (object_request ''PUT'' ''/b/j'' ''you'')
      (fst (demo_serve (object_request ''PUT'' ''/b/j'' ''you'') ?s1))]"
  have "is_ok (fst ?put)" by code_simp
  then have put: "?put = (Inr (projr (fst ?put)), snd ?put)" by (metis prod.collapse sum.collapse(2))
  have run: "server_run demo_http demo_sig demo_env demo_config ?s1 ?es ?s2"
    using server_run.intros(2) [OF server_run.intros(1) server_step.answer [OF surjective_pairing]] by simp
  have other: "list_all (\<lambda>e. \<not> event_touches demo_http demo_sig demo_env demo_config ''b'' ''k'' e) ?es"
    by (simp add: event_touches_def demo_object_ops)
  obtain h where h: "fst (demo_serve (object_request ''GET'' ''/b/k'' []) ?s2) =
      layered demo_http (object_request ''GET'' ''/b/k'' []) (into_response h)"
    "\<forall>x cs. h = Inr x \<and> resp_body x = Streamed cs \<and> list_all is_ok cs \<longrightarrow> concat (map projr cs) = ''hey''"
    using served_object_lasts [where E = demo_env, unfolded demo_env_simps, OF demo_pin_laws demo_content_laws
        demo_version_content demo_empty_objects [THEN conjunct1] demo_object_ops(1) put run other demo_object_ops(3)]
    by blast
  have "map_option resp_body (into_response (fst (handle demo_env demo_config (Get ''b'' ''k'' ''10.0.0.1'')
      (snd (handle demo_env demo_config (Put ''b'' ''j'' None None ''you'')
        (snd (handle demo_env demo_config (Put ''b'' ''k'' None None ''hey'') demo_state))))))) = Some (Streamed [Inr ''hey''])"
    by code_simp
  then have "map_option resp_body (fst (demo_serve (object_request ''GET'' ''/b/k'' []) ?s2)) = Some (Streamed [Inr ''hey''])"
    by (simp add: demo_served demo_object_ops layered_body)
  then obtain x where x: "into_response h = Some x" "resp_body x = Streamed [Inr ''hey'']"
    by (auto simp: h(1) layered_body)
  then have "h = Inr x" by (cases h rule: into_response.cases) auto
  with h x show ?thesis by (auto simp: Let_def)
qed

end
