(* ===== verification/TreeMirror.thy ===== *)
theory TreeMirror imports ServerObjects begin

text \<open>
  The two places where the service keeps what it stores: the table of \<^verbatim>\<open>src/src/database.rs\<close> and the
  file tree of the node. Every operation that succeeds changes both in the same way; the tree is then a mirror
  of the table, for the objects that have places of their own in it. An operation that fails may have changed
  one and not the other, so its object is in doubt until another operation on it succeeds.
\<close>

section \<open>Places\<close>

text \<open>A set of objects (bucket and key) whose paths can be computed, such that no path is at or below another's
  and a directory above one object holds another only if the keys show it.\<close>

definition well_placed ::
  "('p, 'i, 'm, 'n, 'net, 'ip) env \<Rightarrow> 'net run_config \<Rightarrow> (string \<times> string) set \<Rightarrow> bool" where
  "well_placed E cfg U \<longleftrightarrow>
     (\<forall>b k. (b, k) \<in> U \<longrightarrow> (\<exists>p. normalized_path E (folder_prefix cfg) b k = Inr p)) \<and>
     (\<forall>b k b' k' p p'. (b, k) \<in> U \<longrightarrow> (b', k') \<in> U \<longrightarrow>
        normalized_path E (folder_prefix cfg) b k = Inr p \<longrightarrow> normalized_path E (folder_prefix cfg) b' k' = Inr p' \<longrightarrow>
        at_or_below p p' \<longrightarrow> b' = b \<and> k' = k) \<and>
     (\<forall>b k b' k' d p p'. (b, k) \<in> U \<longrightarrow> (b', k') \<in> U \<longrightarrow> d \<in> set (path_ancestors E k) \<longrightarrow> d \<noteq> [] \<longrightarrow> d \<noteq> k \<longrightarrow>
        normalized_path E (folder_prefix cfg) b d = Inr p \<longrightarrow> normalized_path E (folder_prefix cfg) b' k' = Inr p' \<longrightarrow>
        at_or_below p p' \<longrightarrow> b' = b \<and> starts_with (d @ ''/'') k')"

lemma well_placedD:
  assumes "well_placed E cfg U" and "(b, k) \<in> U"
  shows "\<exists>p. normalized_path E (folder_prefix cfg) b k = Inr p"
    and "(b', k') \<in> U \<Longrightarrow> normalized_path E (folder_prefix cfg) b k = Inr p \<Longrightarrow>
      normalized_path E (folder_prefix cfg) b' k' = Inr p' \<Longrightarrow> at_or_below p p' \<Longrightarrow> b' = b \<and> k' = k"
    and "(b', k') \<in> U \<Longrightarrow> d \<in> set (path_ancestors E k) \<Longrightarrow> d \<noteq> [] \<Longrightarrow> d \<noteq> k \<Longrightarrow>
      normalized_path E (folder_prefix cfg) b d = Inr p \<Longrightarrow>
      normalized_path E (folder_prefix cfg) b' k' = Inr p' \<Longrightarrow> at_or_below p p' \<Longrightarrow>
      b' = b \<and> starts_with (d @ ''/'') k'"
proof -
  note wp = assms(1) [unfolded well_placed_def]
  show "\<exists>p. normalized_path E (folder_prefix cfg) b k = Inr p"
    by (rule mp [OF spec [OF spec [OF conjunct1 [OF wp]]] assms(2)])
  show "b' = b \<and> k' = k" if "(b', k') \<in> U" "normalized_path E (folder_prefix cfg) b k = Inr p"
    "normalized_path E (folder_prefix cfg) b' k' = Inr p'" "at_or_below p p'"
    by (rule conjunct1 [OF conjunct2 [OF wp], rule_format]) (rule assms(2) that)+
  show "b' = b \<and> starts_with (d @ ''/'') k'"
    if "(b', k') \<in> U" "d \<in> set (path_ancestors E k)" "d \<noteq> []" "d \<noteq> k"
      "normalized_path E (folder_prefix cfg) b d = Inr p" "normalized_path E (folder_prefix cfg) b' k' = Inr p'"
      "at_or_below p p'"
    by (rule conjunct2 [OF conjunct2 [OF wp], rule_format]) (rule assms(2) that)+
qed

section \<open>The mirror\<close>

text \<open>For each object of the set that is not in doubt, its path holds the link to the content of its row, or
  nothing if it has none; and only objects of the set are in the table or wait for their directories to be
  trimmed.\<close>

definition mirrored ::
  "('i \<Rightarrow> string \<Rightarrow> mfs_entry option) \<Rightarrow> ('p, 'i, 'm, 'n, 'net, 'ip) env \<Rightarrow> 'net run_config
     \<Rightarrow> (string \<times> string) set \<Rightarrow> (string \<times> string) set \<Rightarrow> ('p, 'i, 'm) app_state \<Rightarrow> bool" where
  "mirrored mfs E cfg U D s \<longleftrightarrow>
     (\<forall>b k. sql_select b k (rows_of s) \<noteq> None \<longrightarrow> (b, k) \<in> U) \<and>
     (\<forall>md. TrimEmpty md \<in> set (app_tasks s) \<longrightarrow> (md_bucket md, md_key md) \<in> U) \<and>
     (\<forall>(b, k) \<in> U - D. \<forall>p. normalized_path E (folder_prefix cfg) b k = Inr p \<longrightarrow>
        mfs (app_node s) p = map_option (\<lambda>md. MfsFile (md_cid md)) (sql_select b k (rows_of s)))"

lemma mirroredD:
  assumes "mirrored mfs E cfg U D s"
  shows "sql_select b k (rows_of s) \<noteq> None \<Longrightarrow> (b, k) \<in> U"
    and "TrimEmpty md \<in> set (app_tasks s) \<Longrightarrow> (md_bucket md, md_key md) \<in> U"
    and "(b, k) \<in> U \<Longrightarrow> (b, k) \<notin> D \<Longrightarrow> normalized_path E (folder_prefix cfg) b k = Inr p \<Longrightarrow>
      mfs (app_node s) p = map_option (\<lambda>md. MfsFile (md_cid md)) (sql_select b k (rows_of s))"
  using assms unfolding mirrored_def by blast+

text \<open>An operation on one object changes at most its own row, its own place and its own doubt.\<close>

lemma mirrored_change:
  assumes mirror: "mirrored mfs E cfg U D s" and mine: "(b, k) \<in> U"
    and rows: "\<And>b' k'. (b', k') \<noteq> (b, k) \<Longrightarrow> sql_select b' k' (rows_of s') = sql_select b' k' (rows_of s)"
    and tree: "\<And>b' k' p. (b', k') \<in> U \<Longrightarrow> (b', k') \<noteq> (b, k) \<Longrightarrow>
      normalized_path E (folder_prefix cfg) b' k' = Inr p \<Longrightarrow> mfs (app_node s') p = mfs (app_node s) p"
    and tasks: "\<And>md. TrimEmpty md \<in> set (app_tasks s') \<Longrightarrow>
      TrimEmpty md \<in> set (app_tasks s) \<or> (md_bucket md, md_key md) = (b, k)"
    and own: "(b, k) \<in> D' \<or> (\<forall>p. normalized_path E (folder_prefix cfg) b k = Inr p \<longrightarrow>
      mfs (app_node s') p = map_option (\<lambda>md. MfsFile (md_cid md)) (sql_select b k (rows_of s')))"
    and doubt: "D - {(b, k)} \<subseteq> D'"
  shows "mirrored mfs E cfg U D' s'"
proof -
  have "(b', k') \<in> U" if "sql_select b' k' (rows_of s') \<noteq> None" for b' k'
    using that mine rows [of b' k'] mirroredD(1) [OF mirror, of b' k'] by (cases "(b', k') = (b, k)") auto
  moreover have "(md_bucket md, md_key md) \<in> U" if "TrimEmpty md \<in> set (app_tasks s')" for md
    using tasks [OF that] mine mirroredD(2) [OF mirror, of md] by auto
  moreover have "mfs (app_node s') p = map_option (\<lambda>md. MfsFile (md_cid md)) (sql_select b' k' (rows_of s'))"
    if "(b', k') \<in> U" "(b', k') \<notin> D'" "normalized_path E (folder_prefix cfg) b' k' = Inr p" for b' k' p
  proof (cases "(b', k') = (b, k)")
    case True
    with own that show ?thesis by auto
  next
    case False
    then have "(b', k') \<notin> D" using doubt that(2) by auto
    with False show ?thesis
      using mirroredD(3) [OF mirror that(1) _ that(3)] rows [OF False] tree [OF that(1) False that(3)] by simp
  qed
  ultimately show ?thesis unfolding mirrored_def by blast
qed

lemma mirrored_mono: "mirrored mfs E cfg U D s \<Longrightarrow> D \<subseteq> D' \<Longrightarrow> mirrored mfs E cfg U D' s"
  unfolding mirrored_def by blast

text \<open>Nothing happened to either.\<close>

definition unmoved ::
  "('i \<Rightarrow> string \<Rightarrow> mfs_entry option) \<Rightarrow> ('p, 'i, 'm) app_state \<Rightarrow> ('p, 'i, 'm) app_state \<Rightarrow> bool" where
  "unmoved mfs s s' \<longleftrightarrow> rows_of s' = rows_of s \<and> mfs (app_node s') = mfs (app_node s) \<and>
     set (app_tasks s') \<subseteq> set (app_tasks s)"

lemma mirrored_unmoved: "mirrored mfs E cfg U D s \<Longrightarrow> unmoved mfs s s' \<Longrightarrow> mirrored mfs E cfg U D s'"
  unfolding mirrored_def unmoved_def by (simp, blast)

lemma unmoved_same:
  "rows_of s' = rows_of s \<Longrightarrow> app_node s' = app_node s \<Longrightarrow> app_tasks s' = app_tasks s \<Longrightarrow> unmoved mfs s s'"
  by (simp add: unmoved_def)

section \<open>The calls of the node\<close>

lemma unpin_if_orphan_mfs:
  assumes "mfs_laws (node_api E) mfs" and "unpin_if_orphan E md s = (r, s')"
  shows "mfs (app_node s') = mfs (app_node s)"
  using assms(2)
proof (cases rule: unpin_if_orphan_cases)
  case (unpinned db' u i')
  then show ?thesis
    using mfs_lawsD(2) [OF assms(1), of "md_cid md" True "app_node s"]
    by (auto simp: unpin_def split: prod.splits sum.splits)
qed simp

section \<open>Storing and deleting\<close>

text \<open>The objects in doubt after an operation that has tried to store or to delete one. A \<open>DELETE\<close> of an
  object that is not there fails without harm.\<close>

definition after_put :: "string \<times> string \<Rightarrow> handler \<Rightarrow> (string \<times> string) set \<Rightarrow> (string \<times> string) set" where
  "after_put i h D = (if is_ok h then D - {i} else insert i D)"

definition after_delete :: "string \<times> string \<Rightarrow> handler \<Rightarrow> (string \<times> string) set \<Rightarrow> (string \<times> string) set" where
  "after_delete i h D =
     (if is_ok h then D - {i} else if h = Inl (Status NOT_FOUND) then D else insert i D)"

lemma store_object_mirrored:
  assumes wp: "well_placed E cfg U" and laws: "mfs_laws (node_api E) mfs"
    and mirror: "mirrored mfs E cfg U D s" and mine: "(b, k) \<in> U"
    and run: "store_object E cfg b k ct data s = (h, s')"
  shows "mirrored mfs E cfg U (after_put (b, k) h D) s'"
proof -
  have elsewhere: "mfs (snd (add_content (node_api E) path data (app_node s))) p = mfs (app_node s) p"
    if "normalized_path E (folder_prefix cfg) b k = Inr path" "(b', k') \<in> U" "(b', k') \<noteq> (b, k)"
      "normalized_path E (folder_prefix cfg) b' k' = Inr p" for path b' k' p
  proof -
    have "\<not> at_or_below path p" "\<not> at_or_below p path"
      using well_placedD(2) [OF wp mine that(2,1,4)] well_placedD(2) [OF wp that(2) mine that(4,1)] that(3) by auto
    then show ?thesis using tree.add_elsewhere [OF laws] by blast
  qed
  have bad: "mirrored mfs E cfg U (after_put (b, k) h D) s'"
    if "\<not> is_ok h" "rows_of s' = rows_of s" "app_tasks s' = app_tasks s"
      "normalized_path E (folder_prefix cfg) b k = Inr path"
      "app_node s' = snd (add_content (node_api E) path data (app_node s))" for path
    by (rule mirrored_change [OF mirror mine]) (use that elsewhere [OF that(4)] in \<open>auto simp: after_put_def\<close>)
  have same: "mirrored mfs E cfg U (after_put (b, k) h D) s'"
    if "\<not> is_ok h" "rows_of s' = rows_of s" "app_tasks s' = app_tasks s" "app_node s' = app_node s"
    by (rule mirrored_change [OF mirror mine]) (use that in \<open>auto simp: after_put_def\<close>)
  show ?thesis
    using run
  proof (cases rule: store_object_cases)
    case (add_failed path e)
    show ?thesis by (rule bad [of path]) (simp_all add: add_failed)
  next
    case (store_failed path added)
    show ?thesis by (rule bad [of path]) (simp_all add: store_failed)
  next
    case (stored path added now)
    have sel: "sql_select b' k' (rows_of s') = (if (b', k') = (b, k)
        then Some \<lparr>md_cid = ar_hash added, md_size = usize_as_i64 (length data),
                   md_content_type = content_type_of E cfg ct k, md_key = k, md_bucket = b, md_updated_at = now\<rparr>
        else sql_select b' k' (rows_of s))" for b' k'
      by (simp only: stored(3) sql.select_upsert)
    have node: "app_node s' = snd (add_content (node_api E) path data (app_node s))" by (simp add: stored(2))
    have "mfs (app_node s') path = Some (MfsFile (ar_hash added))"
      using tree.add_links [OF laws, of path data "app_node s" added] by (simp add: stored(2))
    then have own: "mfs (app_node s') p = map_option (\<lambda>md. MfsFile (md_cid md)) (sql_select b k (rows_of s'))"
      if "normalized_path E (folder_prefix cfg) b k = Inr p" for p
      using that stored(1) by (simp add: sel)
    show ?thesis
    proof (rule mirrored_change [OF mirror mine])
      show "sql_select b' k' (rows_of s') = sql_select b' k' (rows_of s)" if "(b', k') \<noteq> (b, k)" for b' k'
        by (simp only: sel that if_False)
      show "mfs (app_node s') p = mfs (app_node s) p"
        if "(b', k') \<in> U" "(b', k') \<noteq> (b, k)" "normalized_path E (folder_prefix cfg) b' k' = Inr p" for b' k' p
        unfolding node by (rule elsewhere [OF stored(1) that])
      show "TrimEmpty md \<in> set (app_tasks s) \<or> (md_bucket md, md_key md) = (b, k)"
        if "TrimEmpty md \<in> set (app_tasks s')" for md using that by (simp add: stored(5))
      show "D - {(b, k)} \<subseteq> after_put (b, k) h D" by (auto simp: after_put_def)
    qed (use own in blast)
  qed (rule same; simp)+
qed

lemma remove_object_mirrored:
  assumes wp: "well_placed E cfg U" and laws: "mfs_laws (node_api E) mfs"
    and mirror: "mirrored mfs E cfg U D s" and run: "remove_object E cfg b k s = (h, s')"
  shows "mirrored mfs E cfg U (after_delete (b, k) h D) s'"
proof -
  have mine: "(b, k) \<in> U" if "sql_select b k (rows_of s) = Some md" for md
    using mirroredD(1) [OF mirror, of b k] that by simp
  have elsewhere: "mfs (snd (unlink (node_api E) path (app_node s))) p = mfs (app_node s) p"
    if "normalized_path E (folder_prefix cfg) b k = Inr path" "sql_select b k (rows_of s) = Some md"
      "(b', k') \<in> U" "(b', k') \<noteq> (b, k)" "normalized_path E (folder_prefix cfg) b' k' = Inr p" for path b' k' p md
  proof -
    have "\<not> at_or_below path p" using well_placedD(2) [OF wp mine [OF that(2)] that(3,1,5)] that(4) by auto
    then show ?thesis by (rule tree.drop_link_elsewhere [OF laws])
  qed
  have bad: "mirrored mfs E cfg U (after_delete (b, k) h D) s'"
    if "h = Inl (Status INTERNAL_SERVER_ERROR)" "rows_of s' = rows_of s" "app_tasks s' = app_tasks s"
      "normalized_path E (folder_prefix cfg) b k = Inr path" "sql_select b k (rows_of s) = Some md"
      "app_node s' = snd (unlink (node_api E) path (app_node s))" for path md
    by (rule mirrored_change [OF mirror mine [OF that(5)]])
      (use that elsewhere [OF that(4,5)] in \<open>auto simp: after_delete_def\<close>)
  have same: "mirrored mfs E cfg U (after_delete (b, k) h D) s'"
    if "\<not> is_ok h" "rows_of s' = rows_of s" "app_tasks s' = app_tasks s" "app_node s' = app_node s"
  proof -
    have "mirrored mfs E cfg U D s'" by (rule mirrored_unmoved [OF mirror unmoved_same]) (simp_all add: that)
    then show ?thesis by (rule mirrored_mono) (use that(1) in \<open>auto simp: after_delete_def\<close>)
  qed
  show ?thesis
    using run
  proof (cases rule: remove_object_cases)
    case (unlink_failed md path e)
    show ?thesis by (rule bad [of path md]) (simp_all add: unlink_failed)
  next
    case (delete_failed md path)
    show ?thesis by (rule bad [of path md]) (simp_all add: delete_failed)
  next
    case (removed md path s3 w s4)
    have ids: "md_bucket md = b" "md_key md = k" using sql_select_ids [OF removed(1)] by simp_all
    have s': "rows_of s' = rows_of s3" "app_node s' = app_node s4"
        "set (app_tasks s') \<subseteq> insert (TrimEmpty md) (set (app_tasks s))"
      using removed(6,8) unpin_if_orphan_rows [OF removed(7)] unpin_if_orphan_frame [OF removed(7)]
      by (auto split: sum.splits if_splits)
    have tree3: "mfs (app_node s') = mfs (snd (unlink (node_api E) path (app_node s)))"
      using s'(2) unpin_if_orphan_mfs [OF laws removed(7)] removed(3) by simp
    have sel: "sql_select b' k' (rows_of s') = (if (b', k') = (b, k) then None else sql_select b' k' (rows_of s))" for b' k'
      by (simp only: s'(1) removed(4) sql.select_delete)
    have "mfs (app_node s') path = None"
      using tree.drop_link_ok [OF laws, of path "app_node s"] by (simp add: tree3 removed(3) at_or_below_def)
    then have own: "mfs (app_node s') p = map_option (\<lambda>md. MfsFile (md_cid md)) (sql_select b k (rows_of s'))"
      if "normalized_path E (folder_prefix cfg) b k = Inr p" for p
      using that removed(2) by (simp add: sel)
    show ?thesis
    proof (rule mirrored_change [OF mirror mine [OF removed(1)]])
      show "sql_select b' k' (rows_of s') = sql_select b' k' (rows_of s)" if "(b', k') \<noteq> (b, k)" for b' k'
        by (simp only: sel that if_False)
      show "mfs (app_node s') p = mfs (app_node s) p"
        if "(b', k') \<in> U" "(b', k') \<noteq> (b, k)" "normalized_path E (folder_prefix cfg) b' k' = Inr p" for b' k' p
        unfolding tree3 by (rule elsewhere [OF removed(2,1) that])
      show "TrimEmpty md' \<in> set (app_tasks s) \<or> (md_bucket md', md_key md') = (b, k)"
        if "TrimEmpty md' \<in> set (app_tasks s')" for md' using subsetD [OF s'(3) that] ids by auto
      show "D - {(b, k)} \<subseteq> after_delete (b, k) h D" by (auto simp: after_delete_def)
    qed (use own in blast)
  qed (rule same; simp)+
qed

section \<open>Operations and tasks\<close>

text \<open>The object an operation would store.\<close>

definition stores :: "'ip op \<Rightarrow> (string \<times> string) option" where
  "stores op =
     (case op of
        Put b k _ None _ \<Rightarrow> Some (b, k)
      | Post b k params _ \<Rightarrow>
          if uploads_param params = None \<and> upload_id_param params \<noteq> None then Some (b, k) else None
      | _ \<Rightarrow> None)"

definition within :: "(string \<times> string) set \<Rightarrow> 'ip op \<Rightarrow> bool" where
  "within U op \<longleftrightarrow> (case stores op of None \<Rightarrow> True | Some i \<Rightarrow> i \<in> U)"

text \<open>The objects in doubt after an operation.\<close>

fun doubt_each ::
  "('p, 'i, 'm, 'n, 'net, 'ip) env \<Rightarrow> 'net run_config \<Rightarrow> string \<Rightarrow> string list \<Rightarrow> ('p, 'i, 'm) app_state
     \<Rightarrow> (string \<times> string) set \<Rightarrow> (string \<times> string) set" where
  "doubt_each E cfg b [] s D = D"
| "doubt_each E cfg b (k # ks) s D =
     (case delete_object E cfg (b, k) None s of
        (h, s1) \<Rightarrow> doubt_each E cfg b ks s1 (after_delete (b, k) h D))"

definition doubt ::
  "('p, 'i, 'm, 'n, 'net, 'ip) env \<Rightarrow> 'net run_config \<Rightarrow> 'ip op \<Rightarrow> ('p, 'i, 'm) app_state
     \<Rightarrow> (string \<times> string) set \<Rightarrow> (string \<times> string) set" where
  "doubt E cfg op s D =
     (case op of
        Put b k ct None data \<Rightarrow> after_put (b, k) (fst (put_object E cfg (b, k) ct None data s)) D
      | Delete b k None \<Rightarrow> after_delete (b, k) (fst (delete_object E cfg (b, k) None s)) D
      | DeleteMany b (Some _) body \<Rightarrow>
          (case parse_delete_payload E body of None \<Rightarrow> D | Some ks \<Rightarrow> doubt_each E cfg b ks s D)
      | Post b k params _ \<Rightarrow>
          (case (uploads_param params, upload_id_param params) of
             (None, Some u) \<Rightarrow>
               (if fst (slot_remove (slot_ops E) u (app_slots s)) = None then D
                else after_put (b, k) (fst (complete_upload E cfg (b, k) u s)) D)
           | _ \<Rightarrow> D)
      | _ \<Rightarrow> D)"

lemma delete_each_mirrored:
  assumes "well_placed E cfg U" "mfs_laws (node_api E) mfs"
  shows "mirrored mfs E cfg U D s \<Longrightarrow> delete_each E cfg b ks s = (ds, es, s') \<Longrightarrow>
    mirrored mfs E cfg U (doubt_each E cfg b ks s D) s'"
proof (induction ks arbitrary: s ds es s' D)
  case (Cons k ks)
  obtain r s1 where r: "remove_object E cfg b k s = (r, s1)" by fastforce
  obtain ds1 es1 s2 where rest: "delete_each E cfg b ks s1 = (ds1, es1, s2)" by (metis prod_cases3)
  have "s' = s2" using Cons.prems(2) r rest by (auto simp: delete_object_def split: sum.splits)
  moreover have "doubt_each E cfg b (k # ks) s D = doubt_each E cfg b ks s1 (after_delete (b, k) r D)"
    using r by (simp add: delete_object_def)
  ultimately show ?case
    using Cons.IH [OF remove_object_mirrored [OF assms Cons.prems(1) r] rest] by simp
qed simp

lemma complete_upload_mirrored:
  assumes "well_placed E cfg U" "mfs_laws (node_api E) mfs"
    and "mirrored mfs E cfg U D s" and "(b, k) \<in> U" and run: "complete_upload E cfg (b, k) u s = (h, s')"
  shows "mirrored mfs E cfg U (if fst (slot_remove (slot_ops E) u (app_slots s)) = None then D
    else after_put (b, k) h D) s'"
proof -
  obtain q s1 where q: "with_slots (slot_remove (slot_ops E) u) s = (q, s1)" by fastforce
  then have "unmoved mfs s s1" and slot: "q = fst (slot_remove (slot_ops E) u (app_slots s))"
    by (auto simp: unmoved_def elim!: with_slotsE)
  with assms(3) have mirror: "mirrored mfs E cfg U D s1" by (blast intro: mirrored_unmoved)
  show ?thesis
  proof (cases q)
    case None
    with run q mirror slot show ?thesis by (simp add: complete_upload_def)
  next
    case (Some kp)
    obtain w s2 where w: "put_object E cfg (b, k) None None (assemble_parts E (snd kp)) s1 = (w, s2)" by fastforce
    have "s' = s2" and ok: "is_ok h = is_ok w"
      using run q Some w by (auto simp: complete_upload_def Let_def case_prod_unfold split: sum.splits)
    moreover have "store_object E cfg b k None (assemble_parts E (snd kp)) s1 = (w, s2)"
      using w by (simp add: put_object_def)
    ultimately have "mirrored mfs E cfg U (after_put (b, k) w D) s'"
      using store_object_mirrored [OF assms(1,2) mirror assms(4)] by blast
    then show ?thesis using Some slot ok by (simp add: after_put_def)
  qed
qed

lemma handle_mirrored:
  assumes wp: "well_placed E cfg U" and laws: "mfs_laws (node_api E) mfs"
    and mirror: "mirrored mfs E cfg U D s" and "within U op" and run: "handle E cfg op s = (h, s')"
  shows "mirrored mfs E cfg U (doubt E cfg op s D) s'"
proof -
  note stay = mirrored_unmoved [OF mirror unmoved_same]
  show ?thesis
  proof (cases op)
    case (Put b k ct part data)
    show ?thesis
    proof (cases part)
      case None
      with run Put have "store_object E cfg b k ct data s = (h, s')" by (simp add: handle_def put_object_def)
      moreover have "(b, k) \<in> U" using assms(4) by (simp add: Put None within_def stores_def)
      ultimately show ?thesis using store_object_mirrored [OF wp laws mirror]
        by (simp add: Put None doubt_def put_object_def)
    next
      case (Some p)
      with run Put have "upload_part E p data s = (h, s')" by (simp add: handle_def put_object_def)
      from upload_part_frame [OF this] have "mirrored mfs E cfg U D s'" by (intro stay) simp_all
      then show ?thesis by (simp add: Put Some doubt_def)
    qed
  next
    case (Delete b k upload)
    show ?thesis
    proof (cases upload)
      case None
      with run Delete have "remove_object E cfg b k s = (h, s')" by (simp add: handle_def delete_object_def)
      from remove_object_mirrored [OF wp laws mirror this] this show ?thesis
        by (simp add: Delete None doubt_def delete_object_def)
    next
      case (Some u)
      with run Delete have "abort_upload E u s = (h, s')" by (simp add: handle_def delete_object_def)
      then have "rows_of s' = rows_of s" "app_node s' = app_node s" "app_tasks s' = app_tasks s"
        by (auto simp: abort_upload_def split: prod.splits elim!: with_slotsE)
      then have "mirrored mfs E cfg U D s'" by (rule stay)
      then show ?thesis by (simp add: Delete Some doubt_def)
    qed
  next
    case (DeleteMany b param payload)
    show ?thesis
    proof (cases "param \<noteq> None \<and> parse_delete_payload E payload \<noteq> None")
      case True
      then obtain x ks where ks: "param = Some x" "parse_delete_payload E payload = Some ks" by auto
      obtain ds es s1 where each: "delete_each E cfg b ks s = (ds, es, s1)" by (metis prod_cases3)
      have "s' = s1" using run each ks by (auto simp: DeleteMany handle_def modify_bucket_def)
      with delete_each_mirrored [OF wp laws mirror each] ks show ?thesis by (simp add: DeleteMany doubt_def)
    next
      case False
      with run have "s' = s" by (auto simp: DeleteMany handle_def modify_bucket_def split: if_splits)
      with False mirror show ?thesis by (auto simp: DeleteMany doubt_def split: option.split)
    qed
  next
    case (Get b k ip)
    with run have "get_object E cfg (b, k) ip s = (h, s')" by (simp add: handle_def)
    from get_object_same [OF this] have "mirrored mfs E cfg U D s'" by (intro stay) (simp_all add: same_data_def)
    then show ?thesis by (simp add: Get doubt_def)
  next
    case (Head b k)
    with run obtain r where "head_object_metadata E (b, k) s = (r, s')" by (auto simp: handle_def split: prod.splits)
    from head_object_same [OF this] have "mirrored mfs E cfg U D s'" by (intro stay) (simp_all add: same_data_def)
    then show ?thesis by (simp add: Head doubt_def)
  next
    case (Post b k params u)
    consider (create) "create_upload E (b, k) u s = (h, s')" "uploads_param params \<noteq> None"
      | (bad) "s' = s" "uploads_param params = None" "upload_id_param params = None"
      | (complete) v where "complete_upload E cfg (b, k) v s = (h, s')" "uploads_param params = None"
          "upload_id_param params = Some v"
      using run by (cases "uploads_param params"; cases "upload_id_param params")
        (simp_all add: Post handle_def multipart_upload_def)
    then show ?thesis
    proof cases
      case create
      from create_upload_frame [OF create(1)] have "mirrored mfs E cfg U D s'" by (intro stay) simp_all
      with create(2) show ?thesis by (auto simp: Post doubt_def)
    next
      case bad
      with mirror show ?thesis by (simp add: Post doubt_def)
    next
      case (complete v)
      then have "(b, k) \<in> U" using assms(4) by (simp add: Post within_def stores_def)
      from complete_upload_mirrored [OF wp laws mirror this complete(1)] complete show ?thesis
        by (cases "fst (slot_remove (slot_ops E) v (app_slots s))") (simp_all add: Post doubt_def)
    qed
  qed
qed

text \<open>A trimming task is late when the object it comes from has been stored again.\<close>

definition late :: "background \<Rightarrow> ('p, 'i, 'm) app_state \<Rightarrow> bool" where
  "late t s \<longleftrightarrow>
     (case t of
        UnpinOld _ _ \<Rightarrow> False
      | TrimEmpty md \<Rightarrow> sql_select (md_bucket md) (md_key md) (rows_of s) \<noteq> None)"

lemma sql_select_row: "sql_select b k rows \<noteq> None \<Longrightarrow> \<exists>r \<in> set rows. row_bucket r = b \<and> row_object_key r = k"
  by (auto simp: sql_select_def row_id_def find_None_iff)

lemma trim_empty_tree:
  assumes wp: "well_placed E cfg U" and laws: "mfs_laws (node_api E) mfs" and mirror: "mirrored mfs E cfg U D s"
    and mine: "(md_bucket md, md_key md) \<in> U" and timely: "\<not> late (TrimEmpty md) s"
    and other: "(b, k) \<in> U" "(b, k) \<notin> D" "normalized_path E (folder_prefix cfg) b k = Inr q"
  shows "mfs (app_node (trim_empty E cfg md s)) q = mfs (app_node s) q"
proof (cases rule: trim_empty_cases [of E cfg md s])
  case (unlinked d p)
  show ?thesis
  proof (cases "at_or_below p q")
    case False
    then show ?thesis unfolding unlinked(5) by (rule tree.drop_link_elsewhere [OF laws])
  next
    case True
    have "sql_select b k (rows_of s) = None"
    proof (cases "d = md_key md")
      case d: True
      have "b = md_bucket md \<and> k = md_key md"
        using well_placedD(2) [OF wp mine other(1) _ other(3) True] unlinked(4) d by blast
      with timely show ?thesis by (simp add: late_def)
    next
      case d: False
      have "b = md_bucket md \<and> starts_with (d @ ''/'') k"
        by (rule well_placedD(3) [OF wp mine other(1) unlinked(1,2) d unlinked(4) other(3) True])
      then show ?thesis
        using sql_count_like_zero [OF unlinked(3)] sql_select_row [of b k "rows_of s"] by blast
    qed
    with mirroredD(3) [OF mirror other] have "mfs (app_node s) q = None" by simp
    then show ?thesis
      unfolding unlinked(5) using tree.drop_link_nothing [OF laws] by simp
  qed
qed simp

lemma unpin_old_unmoved:
  assumes "mfs_laws (node_api E) mfs"
  shows "unmoved mfs s (unpin_old E old added s)"
proof -
  have "unmoved mfs s (snd (unpin_if_orphan E md s))" for md
    using unpin_if_orphan_mfs [OF assms] unpin_if_orphan_rows unpin_if_orphan_frame unfolding unmoved_def
    by (metis prod.collapse subset_refl)
  moreover have "unmoved mfs s s" by (simp add: unmoved_def)
  ultimately show ?thesis by (simp add: unpin_old_def split: option.split)
qed

lemma run_background_mirrored:
  assumes wp: "well_placed E cfg U" and laws: "mfs_laws (node_api E) mfs" and mirror: "mirrored mfs E cfg U D s"
    and mine: "\<And>md. t = TrimEmpty md \<Longrightarrow> (md_bucket md, md_key md) \<in> U" and timely: "\<not> late t s"
  shows "mirrored mfs E cfg U D (run_background E cfg t s)"
proof (cases t)
  case (UnpinOld old added)
  from mirrored_unmoved [OF mirror unpin_old_unmoved [OF laws, of s old added]] show ?thesis
    by (simp add: run_background_def UnpinOld)
next
  case (TrimEmpty md)
  have "app_tasks (trim_empty E cfg md s) = app_tasks s"
    by (simp add: trim_empty_def split: prod.split sum.split option.split) (auto elim: with_dbE)
  moreover note tree = trim_empty_tree [OF wp laws mirror mine [OF TrimEmpty] timely [unfolded TrimEmpty]]
  ultimately have "mirrored mfs E cfg U D (trim_empty E cfg md s)"
    using mirroredD [OF mirror] unfolding mirrored_def trim_empty_rows by (auto simp: tree)
  then show ?thesis by (simp add: run_background_def TrimEmpty)
qed

section \<open>Runs\<close>

text \<open>The runs of the server in which the requests store objects of the set only, and no trimming task is
  late, with the objects in doubt at their end.\<close>

definition event_within ::
  "'ip http_env \<Rightarrow> sig_env \<Rightarrow> 'net run_config \<Rightarrow> (string \<times> string) set \<Rightarrow> event \<Rightarrow> bool" where
  "event_within X S cfg U e =
     (case e of
        Ran _ \<Rightarrow> True
      | Answered r _ \<Rightarrow>
          (case request_op X S cfg [] r of None \<Rightarrow> True | Some op \<Rightarrow> within U op))"

definition event_doubt ::
  "'ip http_env \<Rightarrow> sig_env \<Rightarrow> ('p, 'i, 'm, 'n, 'net, 'ip) env \<Rightarrow> 'net run_config \<Rightarrow> event
     \<Rightarrow> ('p, 'i, 'm) app_state \<Rightarrow> (string \<times> string) set \<Rightarrow> (string \<times> string) set" where
  "event_doubt X S E cfg e s D =
     (case e of
        Ran _ \<Rightarrow> D
      | Answered r _ \<Rightarrow>
          (case request_op X S cfg [] r of None \<Rightarrow> D | Some op \<Rightarrow> doubt E cfg op s D))"

inductive calm_run ::
  "'ip http_env \<Rightarrow> sig_env \<Rightarrow> ('p, 'i, 'm, 'n, 'net, 'ip) env \<Rightarrow> 'net run_config \<Rightarrow> (string \<times> string) set
     \<Rightarrow> ('p, 'i, 'm) app_state \<Rightarrow> event list \<Rightarrow> (string \<times> string) set \<Rightarrow> ('p, 'i, 'm) app_state \<Rightarrow> bool"
  for X S E cfg U where
  calm_refl: "calm_run X S E cfg U s [] {} s"
| calm_next: "calm_run X S E cfg U s es D s' \<Longrightarrow> server_step X S E cfg s' e s'' \<Longrightarrow> event_within X S cfg U e \<Longrightarrow>
    (\<And>t. e = Ran t \<Longrightarrow> \<not> late t s') \<Longrightarrow> calm_run X S E cfg U s (es @ [e]) (event_doubt X S E cfg e s' D) s''"

lemma calm_run_is_run: "calm_run X S E cfg U s es D s' \<Longrightarrow> server_run X S E cfg s es s'"
  by (induction rule: calm_run.induct) (auto intro: server_run.intros)

definition version_mfs :: "'i ipfs_api \<Rightarrow> ('i \<Rightarrow> string \<Rightarrow> mfs_entry option) \<Rightarrow> bool" where
  "version_mfs A mfs \<longleftrightarrow> (\<forall>i. mfs (snd (api_version A i)) = mfs i)"

text \<open>Neither depends on the identifier of a new upload.\<close>

lemma within_answer:
  assumes "request_op X S cfg fresh r = Some op"
  shows "event_within X S cfg U (Answered r a) \<longleftrightarrow> within U op"
    and "event_doubt X S E cfg (Answered r a) s D = doubt E cfg op s D"
proof -
  obtain op' where op': "request_op X S cfg [] r = Some op'" "same_but_fresh op op'"
    using request_op_fresh [OF assms(1)] by blast
  then have "stores op' = stores op" "doubt E cfg op' s D = doubt E cfg op s D"
    by (auto simp: same_but_fresh_def stores_def doubt_def split: op.splits)
  with op'(1) show "event_within X S cfg U (Answered r a) \<longleftrightarrow> within U op"
      "event_doubt X S E cfg (Answered r a) s D = doubt E cfg op s D"
    by (simp_all add: event_within_def within_def event_doubt_def)
qed

lemma idle_answer:
  assumes "request_op X S cfg fresh r = None"
  shows "event_doubt X S E cfg (Answered r a) s D = D"
proof -
  have "request_op X S cfg [] r = None"
    using assms request_op_fresh [of X S cfg "[]" r _ fresh] by (cases "request_op X S cfg [] r") simp_all
  then show ?thesis by (simp add: event_doubt_def)
qed

lemma idle_unmoved:
  assumes "version_mfs (node_api E) mfs" and "idle E s s'"
  shows "unmoved mfs s s'"
  using assms unfolding idle_def unmoved_def version_mfs_def by auto

lemma server_step_mirrored:
  assumes wp: "well_placed E cfg U"
    and laws: "mfs_laws (node_api E) mfs" "version_mfs (node_api E) mfs"
    and mirror: "mirrored mfs E cfg U D s" and step: "server_step X S E cfg s e s'"
    and within: "event_within X S cfg U e" and timely: "\<And>t. e = Ran t \<Longrightarrow> \<not> late t s"
  shows "mirrored mfs E cfg U (event_doubt X S E cfg e s D) s'"
  using step
proof cases
  case (answer now fresh r a)
  show ?thesis
  proof (cases "request_op X S cfg fresh r")
    case None
    from serve_idle [OF None, of E s now] answer(2) have "idle E s s'" by simp
    from mirrored_unmoved [OF mirror idle_unmoved [OF laws(2) this]] show ?thesis
      by (simp add: answer(1) idle_answer [OF None])
  next
    case (Some op)
    obtain h s'' where run: "handle E cfg op s = (h, s'')" by fastforce
    with serve_op [OF Some, of E now s] answer(2) have "s'' = s'" by simp
    with run show ?thesis
      using handle_mirrored [OF wp laws(1) mirror, of op h s'] within
      by (simp add: answer(1) within_answer [OF Some])
  qed
next
  case (task ts t us)
  let ?s = "s\<lparr>app_tasks := ts @ us\<rparr>"
  have "unmoved mfs s ?s" using task(3) by (auto simp: unmoved_def)
  with mirror have "mirrored mfs E cfg U D ?s" by (rule mirrored_unmoved)
  moreover have "(md_bucket md, md_key md) \<in> U" if "t = TrimEmpty md" for md
    using mirroredD(2) [OF mirror, of md] task(3) that by simp
  moreover have "\<not> late t ?s" using timely [OF task(1)] by (simp add: late_def split: background.splits)
  ultimately show ?thesis
    unfolding task(1,2) event_doubt_def event.case using run_background_mirrored [OF wp laws(1)] by blast
qed

lemma calm_run_mirrored:
  assumes "well_placed E cfg U"
    and "mfs_laws (node_api E) mfs" "version_mfs (node_api E) mfs"
    and "calm_run X S E cfg U s es D s'" and "mirrored mfs E cfg U {} s"
  shows "mirrored mfs E cfg U D s'"
  using assms(4,5)
proof (induction rule: calm_run.induct)
  case (calm_next s es D s' e s'')
  show ?case
    by (rule server_step_mirrored [OF assms(1-3) calm_next.IH [OF calm_next.prems] calm_next.hyps(2-4)])
qed simp

section \<open>A task that is late\<close>

lemma shallowest_loop_reliable:
  assumes "reliable exec"
  shows "is_ok (fst (shallowest_loop exec b as sh db))"
proof (induction as arbitrary: sh db)
  case (Cons a as)
  obtain q db1 where q: "run_statement exec (\<lambda>_ rows. (sql_count_like b (a @ ''/%'') rows, rows)) db = (q, db1)"
    by fastforce
  then obtain n where "q = Inr n" using reliable_statement [OF assms q] by (cases q) simp_all
  with q Cons.IH show ?case by simp
qed simp

lemma trim_empty_unlinks:
  assumes "reliable (sqlx_exec E)"
    and "takeWhile (\<lambda>a. sql_count_like (md_bucket md) (a @ ''/%'') (rows_of s) = 0)
      (filter (\<lambda>a. a \<noteq> []) (path_ancestors E (md_key md))) = ds @ [d]"
    and "normalized_path E (folder_prefix cfg) (md_bucket md) d = Inr p"
  shows "app_node (trim_empty E cfg md s) = snd (unlink (node_api E) p (app_node s))"
proof -
  let ?as = "filter (\<lambda>a. a \<noteq> []) (path_ancestors E (md_key md))"
  let ?find = "find_shallowest_removable_directory (sqlx_exec E) (path_ancestors E) (md_bucket md) (md_key md)"
  obtain res db1 where run: "shallowest_loop (sqlx_exec E) (md_bucket md) ?as None (app_db s) = (Inr res, db1)"
    using shallowest_loop_reliable [OF assms(1), of "md_bucket md" ?as None "app_db s"]
    by (metis prod.collapse sum.collapse(2))
  then have "res = Some d" using shallowest_loop_result [OF run] assms(2) by simp
  with run have "?find (app_db s) = (Inr (Some d), db1)" by (simp add: find_shallowest_removable_directory_def)
  then have "with_db ?find s = (Inr (Some d), s\<lparr>app_db := db1\<rparr>)" by (simp add: with_db_def)
  with assms(3) show ?thesis by (simp add: trim_empty_def)
qed

text \<open>Without its link an object cannot be deleted.\<close>

lemma delete_without_link:
  assumes "mfs_laws (node_api E) mfs" and "sql_select b k (rows_of s) \<noteq> None"
    and "normalized_path E (folder_prefix cfg) b k = Inr path" and "mfs (app_node s) path = None"
    and "delete_object E cfg (b, k) None s = (h, s')"
  shows "h = Inl (Status INTERNAL_SERVER_ERROR) \<and> rows_of s' = rows_of s"
proof -
  have stuck: "\<not> is_ok (fst (unlink (node_api E) path (app_node s)))"
    by (rule tree.drop_link_missing [OF assms(1,4)])
  have run: "remove_object E cfg b k s = (h, s')" using assms(5) by (simp add: delete_object_def)
  then show ?thesis by (cases rule: remove_object_cases) (use stuck assms(2,3) in simp_all)
qed

end
