(* ===== verification/TreeMirrorProps.thy ===== *)
theory TreeMirrorProps imports TreeMirror ServerObjectProps DeleteProps begin

text \<open>
  Table and file tree (\<^verbatim>\<open>src/src/database.rs\<close>, \<^verbatim>\<open>src/src/ipfs.rs\<close>): when the tree
  mirrors the table, and the task of \<^verbatim>\<open>src/src/s3/delete_object.rs\<close> that can break it.
\<close>

text \<open>C14: The file tree mirrors the table. In every run in which no trimming task runs after its object has
  been stored again, each object that is not in doubt has at its path the link to the content of its row, or
  nothing when it has no row. An object comes into doubt by a \<open>PUT\<close>, a completion or a \<open>DELETE\<close> of it that fails
  (it may have changed one of the two places), and out of it by one that succeeds; failures at other objects do
  not matter. The objects must have places of their own: no path at or below another's, and a directory above
  two objects has a name that is a prefix of both keys.\<close>

theorem tree_mirrors_table:
  assumes "well_placed E cfg U" and "mfs_laws (node_api E) mfs" "version_mfs (node_api E) mfs"
    and "calm_run X S E cfg U s0 es D s" and "mirrored mfs E cfg U {} s0"
    and "(b, k) \<in> U" "(b, k) \<notin> D" and "normalized_path E (folder_prefix cfg) b k = Inr p"
  shows "mfs (app_node s) p = map_option (\<lambda>md. MfsFile (md_cid md)) (sql_select b k (rows_of s)) \<and>
    (\<forall>b' k'. sql_select b' k' (rows_of s) \<noteq> None \<longrightarrow> (b', k') \<in> U)"
proof -
  have "mirrored mfs E cfg U D s" by (rule calm_run_mirrored [OF assms(1-5)])
  from mirroredD(1,3) [OF this] assms(6-8) show ?thesis by blast
qed

text \<open>C35: A late trimming task removes the link of a live object. The search starts at the deleted key itself,
  and no key lies below it; so when the object has been stored again before the task of its \<open>DELETE\<close> runs, the
  task unlinks it. The row stays, and every \<open>DELETE\<close> of the object is answered with 500 from then on. No two
  requests need to overlap for that.\<close>

theorem late_trim_removes_link:
  assumes "mfs_laws (node_api E) mfs" and "reliable (sqlx_exec E)"
    and "path_ancestors E (md_key md) = md_key md # as" "md_key md \<noteq> []"
    and "\<forall>d \<in> set as. d = [] \<or> starts_with (d @ ''/'') (md_key md)"
    and "late (TrimEmpty md) s"
    and "sql_count_like (md_bucket md) (md_key md @ ''/%'') (rows_of s) = 0"
    and "normalized_path E (folder_prefix cfg) (md_bucket md) (md_key md) = Inr p"
    and "is_ok (fst (unlink (node_api E) p (app_node s)))"
  shows "let s' = run_background E cfg (TrimEmpty md) s in
    rows_of s' = rows_of s \<and> mfs (app_node s') p = None \<and>
    (\<forall>h s''. delete_object E cfg (md_bucket md, md_key md) None s' = (h, s'') \<longrightarrow>
       h = Inl (Status INTERNAL_SERVER_ERROR) \<and> rows_of s'' = rows_of s)"
proof -
  let ?s' = "trim_empty E cfg md s"
  obtain r where r: "r \<in> set (rows_of s)" "row_bucket r = md_bucket md" "row_object_key r = md_key md"
    using sql_select_row [of "md_bucket md" "md_key md" "rows_of s"] assms(6)
    unfolding late_def background.case by blast
  have parent: "sql_count_like (md_bucket md) (d @ ''/%'') (rows_of s) \<noteq> 0" if "d \<in> set as" "d \<noteq> []" for d
    using sql_count_like_zero [OF _ r(1,2)] that assms(5) r(3) by metis
  have "filter (\<lambda>d. d \<noteq> []) as = [] \<or> (\<exists>d ds. filter (\<lambda>d. d \<noteq> []) as = d # ds \<and> d \<in> set as \<and> d \<noteq> [])"
    by (cases "filter (\<lambda>d. d \<noteq> []) as") (auto dest!: arg_cong [where f = set])
  then have "takeWhile (\<lambda>a. sql_count_like (md_bucket md) (a @ ''/%'') (rows_of s) = 0)
      (filter (\<lambda>a. a \<noteq> []) (path_ancestors E (md_key md))) = [] @ [md_key md]"
    using assms(3,4,7) parent by auto
  from trim_empty_unlinks [OF assms(2) this assms(8)] have "mfs (app_node ?s') p = None"
    using tree.drop_link_ok [OF assms(1,9)] by (simp add: at_or_below_def)
  moreover have "h = Inl (Status INTERNAL_SERVER_ERROR) \<and> rows_of s'' = rows_of s"
    if "delete_object E cfg (md_bucket md, md_key md) None ?s' = (h, s'')" for h s''
    using delete_without_link [OF assms(1) _ assms(8) calculation that] assms(6)
    by (simp add: trim_empty_rows late_def)
  ultimately show ?thesis by (simp add: run_background_def Let_def trim_empty_rows)
qed

text \<open>C40: Keys are normalised for the tree but not for the table. The task removes the path of the shallowest
  directory \<open>d\<close> above the deleted key below which the search finds no key, exactly that path and what is below
  it. A live object whose path lies there, although its key is not \<open>d/...\<close>, loses its link: its row stays, and
  every \<open>DELETE\<close> of it is answered with 500 from then on.\<close>

theorem aliased_key_loses_link:
  assumes "mfs_laws (node_api E) mfs" and "reliable (sqlx_exec E)"
    and "takeWhile (\<lambda>a. sql_count_like (md_bucket md) (a @ ''/%'') (rows_of s) = 0)
      (filter (\<lambda>a. a \<noteq> []) (path_ancestors E (md_key md))) = ds @ [d]"
    and "normalized_path E (folder_prefix cfg) (md_bucket md) d = Inr p"
    and "sql_select b k (rows_of s) \<noteq> None" and "normalized_path E (folder_prefix cfg) b k = Inr q"
    and "at_or_below p q" and "is_ok (fst (unlink (node_api E) p (app_node s)))"
  shows "let s' = run_background E cfg (TrimEmpty md) s in
    \<not> (b = md_bucket md \<and> starts_with (d @ ''/'') k) \<and>
    mfs (app_node s') = (\<lambda>x. if at_or_below p x then None else mfs (app_node s) x) \<and> rows_of s' = rows_of s \<and>
    (\<forall>h s''. delete_object E cfg (b, k) None s' = (h, s'') \<longrightarrow>
       h = Inl (Status INTERNAL_SERVER_ERROR) \<and> rows_of s'' = rows_of s)"
proof -
  let ?s' = "trim_empty E cfg md s"
  have "d \<in> set (takeWhile (\<lambda>a. sql_count_like (md_bucket md) (a @ ''/%'') (rows_of s) = 0)
      (filter (\<lambda>a. a \<noteq> []) (path_ancestors E (md_key md))))"
    by (simp add: assms(3))
  then have "sql_count_like (md_bucket md) (d @ ''/%'') (rows_of s) = 0" by (rule conjunct2 [OF set_takeWhileD])
  from sql_count_like_zero [OF this] sql_select_row [OF assms(5)]
  have other: "\<not> (b = md_bucket md \<and> starts_with (d @ ''/'') k)" by blast
  have tree: "mfs (app_node ?s') = (\<lambda>x. if at_or_below p x then None else mfs (app_node s) x)"
    unfolding trim_empty_unlinks [OF assms(2,3,4)] by (rule tree.drop_link_ok [OF assms(1,8)])
  then have "mfs (app_node ?s') q = None" using assms(7) by simp
  from delete_without_link [OF assms(1) _ assms(6) this] assms(5)
  show ?thesis using other tree by (simp add: run_background_def Let_def trim_empty_rows)
qed

section \<open>Instances\<close>

lemma steady_laws:
  "reliable (sqlx_exec steady_env)" "mfs_laws (node_api steady_env) demo_mfs"
  "version_mfs (node_api steady_env) demo_mfs"
proof -
  show "reliable (sqlx_exec steady_env)" by (rule steady_reliable)
  show "mfs_laws (node_api steady_env) demo_mfs" using demo_mfs_laws by simp
  have "dn_mfs (snd (demo_version i)) = dn_mfs i" for i
    by (simp add: demo_version_def with_fault_def split: list.split)
  then show "version_mfs (node_api steady_env) demo_mfs"
    by (simp add: version_mfs_def demo_mfs_def demo_node_api_def)
qed

definition two_objects :: "(string \<times> string) set" where
  "two_objects = {(''b'', ''k''), (''b'', ''j'')}"

lemma steady_paths:
  "normalized_path steady_env (folder_prefix demo_config) ''b'' ''k'' = Inr ''/buckets/b/k''"
  "normalized_path steady_env (folder_prefix demo_config) ''b'' ''j'' = Inr ''/buckets/b/j''"
  "path_ancestors steady_env ''k'' = [''k'', []]" "path_ancestors steady_env ''j'' = [''j'', []]"
  by code_simp+

lemma two_objects_placed: "well_placed steady_env demo_config two_objects"
proof -
  have "\<not> at_or_below ''/buckets/b/k'' ''/buckets/b/j''" "\<not> at_or_below ''/buckets/b/j'' ''/buckets/b/k''"
    by code_simp+
  then show ?thesis
    unfolding well_placed_def two_objects_def by (auto simp: steady_paths)
qed

lemma steady_empty: "mirrored demo_mfs steady_env demo_config two_objects {} demo_state"
  by (auto simp: mirrored_def two_objects_def demo_state_def sql_select_def demo_mfs_def demo_empty_node_def)

theorem tree_mirrors_table_witness:
  "demo_mfs (app_node (snd (serve demo_http demo_sig steady_env demo_config 0 ''u''
     (object_request ''PUT'' ''/b/k'' ''hey'') demo_state))) ''/buckets/b/k'' = Some (MfsFile ''Qmhey'')"
proof -
  let ?r = "object_request ''PUT'' ''/b/k'' ''hey''"
  let ?run = "serve demo_http demo_sig steady_env demo_config 0 ''u'' ?r demo_state"
  have "event_within demo_http demo_sig demo_config two_objects (Answered ?r (fst ?run))"
    by (simp add: event_within_def demo_object_ops within_def stores_def two_objects_def)
  then have run: "calm_run demo_http demo_sig steady_env demo_config two_objects demo_state ([] @ [Answered ?r (fst ?run)])
      (event_doubt demo_http demo_sig steady_env demo_config (Answered ?r (fst ?run)) demo_state {}) (snd ?run)"
    by (intro calm_next [OF calm_refl server_step.answer [OF surjective_pairing]]) simp_all
  have "is_ok (fst (put_object steady_env demo_config (''b'', ''k'') None None ''hey'' demo_state))" by code_simp
  then have certain: "(''b'', ''k'') \<notin>
      event_doubt demo_http demo_sig steady_env demo_config (Answered ?r (fst ?run)) demo_state {}"
    by (simp add: within_answer(2) [OF demo_object_ops(1)] doubt_def after_put_def)
  have "(''b'', ''k'') \<in> two_objects" by (simp add: two_objects_def)
  from tree_mirrors_table [OF two_objects_placed steady_laws(2,3) run steady_empty this certain steady_paths(1)]
  have "demo_mfs (app_node (snd ?run)) ''/buckets/b/k'' =
      map_option (\<lambda>md. MfsFile (md_cid md)) (sql_select ''b'' ''k'' (rows_of (snd ?run)))" by blast
  moreover have "snd ?run = snd (handle steady_env demo_config (Put ''b'' ''k'' None None ''hey'') demo_state)"
    by (simp add: serve_op [OF demo_object_ops(1)] case_prod_unfold)
  moreover have "map_option md_cid (sql_select ''b'' ''k''
      (rows_of (snd (handle steady_env demo_config (Put ''b'' ''k'' None None ''hey'') demo_state)))) = Some ''Qmhey''"
    by code_simp
  ultimately show ?thesis by (auto simp: map_option_case split: option.splits)
qed

text \<open>An object is stored, deleted and stored again before the task of the deletion runs.\<close>

definition recreated_state where
  "recreated_state =
     snd (put_object steady_env demo_config (''b'', ''d/one'') None None ''two''
       (snd (delete_object steady_env demo_config (''b'', ''d/one'') None
         (snd (put_object steady_env demo_config (''b'', ''d/one'') None None ''one'' demo_state)))))"

definition trim_of :: "background list \<Rightarrow> metadata_response" where
  "trim_of ts = hd (concat (map (\<lambda>t. case t of TrimEmpty md \<Rightarrow> [md] | UnpinOld _ _ \<Rightarrow> []) ts))"

theorem late_trim_removes_link_witness:
  "(let md = trim_of (app_tasks recreated_state); s' = run_background steady_env demo_config (TrimEmpty md) recreated_state
    in TrimEmpty md \<in> set (app_tasks recreated_state) \<and>
       demo_mfs (app_node recreated_state) ''/buckets/b/d/one'' = Some (MfsFile ''Qmtwo'') \<and>
       demo_mfs (app_node s') ''/buckets/b/d/one'' = None \<and> map row_object_key (rows_of s') = [''d/one''])"
proof -
  let ?md = "trim_of (app_tasks recreated_state)"
  have md: "md_bucket ?md = ''b''" "md_key ?md = ''d/one''"
    and task: "TrimEmpty ?md \<in> set (app_tasks recreated_state)"
    and row: "map row_id (rows_of recreated_state) = [(''b'', ''d/one'')]"
    and late: "late (TrimEmpty ?md) recreated_state"
    and empty: "sql_count_like ''b'' (''d/one'' @ ''/%'') (rows_of recreated_state) = 0"
    and ok: "is_ok (fst (unlink (node_api steady_env) ''/buckets/b/d/one'' (app_node recreated_state)))"
    and link: "demo_mfs (app_node recreated_state) ''/buckets/b/d/one'' = Some (MfsFile ''Qmtwo'')"
    unfolding recreated_state_def by code_simp+
  have path: "path_ancestors steady_env ''d/one'' = ''d/one'' # [''d'', []]"
      "normalized_path steady_env (folder_prefix demo_config) ''b'' ''d/one'' = Inr ''/buckets/b/d/one''"
      "list_all (\<lambda>d. d = [] \<or> starts_with (d @ ''/'') ''d/one'') [''d'', []]"
    by code_simp+
  have "map row_object_key (rows_of recreated_state) = map snd (map row_id (rows_of recreated_state))"
    by (simp add: row_id_def comp_def)
  then have key: "map row_object_key (rows_of recreated_state) = [''d/one'']" by (simp add: row)
  from late_trim_removes_link [OF steady_laws(2,1), of ?md "[''d'', []]" recreated_state demo_config "''/buckets/b/d/one''",
      unfolded md, OF path(1) _ path(3) [unfolded list_all_iff] late empty path(2) ok]
  show ?thesis using task link key by (simp add: Let_def)
qed

text \<open>The path of \<open>a//b/c\<close> lies beside that of \<open>a/b/d\<close>, but its directory in the table is \<open>a//b\<close>.\<close>

definition alias_state where
  "alias_state =
     snd (delete_object steady_env demo_config (''b'', ''a//b/c'') None
       (snd (put_object steady_env demo_config (''b'', ''a//b/c'') None None ''one''
         (snd (put_object steady_env demo_config (''b'', ''a/b/d'') None None ''two'' demo_state)))))"

theorem aliased_key_loses_link_witness:
  "demo_mfs (app_node alias_state) ''/buckets/b/a/b/d'' = Some (MfsFile ''Qmtwo'') \<and>
   fst (delete_object steady_env demo_config (''b'', ''a/b/d'') None
     (run_background steady_env demo_config (TrimEmpty (deleted_md ''a//b/c'')) alias_state))
     = Inl (Status INTERNAL_SERVER_ERROR)"
proof -
  let ?md = "deleted_md ''a//b/c''"
  have md: "md_bucket ?md = ''b''" "md_key ?md = ''a//b/c''" by (simp_all add: deleted_md_def)
  have search: "takeWhile (\<lambda>a. sql_count_like ''b'' (a @ ''/%'') (rows_of alias_state) = 0)
      (filter (\<lambda>a. a \<noteq> []) (path_ancestors steady_env ''a//b/c'')) = [''a//b/c''] @ [''a//b'']"
    unfolding alias_state_def by code_simp
  have paths: "normalized_path steady_env (folder_prefix demo_config) ''b'' ''a//b'' = Inr ''/buckets/b/a/b''"
      "normalized_path steady_env (folder_prefix demo_config) ''b'' ''a/b/d'' = Inr ''/buckets/b/a/b/d''"
      "at_or_below ''/buckets/b/a/b'' ''/buckets/b/a/b/d''"
    by code_simp+
  have live: "sql_select ''b'' ''a/b/d'' (rows_of alias_state) \<noteq> None"
    and ok: "is_ok (fst (unlink (node_api steady_env) ''/buckets/b/a/b'' (app_node alias_state)))"
    and link: "demo_mfs (app_node alias_state) ''/buckets/b/a/b/d'' = Some (MfsFile ''Qmtwo'')"
    unfolding alias_state_def by code_simp+
  from aliased_key_loses_link [OF steady_laws(2,1), of ?md alias_state "[''a//b/c'']" "''a//b''", unfolded md,
      OF search paths(1) live paths(2,3) ok]
  show ?thesis using link prod.collapse [symmetric] by (simp only: Let_def) blast
qed

end
