(* ===== verification/Lifecycle.thy ===== *)
theory Lifecycle imports ServerObjects begin

text \<open>
  The serving phase of \<^verbatim>\<open>src/src/main.rs\<close> and its end: the signals, the graceful shutdown with
  its time limit, and the connection pool that is closed in it. \<^verbatim>\<open>axum::serve\<close> accepts until the
  shutdown future is ready and then waits for the requests it has accepted; \<^verbatim>\<open>sqlx\<close> refuses every
  statement on a closed pool. Requests and background tasks are the threads of \<^verbatim>\<open>Concurrency.thy\<close> and
  proceed from one \<open>await\<close> to the next, so a signal finds some of them half done.
\<close>

datatype os_signal = Interrupt | Terminate | OtherSignal

text \<open>\<open>shutdown_signal\<close>: whichever of the two comes first.\<close>

definition shutdown_signal :: "os_signal \<Rightarrow> bool" where
  "shutdown_signal sg \<longleftrightarrow> sg \<in> {Interrupt, Terminate}"

text \<open>The seconds that closing the pool may take.\<close>

definition grace_period :: nat where
  "grace_period = 3"

datatype phase = Running | Closing nat | Draining | Stopped

text \<open>\<open>life_clients\<close> says which of the threads answer a request; the others are spawned tasks.\<close>

record ('p, 'i, 'm, 'ip) lifecycle =
  life_phase :: phase
  life_conf :: "('p, 'i, 'm, 'ip) conf"
  life_clients :: "bool list"

abbreviation life_threads :: "('p, 'i, 'm, 'ip) lifecycle \<Rightarrow> 'ip pc list" where
  "life_threads l \<equiv> fst (life_conf l)"

abbreviation life_state :: "('p, 'i, 'm, 'ip) lifecycle \<Rightarrow> ('p, 'i, 'm) app_state" where
  "life_state l \<equiv> snd (life_conf l)"

definition close_pool :: "('p \<Rightarrow> 'p) \<Rightarrow> ('p, 'i, 'm) app_state \<Rightarrow> ('p, 'i, 'm) app_state" where
  "close_pool close s = s\<lparr>app_db := (app_db s)\<lparr>db_pool := close (db_pool (app_db s))\<rparr>\<rparr>"

fun accepting :: "phase \<Rightarrow> bool" where
  "accepting Running \<longleftrightarrow> True"
| "accepting (Closing _) \<longleftrightarrow> True"
| "accepting _ \<longleftrightarrow> False"

datatype 'ip life_event =
    Accepted request "'ip op"
  | Replied request "response option"
  | Worked "'ip move"
  | Signalled os_signal
  | SecondPassed
  | PoolClosed
  | TimedOut
  | AllServed

text \<open>A request that amounts to an operation of the handlers becomes a thread; any other (a health check, a
  listing, a refusal by a layer or an extractor) is answered at once. A client that disconnects has its handler
  dropped; a task is never dropped while the process runs. The shutdown future waits for the signal, then closes
  the pool within the time limit; only then is it ready. When all accepted requests are served \<open>serve\<close>
  returns, \<open>main\<close> ends, and with it every task that has not ended.\<close>

inductive life_step ::
  "'ip http_env \<Rightarrow> sig_env \<Rightarrow> ('p, 'i, 'm, 'n, 'net, 'ip) env \<Rightarrow> 'net run_config \<Rightarrow> ('p \<Rightarrow> 'p)
     \<Rightarrow> ('p, 'i, 'm, 'ip) lifecycle \<Rightarrow> 'ip life_event \<Rightarrow> ('p, 'i, 'm, 'ip) lifecycle \<Rightarrow> bool"
  for X S E cfg close where
  accept: "accepting (life_phase l) \<Longrightarrow> request_op X S cfg fresh r = Some op \<Longrightarrow>
    conc_step E cfg (life_conf l) (Arrive op) c \<Longrightarrow>
    life_step X S E cfg close l (Accepted r op) (l\<lparr>life_conf := c, life_clients := life_clients l @ [True]\<rparr>)"
| reply: "accepting (life_phase l) \<Longrightarrow> request_op X S cfg fresh r = None \<Longrightarrow>
    serve X S E cfg now fresh r (life_state l) = (a, s') \<Longrightarrow>
    life_step X S E cfg close l (Replied r a) (l\<lparr>life_conf := (life_threads l, s')\<rparr>)"
| wake: "life_phase l \<noteq> Stopped \<Longrightarrow> conc_step E cfg (life_conf l) (Wake n) c \<Longrightarrow>
    life_step X S E cfg close l (Worked (Wake n)) (l\<lparr>life_conf := c, life_clients := life_clients l @ [False]\<rparr>)"
| proceed: "life_phase l \<noteq> Stopped \<Longrightarrow> weight (life_threads l ! i) \<noteq> 0 \<Longrightarrow>
    conc_step E cfg (life_conf l) (Move i) c \<Longrightarrow>
    life_step X S E cfg close l (Worked (Move i)) (l\<lparr>life_conf := c\<rparr>)"
| disconnect: "life_phase l \<noteq> Stopped \<Longrightarrow> weight (life_threads l ! i) \<noteq> 0 \<Longrightarrow> life_clients l ! i \<Longrightarrow>
    conc_step E cfg (life_conf l) (Cancel i) c \<Longrightarrow>
    life_step X S E cfg close l (Worked (Cancel i)) (l\<lparr>life_conf := c\<rparr>)"
| signal: "life_phase l = Running \<Longrightarrow> shutdown_signal sg \<Longrightarrow>
    life_step X S E cfg close l (Signalled sg)
      (l\<lparr>life_phase := Closing 0, life_conf := (life_threads l, close_pool close (life_state l))\<rparr>)"
| second: "life_phase l = Closing n \<Longrightarrow> n < grace_period \<Longrightarrow>
    life_step X S E cfg close l SecondPassed (l\<lparr>life_phase := Closing (Suc n)\<rparr>)"
| closed: "life_phase l = Closing n \<Longrightarrow>
    life_step X S E cfg close l PoolClosed (l\<lparr>life_phase := Draining\<rparr>)"
| timeout: "life_phase l = Closing grace_period \<Longrightarrow>
    life_step X S E cfg close l TimedOut (l\<lparr>life_phase := Draining\<rparr>)"
| finish: "life_phase l = Draining \<Longrightarrow>
    (\<And>i. i < length (life_threads l) \<Longrightarrow> life_clients l ! i \<Longrightarrow> weight (life_threads l ! i) = 0) \<Longrightarrow>
    life_step X S E cfg close l AllServed (l\<lparr>life_phase := Stopped\<rparr>)"

inductive_cases signalledE: "life_step X S E cfg close l (Signalled sg) l'"
inductive_cases acceptedE: "life_step X S E cfg close l (Accepted r op) l'"

text \<open>A run, all of whose steps are allowed.\<close>

inductive life_run ::
  "'ip http_env \<Rightarrow> sig_env \<Rightarrow> ('p, 'i, 'm, 'n, 'net, 'ip) env \<Rightarrow> 'net run_config \<Rightarrow> ('p \<Rightarrow> 'p)
     \<Rightarrow> (('p, 'i, 'm, 'ip) lifecycle \<Rightarrow> 'ip life_event \<Rightarrow> bool)
     \<Rightarrow> ('p, 'i, 'm, 'ip) lifecycle \<Rightarrow> 'ip life_event list \<Rightarrow> ('p, 'i, 'm, 'ip) lifecycle \<Rightarrow> bool"
  for X S E cfg close allowed where
  life_refl: "life_run X S E cfg close allowed l [] l"
| life_next: "allowed l e \<Longrightarrow> life_step X S E cfg close l e l' \<Longrightarrow> life_run X S E cfg close allowed l' es l'' \<Longrightarrow>
    life_run X S E cfg close allowed l (e # es) l''"

text \<open>A server that has just started.\<close>

definition started_life :: "('p, 'i, 'm) app_state \<Rightarrow> ('p, 'i, 'm, 'ip) lifecycle" where
  "started_life s = \<lparr>life_phase = Running, life_conf = ([], s), life_clients = []\<rparr>"

text \<open>The interleavings of \<^verbatim>\<open>Concurrency.thy\<close> in which every step is one of an unfinished thread.\<close>

definition busy :: "('p, 'i, 'm, 'ip) conf \<Rightarrow> 'ip move \<Rightarrow> bool" where
  "busy c m = (case m of Move i \<Rightarrow> weight (fst c ! i) \<noteq> 0 | _ \<Rightarrow> False)"

lemma busy_life_run:
  assumes "conc_run E cfg P c ms c'" and "\<And>c m. P c m \<Longrightarrow> busy c m" and "\<And>l m. P (life_conf l) m \<Longrightarrow> allowed l (Worked m)"
  shows "life_phase l \<noteq> Stopped \<Longrightarrow> life_conf l = c \<Longrightarrow>
    life_run X S E cfg close allowed l (map Worked ms) (l\<lparr>life_conf := c'\<rparr>)"
  using assms(1)
proof (induction arbitrary: l rule: conc_run.induct)
  case (still c)
  then have "l\<lparr>life_conf := c\<rparr> = l" by (cases l) simp
  then show ?case using life_refl [of X S E cfg close allowed l] by simp
next
  case (onward c m c1 ms c2)
  then obtain i where i: "m = Move i" "weight (fst c ! i) \<noteq> 0"
    using assms(2) [of c m] by (auto simp: busy_def split: move.splits)
  have "life_step X S E cfg close l (Worked m) (l\<lparr>life_conf := c1\<rparr>)"
    unfolding i(1) by (rule proceed) (use onward i in simp_all)
  moreover have "life_run X S E cfg close allowed (l\<lparr>life_conf := c1\<rparr>) (map Worked ms) (l\<lparr>life_conf := c2\<rparr>)"
    using onward.IH [of "l\<lparr>life_conf := c1\<rparr>"] onward.prems by simp
  moreover have "allowed l (Worked m)" using assms(3) [of l m] onward by simp
  ultimately show ?case using life_next [of allowed l "Worked m"] by simp
qed

section \<open>A closed pool\<close>

text \<open>A closed pool refuses every statement and stays closed.\<close>

definition close_laws :: "('p sqlx) \<Rightarrow> ('p \<Rightarrow> bool) \<Rightarrow> ('p \<Rightarrow> 'p) \<Rightarrow> bool" where
  "close_laws exec is_closed close \<longleftrightarrow>
     (\<forall>p. is_closed (close p)) \<and>
     (\<forall>p. is_closed p \<longrightarrow> \<not> is_ok (fst (exec p)) \<and> is_closed (snd (exec p)))"

abbreviation pool_of :: "('p, 'i, 'm) app_state \<Rightarrow> 'p" where
  "pool_of s \<equiv> db_pool (app_db s)"

text \<open>The operations that read the table before they do anything else.\<close>

definition needs_table :: "'ip op \<Rightarrow> bool" where
  "needs_table op \<longleftrightarrow>
     (case op of
        Put _ _ _ part _ \<Rightarrow> part = None
      | Delete _ _ upload \<Rightarrow> upload = None
      | Get _ _ _ \<Rightarrow> True
      | Head _ _ \<Rightarrow> True
      | _ \<Rightarrow> False)"

definition server_error :: response where
  "server_error = \<lparr>resp_status = INTERNAL_SERVER_ERROR, resp_headers = [], resp_body = no_body\<rparr>"

text \<open>A statement on a closed pool: an error, and only the pool has changed.\<close>

definition refused :: "('p \<Rightarrow> bool) \<Rightarrow> ('p, 'i, 'm) app_state \<Rightarrow> ('p, 'i, 'm) app_state \<Rightarrow> bool" where
  "refused is_closed s s' \<longleftrightarrow>
     (\<exists>p. is_closed p \<and> s' = s\<lparr>app_db := (app_db s)\<lparr>db_pool := p\<rparr>\<rparr>)"

lemma refused_frame:
  assumes "refused is_closed s s'"
  shows "rows_of s' = rows_of s" "app_node s' = app_node s" "app_tasks s' = app_tasks s"
    "app_slots s' = app_slots s" "is_closed (pool_of s')"
  using assms by (auto simp: refused_def)

lemma closed_statement:
  assumes "close_laws exec is_closed close" and "is_closed (db_pool db)"
  obtains e p where "run_statement exec stmt db = (Inl e, db\<lparr>db_pool := p\<rparr>)" and "is_closed p"
proof -
  obtain r p where r: "exec (db_pool db) = (r, p)" by fastforce
  with assms have "\<not> is_ok r" "is_closed p" unfolding close_laws_def by (metis fst_conv snd_conv)+
  with r that show thesis by (cases r) (auto simp: run_statement_def)
qed

lemma closed_call:
  assumes "close_laws exec is_closed close" and "is_closed (pool_of s)"
    and "with_db (run_statement exec stmt) s = (r, s')"
  shows "(\<exists>e. r = Inl e) \<and> refused is_closed s s'"
proof -
  obtain db' where db: "run_statement exec stmt (app_db s) = (r, db')" "s' = s\<lparr>app_db := db'\<rparr>"
    using assms(3) by (rule with_dbE)
  obtain e p where "run_statement exec stmt (app_db s) = (Inl e, (app_db s)\<lparr>db_pool := p\<rparr>)" "is_closed p"
    by (rule closed_statement [OF assms(1,2)])
  with db show ?thesis by (auto simp: refused_def)
qed

lemma closed_lookup:
  assumes "close_laws (sqlx_exec E) is_closed close" and "is_closed (pool_of s)"
    and "with_db (get_object_metadata (sqlx_exec E) b k) s = (q, s1)"
  obtains e where "q = Inl e" and "refused is_closed s s1"
  using closed_call [OF assms(1,2)] assms(3) unfolding get_object_metadata_def by blast

lemma closed_get:
  assumes "close_laws (sqlx_exec E) is_closed close" and "is_closed (pool_of s)"
    and "get_object E cfg (b, k) ip s = (h, s')"
  shows "h = Inl (Status INTERNAL_SERVER_ERROR) \<and> refused is_closed s s'"
proof -
  obtain q s1 where q: "with_db (get_object_metadata (sqlx_exec E) b k) s = (q, s1)" by fastforce
  obtain e where "q = Inl e" "refused is_closed s s1" by (rule closed_lookup [OF assms(1,2) q])
  with assms(3) q show ?thesis by (simp add: get_object_def)
qed

lemma closed_head:
  assumes "close_laws (sqlx_exec E) is_closed close" and "is_closed (pool_of s)"
    and "head_object_metadata E (b, k) s = (r, s')"
  shows "r = server_error \<and> refused is_closed s s'"
proof -
  obtain q s1 where q: "with_db (get_object_metadata (sqlx_exec E) b k) s = (q, s1)" by fastforce
  obtain e where "q = Inl e" "refused is_closed s s1" by (rule closed_lookup [OF assms(1,2) q])
  with assms(3) q show ?thesis by (simp add: head_object_metadata_def server_error_def)
qed

lemma idle_pool:
  assumes laws: "close_laws (sqlx_exec E) is_closed close" and closed: "is_closed (pool_of s)" and "idle E s s'"
  shows "is_closed (pool_of s')"
proof -
  obtain e p where "run_statement (sqlx_exec E) (\<lambda>_ rows. ((), rows)) (app_db s) = (Inl e, (app_db s)\<lparr>db_pool := p\<rparr>)"
      and "is_closed p"
    by (rule closed_statement [OF laws closed])
  then have "is_closed (db_pool (snd (db_ping (sqlx_exec E) (app_db s))))" by (simp add: db_ping_def)
  with closed assms(3) show ?thesis by (auto simp: idle_def)
qed

text \<open>The threads that still have a statement to run before they can succeed.\<close>

fun must_query :: "'ip pc \<Rightarrow> bool" where
  "must_query (SelectOld _ _ _ _ _) \<longleftrightarrow> True"
| "must_query (AddBytes _ _ _ _ _ _ _) \<longleftrightarrow> True"
| "must_query (LinkContent _ _ _ _ _ _ _ _) \<longleftrightarrow> True"
| "must_query (StoreRow _ _ _ _ _ _ _) \<longleftrightarrow> True"
| "must_query (SelectDoomed d _ _) \<longleftrightarrow> d = PlainDelete"
| "must_query (UnlinkDoomed d _ _) \<longleftrightarrow> d = PlainDelete"
| "must_query (DeleteRow d _) \<longleftrightarrow> d = PlainDelete"
| "must_query (CountRefs u _) \<longleftrightarrow> u = OfDelete PlainDelete"
| "must_query (ReadRow _ _ _) \<longleftrightarrow> True"
| "must_query (HeadRow _ _) \<longleftrightarrow> True"
| "must_query _ \<longleftrightarrow> False"

lemma must_query_start: "needs_table op \<Longrightarrow> must_query (start E op)"
  by (simp add: needs_table_def start_def split: op.splits)

text \<open>Dropped, or answered with the bare status 500.\<close>

definition turned_down :: "'ip pc \<Rightarrow> bool" where
  "turned_down pc \<longleftrightarrow>
     (case pc of
        Finished None \<Rightarrow> True
      | Finished (Some h) \<Rightarrow> into_response h = Some server_error
      | _ \<Rightarrow> False)"

lemma turned_down_simps [simp]:
  "turned_down (Finished None)" "turned_down (Finished (Some (Inl (Status INTERNAL_SERVER_ERROR))))"
  "turned_down (Finished (Some (Inr server_error)))"
  by (simp_all add: turned_down_def server_error_def)

lemma turned_down_finished: "turned_down pc \<Longrightarrow> weight pc = 0"
  by (cases pc) (simp_all add: turned_down_def)

lemma delete_done_plain [simp]: "delete_done E PlainDelete h = Finished (Some h)"
  by (simp add: delete_done_def)

text \<open>A step with the pool closed leaves the table alone, keeps the pool closed, begins no unpinning, and brings
  a thread that must query no further than to its next statement.\<close>

lemma advance_closed:
  assumes laws: "close_laws (sqlx_exec E) is_closed close" and closed: "is_closed (pool_of s)"
    and run: "advance E cfg pc s = (pc', s')"
  shows "rows_of s' = rows_of s \<and> is_closed (pool_of s') \<and> unpins pc' = {} \<and>
    (must_query pc \<or> turned_down pc \<longrightarrow> must_query pc' \<or> turned_down pc')"
proof -
  have call: "(\<exists>e. r = Inl e) \<and> rows_of s1 = rows_of s \<and> is_closed (pool_of s1)"
    if "with_db (run_statement (sqlx_exec E) stmt) s = (r, s1)" for stmt r s1
    using closed_call [OF laws closed that] refused_frame by blast
  show ?thesis
  proof (cases pc)
    case (SelectOld p b k ct body)
    obtain r s1 where r: "with_db (get_object_metadata (sqlx_exec E) b k) s = (r, s1)" by fastforce
    then obtain e where "r = Inl e" "rows_of s1 = rows_of s" "is_closed (pool_of s1)"
      using call unfolding get_object_metadata_def by blast
    with run r show ?thesis by (auto simp: SelectOld put_answer_def split: put_owner.splits)
  next
    case (StoreRow p b k old ct n added)
    obtain r s1 where r: "with_db (store_object_metadata (sqlx_exec E) b k (ar_hash added) (usize_as_i64 n) ct) s = (r, s1)"
      by fastforce
    then obtain e where "r = Inl e" "rows_of s1 = rows_of s" "is_closed (pool_of s1)"
      using call unfolding store_object_metadata_def by blast
    with run r show ?thesis by (auto simp: StoreRow put_answer_def split: put_owner.splits)
  next
    case (SelectDoomed d b k)
    obtain r s1 where r: "with_db (get_object_metadata (sqlx_exec E) b k) s = (r, s1)" by fastforce
    then obtain e where "r = Inl e" "rows_of s1 = rows_of s" "is_closed (pool_of s1)"
      using call unfolding get_object_metadata_def by blast
    with run r show ?thesis by (auto simp: SelectDoomed dest: turned_down_finished)
  next
    case (DeleteRow d md)
    obtain r s1 where r: "with_db (db_delete_object (sqlx_exec E) md) s = (r, s1)" by fastforce
    then obtain e where "r = Inl e" "rows_of s1 = rows_of s" "is_closed (pool_of s1)"
      using call unfolding db_delete_object_def by blast
    with run r show ?thesis by (auto simp: DeleteRow dest: turned_down_finished)
  next
    case (CountRefs u md)
    obtain r s1 where r: "with_db (cid_count (sqlx_exec E) (md_cid md)) s = (r, s1)" by fastforce
    then obtain e where e: "r = Inl e" "rows_of s1 = rows_of s" "is_closed (pool_of s1)"
      using call unfolding cid_count_def by blast
    with run r have ended: "unpin_done E cfg u md (Inl INTERNAL_SERVER_ERROR) s1 = (pc', s')" by (simp add: CountRefs)
    then have "u = OfDelete PlainDelete \<longrightarrow> turned_down pc'" by (auto simp: unpin_done_def delete_done_def)
    moreover have "app_db s' = app_db s1" "unpins pc' = {}"
      using unpin_done_frame(1) [of E cfg u md "Inl INTERNAL_SERVER_ERROR" s1]
        unpins_done(4) [of E cfg u md "Inl INTERNAL_SERVER_ERROR" s1] by (simp_all add: ended)
    ultimately show ?thesis using e by (simp add: CountRefs turned_down_def)
  next
    case (SearchDir md as found)
    show ?thesis
    proof (cases as)
      case Nil
      with run closed show ?thesis by (auto simp: SearchDir turned_down_def)
    next
      case (Cons a as')
      obtain r s1 where r: "with_db (run_statement (sqlx_exec E)
          (\<lambda>_ rows. (sql_count_like (md_bucket md) (a @ ''/%'') rows, rows))) s = (r, s1)" by fastforce
      with call [OF r] run Cons show ?thesis by (auto simp: SearchDir turned_down_def)
    qed
  next
    case (ReadRow b k ip)
    obtain h s1 where "get_object E cfg (b, k) ip s = (h, s1)" by fastforce
    with closed_get [OF laws closed this] run show ?thesis by (auto simp: ReadRow dest: refused_frame)
  next
    case (HeadRow b k)
    obtain h s1 where "head_object_metadata E (b, k) s = (h, s1)" by fastforce
    with closed_head [OF laws closed this] run show ?thesis by (auto simp: HeadRow dest: refused_frame)
  next
    case (UnpinContent u md)
    obtain q s1 where q: "with_node (unpin (node_api E) md) s = (q, s1)" by fastforce
    obtain r where ended: "unpin_done E cfg u md r s1 = (pc', s')"
      using run q by (auto simp: UnpinContent split: sum.splits)
    have "app_db s1 = app_db s" using q by (auto elim: with_nodeE)
    moreover have "app_db s' = app_db s1" "unpins pc' = {}"
      using unpin_done_frame(1) [of E cfg u md r s1] unpins_done(4) [of E cfg u md r s1] by (simp_all add: ended)
    ultimately show ?thesis using closed by (simp add: UnpinContent turned_down_def)
  next
    case (WritePart p body)
    with run closed show ?thesis by (auto simp: turned_down_def split: prod.splits dest!: upload_part_frame)
  next
    case (DropSlot u)
    with run closed show ?thesis by (auto simp: turned_down_def abort_upload_def with_slots_def split: prod.splits)
  next
    case (TakeSlot b k u)
    with run closed show ?thesis by (auto simp: turned_down_def with_slots_def split: prod.splits option.splits)
  next
    case (Finished h)
    with run closed show ?thesis by auto
  qed (use run closed in \<open>auto simp: with_node_def put_answer_def dest: turned_down_finished
      split: prod.splits sum.splits put_owner.splits\<close>)
qed

section \<open>After the signal\<close>

text \<open>From one configuration to a later one while the pool is closed: the table is the same, every thread that
  had to query still has to or is turned down, no thread has come to unpin anything, and nothing is unpinned but
  what a thread was about to unpin.\<close>

definition doomed :: "'ip pc \<Rightarrow> bool" where
  "doomed pc \<longleftrightarrow> must_query pc \<or> turned_down pc"

definition to_unpin :: "'ip pc list \<Rightarrow> string set" where
  "to_unpin ths = (\<Union>pc \<in> set ths. unpins pc)"

definition at_rest ::
  "('i \<Rightarrow> string set) \<Rightarrow> ('p, 'i, 'm, 'ip) conf \<Rightarrow> ('p, 'i, 'm, 'ip) conf \<Rightarrow> bool" where
  "at_rest pins c c' \<longleftrightarrow>
     rows_of (snd c') = rows_of (snd c) \<and> length (fst c) \<le> length (fst c') \<and>
     (\<forall>i < length (fst c). doomed (fst c ! i) \<longrightarrow> doomed (fst c' ! i)) \<and>
     to_unpin (fst c') \<subseteq> to_unpin (fst c) \<and> pins (app_node (snd c)) - to_unpin (fst c) \<subseteq> pins (app_node (snd c'))"

lemma at_rest_refl: "at_rest pins c c"
  by (simp add: at_rest_def)

lemma at_rest_trans: "at_rest pins c c' \<Longrightarrow> at_rest pins c' c'' \<Longrightarrow> at_rest pins c c''"
  unfolding at_rest_def by (intro conjI) (simp, linarith, simp, blast, blast)

lemma to_unpin_update:
  "to_unpin (ths[i := pc]) \<subseteq> to_unpin ths \<union> unpins pc"
  using set_update_subset_insert [of ths i pc] by (auto simp: to_unpin_def)

lemma conc_step_at_rest:
  assumes laws: "close_laws (sqlx_exec E) is_closed close" and pins: "pin_laws (node_api E) pins"
    and closed: "is_closed (pool_of (snd c))" and step: "conc_step E cfg c m c'"
  shows "at_rest pins c c' \<and> is_closed (pool_of (snd c'))"
  using step
proof cases
  case (arrive ths s op)
  with closed show ?thesis by (auto simp: at_rest_def to_unpin_def nth_append)
next
  case (wake n s ths)
  with closed show ?thesis by (auto simp: at_rest_def to_unpin_def nth_append)
next
  case (move i ths s pc s')
  then have "is_closed (pool_of s)" using closed by simp
  from advance_closed [OF laws this move(5)]
  have rows: "rows_of s' = rows_of s" "is_closed (pool_of s')" "unpins pc = {}"
    and doom: "doomed (ths ! i) \<longrightarrow> doomed pc" by (simp_all add: doomed_def)
  have "ths ! i \<in> set ths" using move(4) by simp
  then have "unpins (ths ! i) \<subseteq> to_unpin ths" by (auto simp: to_unpin_def)
  with advance_node_pins [OF pins move(5)] have "pins (app_node s) - to_unpin ths \<subseteq> pins (app_node s')" by blast
  moreover have "doomed (ths ! j) \<longrightarrow> doomed (ths[i := pc] ! j)" for j
    using doom move(4) by (cases "j = i") simp_all
  moreover have "to_unpin (ths[i := pc]) \<subseteq> to_unpin ths" using to_unpin_update [of ths i pc] rows(3) by simp
  ultimately show ?thesis using rows by (simp add: move(1,3) at_rest_def)
next
  case (cancel i ths s)
  have "doomed (ths ! j) \<longrightarrow> doomed (ths[i := Finished None] ! j)" for j
    using cancel(4) by (cases "j = i") (simp_all add: doomed_def)
  moreover have "to_unpin (ths[i := Finished None]) \<subseteq> to_unpin ths" using to_unpin_update [of ths i "Finished None"] by simp
  ultimately show ?thesis using closed by (auto simp: cancel(1,3) at_rest_def)
qed

definition ending :: "('p \<Rightarrow> bool) \<Rightarrow> ('p, 'i, 'm, 'ip) lifecycle \<Rightarrow> bool" where
  "ending is_closed l \<longleftrightarrow> life_phase l \<noteq> Running \<and> is_closed (pool_of (life_state l))"

lemma life_step_ending:
  assumes laws: "close_laws (sqlx_exec E) is_closed close" and pins: "pin_laws (node_api E) pins"
    and version: "version_laws (node_api E) pins"
    and start: "ending is_closed l" and step: "life_step X S E cfg close l e l'"
  shows "ending is_closed l' \<and> at_rest pins (life_conf l) (life_conf l')"
proof -
  have closed: "is_closed (pool_of (life_state l))" and phase: "life_phase l \<noteq> Running"
    using start by (simp_all add: ending_def)
  note conc = conc_step_at_rest [OF laws pins closed]
  show ?thesis
    using step
  proof cases
    case (reply fresh r now a s')
    have "idle E (life_state l) s'" using serve_idle [OF reply(4), of E "life_state l" now] reply(5) by simp
    with idle_pool [OF laws closed this] version phase show ?thesis
      by (auto simp: reply(2) ending_def at_rest_def idle_def version_laws_def)
  next
    case (accept fresh r op c)
    from conc [OF accept(5)] phase show ?thesis by (simp add: accept(2) ending_def)
  next
    case (wake n c)
    from conc [OF wake(4)] phase show ?thesis by (simp add: wake(2) ending_def)
  next
    case (proceed i c)
    from conc [OF proceed(5)] phase show ?thesis by (simp add: proceed(2) ending_def)
  next
    case (disconnect i c)
    from conc [OF disconnect(6)] phase show ?thesis by (simp add: disconnect(2) ending_def)
  qed (use start phase in \<open>simp_all add: ending_def at_rest_refl\<close>)
qed

lemma life_run_ending:
  assumes "close_laws (sqlx_exec E) is_closed close" and "pin_laws (node_api E) pins"
    and "version_laws (node_api E) pins"
  shows "life_run X S E cfg close allowed l es l' \<Longrightarrow> ending is_closed l \<Longrightarrow>
    ending is_closed l' \<and> at_rest pins (life_conf l) (life_conf l')"
proof (induction rule: life_run.induct)
  case (life_next l e l' es l'')
  from life_step_ending [OF assms life_next.prems life_next.hyps(2)] life_next.IH
  show ?case using at_rest_trans by blast
qed (simp add: at_rest_refl)

section \<open>The end\<close>

text \<open>The steps that the requests in progress still have to take, and those they take in a run.\<close>

definition pending :: "('p, 'i, 'm, 'ip) lifecycle \<Rightarrow> nat" where
  "pending l = sum_list (map (\<lambda>(c, pc). if c then weight pc else 0) (zip (life_clients l) (life_threads l)))"

fun request_step :: "bool list \<Rightarrow> 'ip life_event \<Rightarrow> bool" where
  "request_step cs (Worked (Move i)) \<longleftrightarrow> i < length cs \<and> cs ! i"
| "request_step cs (Worked (Cancel i)) \<longleftrightarrow> i < length cs \<and> cs ! i"
| "request_step cs _ \<longleftrightarrow> False"

definition request_steps :: "bool list \<Rightarrow> 'ip life_event list \<Rightarrow> nat" where
  "request_steps cs es = length (filter (request_step cs) es)"

definition seconds :: "'ip life_event list \<Rightarrow> nat" where
  "seconds es = length (filter (\<lambda>e. e = SecondPassed) es)"

definition life_ok :: "('p, 'i, 'm, 'ip) lifecycle \<Rightarrow> bool" where
  "life_ok l \<longleftrightarrow> length (life_clients l) = length (life_threads l) \<and> (life_phase l = Stopped \<longrightarrow> pending l = 0)"

lemma pending_update:
  assumes "length (life_clients l) = length (life_threads l)" and "i < length (life_threads l)"
    and "weight pc < weight (life_threads l ! i)"
  shows "(if life_clients l ! i then 1 else 0) + pending (l\<lparr>life_conf := ((life_threads l)[i := pc], s)\<rparr>) \<le> pending l"
proof -
  let ?f = "\<lambda>(c, pc). if c then weight pc else 0"
  let ?z = "zip (life_clients l) (life_threads l)"
  have len: "i < length (map ?f ?z)" using assms(1,2) by simp
  have nth: "map ?f ?z ! i = (if life_clients l ! i then weight (life_threads l ! i) else 0)" using assms(1,2) by simp
  have "zip (life_clients l) ((life_threads l)[i := pc]) = ?z[i := (life_clients l ! i, pc)]"
    by (simp add: update_zip)
  then have new: "pending (l\<lparr>life_conf := ((life_threads l)[i := pc], s)\<rparr>) =
      sum_list ((map ?f ?z)[i := (if life_clients l ! i then weight pc else 0)])"
    by (simp add: pending_def map_update)
  have "map ?f ?z ! i \<le> sum_list (map ?f ?z)" by (rule elem_le_sum_list [OF len])
  then show ?thesis
    unfolding new sum_list_update [OF len] nth using assms(3) by (simp add: pending_def split: if_splits)
qed

lemma pending_append_task:
  "length (life_clients l) = length (life_threads l) \<Longrightarrow>
     pending (l\<lparr>life_conf := (life_threads l @ [pc], s), life_clients := life_clients l @ [False]\<rparr>) = pending l"
  by (simp add: pending_def)

lemma pending_zero:
  assumes "length (life_clients l) = length (life_threads l)"
  shows "pending l = 0 \<longleftrightarrow> (\<forall>i < length (life_threads l). life_clients l ! i \<longrightarrow> weight (life_threads l ! i) = 0)"
  using assms by (auto simp: pending_def set_zip)

lemma conc_step_length:
  "conc_step E cfg c m c' \<Longrightarrow>
     length (fst c') = length (fst c) + (case m of Arrive _ \<Rightarrow> 1 | Wake _ \<Rightarrow> 1 | _ \<Rightarrow> 0)"
  by (erule conc_step.cases) simp_all

lemma life_step_ok:
  assumes "life_ok l" and "life_step X S E cfg close l e l'"
  shows "life_ok l'"
  using assms(2)
proof cases
  case (accept fresh r op c)
  with conc_step_length [OF accept(5)] assms(1) show ?thesis by (auto simp: life_ok_def)
next
  case (wake n c)
  with conc_step_length [OF wake(4)] assms(1) show ?thesis by (simp add: life_ok_def)
next
  case (proceed i c)
  with conc_step_length [OF proceed(5)] assms(1) show ?thesis by (simp add: life_ok_def)
next
  case (disconnect i c)
  with conc_step_length [OF disconnect(6)] assms(1) show ?thesis by (simp add: life_ok_def)
next
  case (finish)
  have "pending l = 0" using assms(1) finish(4) by (simp add: life_ok_def pending_zero)
  then show ?thesis using assms(1) by (simp add: finish(2) life_ok_def pending_def)
qed (use assms(1) in \<open>auto simp: life_ok_def\<close>)

lemma life_run_ok:
  "life_run X S E cfg close allowed l es l' \<Longrightarrow> life_ok l \<Longrightarrow> life_ok l'"
  by (induction rule: life_run.induct) (auto dest: life_step_ok)

lemma started_ok: "life_ok (started_life s)"
  by (simp add: life_ok_def started_life_def)

text \<open>While the server drains, every step of a request brings it nearer to its end.\<close>

lemma draining_step:
  assumes ok: "life_ok l" and phase: "life_phase l = Draining \<or> life_phase l = Stopped"
    and step: "life_step X S E cfg close l e l'"
  shows "(life_phase l' = Draining \<or> life_phase l' = Stopped) \<and>
    (if request_step (life_clients l) e then 1 else 0) + pending l' \<le> pending l \<and>
    (\<exists>n. life_clients l' = life_clients l @ replicate n False)"
proof -
  have len: "length (life_clients l) = length (life_threads l)" using ok by (simp add: life_ok_def)
  show ?thesis
    using step
  proof cases
    case (wake n c)
    from wake(4) obtain pc s where "c = (life_threads l @ [pc], s)" by (cases "life_conf l") (auto elim: wakeE)
    with pending_append_task [OF len, of pc s] phase show ?thesis
      by (auto simp: wake(1,2) intro: exI [of _ "Suc 0"])
  next
    case (proceed i c)
    from proceed(5) obtain pc s where c: "c = ((life_threads l)[i := pc], s)" "i < length (life_threads l)"
        "advance E cfg (life_threads l ! i) (life_state l) = (pc, s)"
      by (cases "life_conf l") (auto elim: moveE)
    have "weight pc < weight (life_threads l ! i)" using advance_weight [OF proceed(4), of E cfg "life_state l"] c(3) by simp
    from pending_update [OF len c(2) this, of s] phase show ?thesis
      by (auto simp: proceed(1,2) c(1) len c(2) intro: exI [of _ 0])
  next
    case (disconnect i c)
    from disconnect(6) have c: "c = ((life_threads l)[i := Finished None], life_state l)" "i < length (life_threads l)"
      by (cases "life_conf l", auto elim: cancelE)+
    have "weight (Finished None) < weight (life_threads l ! i)" using disconnect(4) by simp
    from pending_update [OF len c(2) this, of "life_state l"] phase show ?thesis
      by (auto simp: disconnect(1,2) c(1) len c(2) intro: exI [of _ 0])
  qed (use phase in \<open>auto simp: pending_def intro: exI [of _ 0]\<close>)
qed

lemma request_step_prefix: "request_step (cs @ replicate n False) = request_step cs"
proof
  show "request_step (cs @ replicate n False) e \<longleftrightarrow> request_step cs e" for e :: "'ip life_event"
    by (cases "(cs, e)" rule: request_step.cases) (auto simp: nth_append)
qed

lemma draining_run:
  "life_run X S E cfg close allowed l es l' \<Longrightarrow> life_ok l \<Longrightarrow> life_phase l = Draining \<or> life_phase l = Stopped \<Longrightarrow>
     request_steps (life_clients l) es + pending l' \<le> pending l"
proof (induction rule: life_run.induct)
  case (life_next l e l' es l'')
  note step = draining_step [OF life_next.prems life_next.hyps(2)]
  then obtain n where clients: "life_clients l' = life_clients l @ replicate n False" by blast
  have "request_steps (life_clients l') es = request_steps (life_clients l) es"
    by (simp add: request_steps_def clients request_step_prefix)
  moreover have "request_steps (life_clients l') es + pending l'' \<le> pending l'"
    using life_next.IH [OF life_step_ok [OF life_next.prems(1) life_next.hyps(2)]] step by blast
  ultimately show ?case using step by (auto simp: request_steps_def split: if_splits)
qed (simp add: request_steps_def)

text \<open>What can happen next, phase by phase.\<close>

lemma shutdown_goes_on:
  assumes "life_ok l" and "life_phase l \<noteq> Running"
  shows "case life_phase l of
      Running \<Rightarrow> False
    | Closing n \<Rightarrow> \<exists>l'. life_step X S E cfg close l PoolClosed l' \<and> life_phase l' = Draining
    | Draining \<Rightarrow>
        if pending l = 0 then \<exists>l'. life_step X S E cfg close l AllServed l' \<and> life_phase l' = Stopped
        else \<exists>i l'. life_step X S E cfg close l (Worked (Move i)) l' \<and> request_step (life_clients l) (Worked (Move i))
    | Stopped \<Rightarrow> True"
proof (cases "life_phase l")
  case (Closing n)
  with closed [OF Closing, of X S E cfg close] show ?thesis by auto
next
  case Draining
  have len: "length (life_clients l) = length (life_threads l)" using assms(1) by (simp add: life_ok_def)
  show ?thesis
  proof (cases "pending l = 0")
    case True
    then have "life_step X S E cfg close l AllServed (l\<lparr>life_phase := Stopped\<rparr>)"
      by (intro finish) (simp_all add: Draining pending_zero [OF len])
    with True Draining show ?thesis by auto
  next
    case False
    then obtain i where i: "i < length (life_threads l)" "life_clients l ! i" "weight (life_threads l ! i) \<noteq> 0"
      using pending_zero [OF len] by auto
    obtain pc s' where adv: "advance E cfg (life_threads l ! i) (life_state l) = (pc, s')" by fastforce
    have "conc_step E cfg (life_conf l) (Move i) ((life_threads l)[i := pc], s')"
      using move [OF i(1) adv] by simp
    from proceed [OF _ i(3) this, of X S close] Draining i len False show ?thesis by auto
  qed
qed (use assms(2) in simp_all)

text \<open>The seconds that have passed since the signal.\<close>

fun seconds_in :: "phase \<Rightarrow> nat \<Rightarrow> bool" where
  "seconds_in Running n \<longleftrightarrow> n = 0"
| "seconds_in (Closing m) n \<longleftrightarrow> n = m \<and> m \<le> grace_period"
| "seconds_in _ n \<longleftrightarrow> n \<le> grace_period"

lemma life_step_seconds:
  assumes "life_step X S E cfg close l e l'" and "seconds_in (life_phase l) n"
  shows "seconds_in (life_phase l') (n + (if e = SecondPassed then 1 else 0))"
  using assms by cases auto

lemma life_run_seconds:
  "life_run X S E cfg close allowed l es l' \<Longrightarrow> seconds_in (life_phase l) n \<Longrightarrow>
     seconds_in (life_phase l') (n + seconds es)"
proof (induction arbitrary: n rule: life_run.induct)
  case (life_next l e l' es l'')
  from life_next.IH [OF life_step_seconds [OF life_next.hyps(2) life_next.prems]] show ?case
    by (simp add: seconds_def split: if_splits)
qed (simp add: seconds_def)

end
