(* ===== verification/Process.thy ===== *)
theory Process imports Startup begin

text \<open>
  The process of \<^verbatim>\<open>src/src/main.rs\<close> up to the point where it serves: \<open>main\<close> chooses the
  command, \<open>run\<close> prepares the shared state and the listening socket. Reading the command line is the
  \<^verbatim>\<open>conf\<close> crate's; its result is the argument \<open>args\<close>. Logging is left out.
\<close>

text \<open>How it goes on: it has printed something and ended with code 0, it has ended with another code, it has
  panicked, or it serves.\<close>

datatype ('p, 'i, 'm, 'net, 'sock, 'addr) process =
    Printed "'net main_action"
  | Ended nat
  | Aborted
  | Serving "'net run_config" "('p, 'i, 'm) app_state" ipfs_client_config "('sock, 'addr) listening"

definition run_process ::
  "('f, 'p) init_env \<Rightarrow> ('p, 'i, 'm, 'n, 'net, 'ip) env \<Rightarrow> (string \<Rightarrow> 'addr option)
     \<Rightarrow> ('addr \<Rightarrow> 16 word \<Rightarrow> bool) \<Rightarrow> ('sock \<times> bool \<times> bool) option \<Rightarrow> 'net run_config \<Rightarrow> 'i \<Rightarrow> 'f
     \<Rightarrow> ('p, 'i, 'm, 'net, 'sock, 'addr) process \<times> 'f" where
  "run_process I E parse_ip bind passed config node fs =
     (case run_setup I E config node fs of
        (Exited n, fs1) \<Rightarrow> (Ended n, fs1)
      | (Ready s client, fs1) \<Rightarrow>
          (case listen_socket parse_ip bind passed config of
             ExitFailure \<Rightarrow> (Ended 1, fs1)
           | ListenPanic \<Rightarrow> (Aborted, fs1)
           | socket \<Rightarrow> (Serving config s client socket, fs1)))"

definition main_process ::
  "('f, 'p) init_env \<Rightarrow> ('p, 'i, 'm, 'n, 'net, 'ip) env \<Rightarrow> (string \<Rightarrow> 'addr option)
     \<Rightarrow> ('addr \<Rightarrow> 16 word \<Rightarrow> bool) \<Rightarrow> ('sock \<times> bool \<times> bool) option
     \<Rightarrow> (string \<Rightarrow> 'net run_config \<Rightarrow> debug_value) \<Rightarrow> string \<Rightarrow> string
     \<Rightarrow> 'net cli \<Rightarrow> 'i \<Rightarrow> 'f
     \<Rightarrow> ('p, 'i, 'm, 'net, 'sock, 'addr) process \<times> 'f" where
  "main_process I E parse_ip bind passed show_field r1 r2 args node fs =
     (case main_command show_field r1 r2 (cli_command args) (cli_config args) of
        Serve c \<Rightarrow> run_process I E parse_ip bind passed c node fs
      | printed \<Rightarrow> (Printed printed, fs))"

text \<open>The configuration that is served, if any.\<close>

definition served_config :: "'net cli \<Rightarrow> 'net run_config option" where
  "served_config args =
     (case cli_command args of None \<Rightarrow> Some (cli_config args) | Some (Run c) \<Rightarrow> Some c | _ \<Rightarrow> None)"

lemma main_process_served:
  "served_config args = Some c \<Longrightarrow>
     main_process I E parse_ip bind passed show_field r1 r2 args node fs =
     run_process I E parse_ip bind passed c node fs"
  by (auto simp: served_config_def main_process_def main_command_def split: option.splits cli_operation.splits)

lemma main_process_printed:
  "served_config args = None \<Longrightarrow>
     main_process I E parse_ip bind passed show_field r1 r2 args node fs =
     (Printed (main_command show_field r1 r2 (cli_command args) (cli_config args)), fs)"
  by (auto simp: served_config_def main_process_def main_command_def split: option.splits cli_operation.splits)

lemma run_process_cases:
  assumes "run_process I E parse_ip bind passed c node fs = (p, fs')"
  obtains (no_database) e where "p = Ended 1" "initialize I (database_path c) (sqlite c) fs = (Inl e, fs')"
  | (no_address) "p = Ended 1" "passed = None" "parse_ip (bind_address c) = None"
  | (no_bind) ip where "p = Ended 1" "passed = None" "parse_ip (bind_address c) = Some ip" "\<not> bind ip (port c)"
  | (bad_socket) l a b where "p = Aborted" "passed = Some (l, a, b)" "\<not> (a \<and> b)"
  | (serving) s client l where "p = Serving c s client l" "run_setup I E c node fs = (Ready s client, fs')"
      "l = listen_socket parse_ip bind passed c" "l \<noteq> ExitFailure" "l \<noteq> ListenPanic"
proof -
  obtain x fs1 where x: "run_setup I E c node fs = (x, fs1)" by fastforce
  show thesis
  proof (cases x)
    case (Exited n)
    have "n = 1 \<and> (\<exists>e. initialize I (database_path c) (sqlite c) fs = (Inl e, fs1))"
      using x Exited by (auto simp: run_setup_def split: prod.splits sum.splits)
    with assms x Exited show thesis by (auto simp: run_process_def intro: no_database)
  next
    case (Ready s client)
    show thesis
    proof (cases "listen_socket parse_ip bind passed c")
      case ExitFailure
      with assms x Ready have "p = Ended 1" by (simp add: run_process_def)
      with ExitFailure no_address no_bind show thesis
        by (auto simp: listen_socket_def split: option.splits if_splits)
    next
      case ListenPanic
      with assms x Ready have "p = Aborted" by (simp add: run_process_def)
      with ListenPanic bad_socket show thesis by (auto simp: listen_socket_def split: option.splits if_splits)
    qed (use assms x Ready in \<open>auto simp: run_process_def intro: serving\<close>)
  qed
qed

end
