(* ===== verification/LifecycleProps.thy ===== *)
theory LifecycleProps imports Lifecycle Process SystemProps ServerObjectProps begin

text \<open>
  The process from its start to its end (\<^verbatim>\<open>src/src/main.rs\<close>): what it serves, what happens to
  requests and tasks when it is told to stop, and that it does stop.
\<close>

text \<open>C24: The process prints and ends for the two commands that only print, without touching the file system;
  otherwise it serves the configuration of the command. It then listens with the rows the migrations left, no
  upload, no task and room for the configured uploads, on the socket it was passed or on the configured address;
  or it ends with code 1, when the database cannot be initialised, the address does not parse or binding
  fails; or it panics, when a socket that was passed cannot be used.\<close>

theorem process_starts:
  assumes "dashmap_laws (slot_ops E) \<alpha>"
    and "main_process I E parse_ip bind passed show_field r1 r2 args node fs = (p, fs')"
  shows "case p of
      Printed x \<Rightarrow> served_config args = None \<and> fs' = fs \<and> (\<forall>c. x \<noteq> Serve c)
    | Ended n \<Rightarrow> n = 1 \<and> (\<exists>c. served_config args = Some c \<and>
        ((\<exists>e. initialize I (database_path c) (sqlite c) fs = (Inl e, fs')) \<or>
         passed = None \<and> (case parse_ip (bind_address c) of None \<Rightarrow> True | Some ip \<Rightarrow> \<not> bind ip (port c))))
    | Aborted \<Rightarrow> (\<exists>l a b. passed = Some (l, a, b) \<and> \<not> (a \<and> b))
    | Serving c s client l \<Rightarrow>
        served_config args = Some c \<and>
        initialize I (database_path c) (sqlite c) fs = (Inr (app_db s), fs') \<and>
        (\<exists>fs1. ie_migrate I (db_pool (app_db s)) fs1 = (Inr (rows_of s), fs')) \<and>
        \<alpha> (app_slots s) = Map.empty \<and> app_tasks s = [] \<and> app_node s = node \<and>
        concurrent_multipart_upload c \<le> dm_capacity (slot_ops E) (app_slots s) \<and>
        (case l of
           Activated sock \<Rightarrow> passed = Some (sock, True, True)
         | Bound ip po \<Rightarrow> passed = None \<and> parse_ip (bind_address c) = Some ip \<and> po = port c
         | _ \<Rightarrow> False)"
proof (cases "served_config args")
  case None
  have "p = Printed (main_command show_field r1 r2 (cli_command args) (cli_config args))" "fs' = fs"
    using assms(2) by (simp_all add: main_process_printed [OF None])
  moreover have "main_command show_field r1 r2 (cli_command args) (cli_config args) \<noteq> Serve c" for c
    using None by (auto simp: main_command_def served_config_def split: option.splits cli_operation.splits)
  ultimately show ?thesis using None by simp
next
  case (Some c)
  with assms(2) have run: "run_process I E parse_ip bind passed c node fs = (p, fs')"
    by (simp add: main_process_served [OF Some])
  from run show ?thesis
  proof (cases rule: run_process_cases)
    case (serving s client l)
    note ready = run_setup_ready [OF serving(2)]
    obtain r fs1 where r: "initialize I (database_path c) (sqlite c) fs = (r, fs1)" by fastforce
    with serving(2) have init: "initialize I (database_path c) (sqlite c) fs = (Inr (app_db s), fs')"
      by (auto simp: run_setup_def split: sum.splits)
    have "case l of Activated sock \<Rightarrow> passed = Some (sock, True, True)
         | Bound ip po \<Rightarrow> passed = None \<and> parse_ip (bind_address c) = Some ip \<and> po = port c
         | _ \<Rightarrow> False"
      using serving(3-5) by (auto simp: listen_socket_def split: option.splits if_splits)
    then show ?thesis
      using init initialize_rows [OF init] ready dashmap_lawsD(1,2) [OF assms(1)] Some
      by (simp add: serving(1) with_capacity_def)
  qed (use Some in auto)
qed

theorem process_starts_witness:
  "\<exists>client. main_process demo_init demo_env (\<lambda>a. if a = ''::'' then Some a else None) (\<lambda>_ p. p = 3000)
       (None :: (nat \<times> bool \<times> bool) option) (\<lambda>n _. DebugStr n) ''r1'' ''r2'' \<lparr>cli_command = None, cli_config = demo_config\<rparr> demo_empty_node () =
     (Serving demo_config demo_start client (Bound ''::'' 3000), ()) \<and>
     demo_map (app_slots demo_start) = Map.empty"
proof -
  let ?run = "main_process demo_init demo_env (\<lambda>a. if a = ''::'' then Some a else None) (\<lambda>_ p. p = 3000)
       (None :: (nat \<times> bool \<times> bool) option) (\<lambda>n _. DebugStr n) ''r1'' ''r2'' \<lparr>cli_command = None, cli_config = demo_config\<rparr> demo_empty_node ()"
  let ?client = "new_with_config ''http://localhost:5001/api/v0'' None"
  have "bind_address demo_config = ''::''" "port demo_config = 3000" by (simp_all add: demo_config_def)
  then have run: "?run = (Serving demo_config demo_start ?client (Bound ''::'' 3000), ())"
    by (simp add: main_process_def main_command_def run_process_def demo_started listen_socket_def)
  have laws: "dashmap_laws (slot_ops demo_env) demo_map" by (simp add: demo_dashmap_laws)
  have "demo_map (app_slots demo_start) = Map.empty"
    using process_starts [OF laws run] by simp
  with run show ?thesis by blast
qed

section \<open>Shutdown\<close>




section \<open>Instances\<close>








end
