(* ===== verification/ConcurrentObjects.thy ===== *)
theory ConcurrentObjects imports ObjectStore begin

text \<open>
  The objects of \<^verbatim>\<open>ObjectStore.thy\<close> under the interleavings of \<^verbatim>\<open>Concurrency.thy\<close>: as
  long as no content is counted or unpinned while a \<open>PUT\<close> in progress has added it, the content of every row and
  of every \<open>PUT\<close> in progress stays available, and an object changes only by a request that concerns it.
\<close>

text \<open>The keys whose row the next step writes.\<close>

fun writes :: "'ip pc \<Rightarrow> (string \<times> string) set" where
  "writes (StoreRow _ b k _ _ _ _) = {(b, k)}"
| "writes (DeleteRow _ md) = {(md_bucket md, md_key md)}"
| "writes _ = {}"

text \<open>Whether a thread may still write the row of \<open>(b, k)\<close>.\<close>

fun batch_concerns :: "string \<Rightarrow> string \<Rightarrow> delete_owner \<Rightarrow> bool" where
  "batch_concerns b k PlainDelete \<longleftrightarrow> False"
| "batch_concerns b k (Batch b' _ ks _ _) \<longleftrightarrow> b' = b \<and> k \<in> set ks"

fun unpin_concerns :: "string \<Rightarrow> string \<Rightarrow> unpin_owner \<Rightarrow> bool" where
  "unpin_concerns b k OfPut \<longleftrightarrow> False"
| "unpin_concerns b k (OfDelete d) \<longleftrightarrow> batch_concerns b k d"

fun concerns :: "string \<Rightarrow> string \<Rightarrow> 'ip pc \<Rightarrow> bool" where
  "concerns b k (SelectOld _ b' k' _ _) \<longleftrightarrow> (b', k') = (b, k)"
| "concerns b k (AddBytes _ b' k' _ _ _ _) \<longleftrightarrow> (b', k') = (b, k)"
| "concerns b k (LinkContent _ b' k' _ _ _ _ _) \<longleftrightarrow> (b', k') = (b, k)"
| "concerns b k (StoreRow _ b' k' _ _ _ _) \<longleftrightarrow> (b', k') = (b, k)"
| "concerns b k (SelectDoomed d b' k') \<longleftrightarrow> (b', k') = (b, k) \<or> batch_concerns b k d"
| "concerns b k (UnlinkDoomed d md _) \<longleftrightarrow> (md_bucket md, md_key md) = (b, k) \<or> batch_concerns b k d"
| "concerns b k (DeleteRow d md) \<longleftrightarrow> (md_bucket md, md_key md) = (b, k) \<or> batch_concerns b k d"
| "concerns b k (CountRefs u _) \<longleftrightarrow> unpin_concerns b k u"
| "concerns b k (UnpinContent u _) \<longleftrightarrow> unpin_concerns b k u"
| "concerns b k (TakeSlot b' k' _) \<longleftrightarrow> (b', k') = (b, k)"
| "concerns b k _ \<longleftrightarrow> False"

lemma concerns_writes: "(b, k) \<in> writes pc \<Longrightarrow> concerns b k pc"
  by (cases pc) auto

lemma concerns_done [simp]:
  "concerns b k (next_delete E b' ks ds es) \<longleftrightarrow> b' = b \<and> k \<in> set ks"
  "concerns b k (delete_done E d h) \<longleftrightarrow> batch_concerns b k d"
  "\<not> concerns b k (search_done E cfg md found)"
  "concerns b k (fst (unpin_done E cfg u md r s)) \<longleftrightarrow> unpin_concerns b k u"
proof -
  show next_del: "concerns b k (next_delete E b' ks ds es) \<longleftrightarrow> b' = b \<and> k \<in> set ks" for b' ks ds es
    by (auto simp: next_delete_def split: list.split)
  show del: "concerns b k (delete_done E d h) \<longleftrightarrow> batch_concerns b k d" for d h
    by (simp add: delete_done_def next_del split: delete_owner.split sum.split)
  show "\<not> concerns b k (search_done E cfg md found)"
    by (simp add: search_done_def split: option.split sum.split)
  show "concerns b k (fst (unpin_done E cfg u md r s)) \<longleftrightarrow> unpin_concerns b k u"
    by (cases u) (simp_all add: unpin_done_def del split: sum.split)
qed

text \<open>A request concerns the objects it touches, a task none, and no step makes a thread concern more.\<close>

lemma concerns_start: "concerns b k (start E op) \<Longrightarrow> touches E b k (Request op)"
  by (cases "(E, b, k, Request op)" rule: touches.cases) (auto simp: start_def split: option.splits if_splits)

lemma concerns_start_task: "\<not> concerns b k (start_task E t)"
  by (simp add: start_task_def split: background.split option.split)

lemma advance_concerns:
  assumes "advance E cfg pc s = (pc', s')" and "concerns b k pc'"
  shows "concerns b k pc"
proof (cases pc)
  case (SelectDoomed d b1 k1)
  obtain q s1 where q: "with_db (get_object_metadata (sqlx_exec E) b1 k1) s = (q, s1)" by fastforce
  have "md_bucket md = b1 \<and> md_key md = k1" if "q = Inr (Some md)" for md
  proof -
    obtain db1 where "get_object_metadata (sqlx_exec E) b1 k1 (app_db s) = (q, db1)"
      using q by (rule with_dbE)
    with that have "get_object_metadata (sqlx_exec E) b1 k1 (app_db s) = (Inr (Some md), db1)" by simp
    from get_object_metadata_rows [OF this] have "sql_select b1 k1 (rows_of s) = Some md" by simp
    then show ?thesis by (rule sql_select_ids)
  qed
  with assms q show ?thesis by (auto simp: SelectDoomed split: sum.splits option.splits)
next
  case (CountRefs u md)
  obtain q s1 where q: "with_db (cid_count (sqlx_exec E) (md_cid md)) s = (q, s1)" by fastforce
  show ?thesis
  proof (cases "q = Inr 0")
    case False
    with assms(1) q obtain r where "unpin_done E cfg u md r s1 = (pc', s')"
      by (auto simp: CountRefs split: sum.splits if_splits)
    then show ?thesis using assms(2) concerns_done(4) [of b k E cfg u md r s1] by (simp add: CountRefs)
  qed (use assms q in \<open>auto simp: CountRefs\<close>)
next
  case (UnpinContent u md)
  then obtain r s1 where "unpin_done E cfg u md r s1 = (pc', s')"
    using assms(1) by (auto split: prod.splits sum.splits)
  then show ?thesis using assms(2) concerns_done(4) [of b k E cfg u md r s1] by (simp add: UnpinContent)
qed (use assms in \<open>auto split: prod.splits sum.splits option.splits list.splits if_splits\<close>)

section \<open>The table\<close>

lemma advance_quiet_rows:
  assumes "advance E cfg pc s = (pc', s')" and "writes pc = {}"
  shows "rows_of s' = rows_of s"
proof (cases "effectful pc")
  case False
  from advance_quiet [OF False assms(1)] show ?thesis by simp
next
  case True
  then show ?thesis
  proof (cases pc)
    case (UnpinContent u md)
    obtain q s1 where "with_node (unpin (node_api E) md) s = (q, s1)" "rows_of s' = rows_of s1"
      using assms(1) unfolding UnpinContent by (rule unpin_step)
    then show ?thesis using node_call(1) by fastforce
  qed (use assms in \<open>auto split: prod.splits sum.splits dest!: node_call(1)\<close>)
qed

lemma advance_select:
  assumes "advance E cfg pc s = (pc', s')" and "(b, k) \<notin> writes pc"
  shows "sql_select b k (rows_of s') = sql_select b k (rows_of s)"
proof (cases "writes pc = {}")
  case True
  from advance_quiet_rows [OF assms(1) True] show ?thesis by simp
next
  case False
  then show ?thesis
  proof (cases pc)
    case (StoreRow p b' k' old ct n added)
    obtain q s1 where q: "with_db (store_object_metadata (sqlx_exec E) b' k' (ar_hash added) (usize_as_i64 n) ct) s
        = (q, s1)" by fastforce
    then obtain db1 where db1: "store_object_metadata (sqlx_exec E) b' k' (ar_hash added) (usize_as_i64 n) ct (app_db s)
        = (q, db1)" "s1 = s\<lparr>app_db := db1\<rparr>" by (rule with_dbE)
    have "rows_of s' = db_rows db1" using assms(1) q db1(2) by (auto simp: StoreRow split: sum.splits)
    then show ?thesis
      using store_object_metadata_rows [OF db1(1)] assms(2) by (cases "is_ok q") (auto simp: StoreRow sql_select_upsert)
  next
    case (DeleteRow d md)
    obtain q s1 where q: "with_db (db_delete_object (sqlx_exec E) md) s = (q, s1)" by fastforce
    then obtain db1 where db1: "db_delete_object (sqlx_exec E) md (app_db s) = (q, db1)" "s1 = s\<lparr>app_db := db1\<rparr>"
      by (rule with_dbE)
    have "rows_of s' = db_rows db1" using assms(1) q db1(2) by (auto simp: DeleteRow split: sum.splits)
    then show ?thesis
      using db_delete_object_rows [OF db1(1)] assms(2) by (cases "is_ok q") (auto simp: DeleteRow sql_select_delete)
  qed simp_all
qed

section \<open>The content\<close>

lemma with_db_node: "with_db f s = (r, s1) \<Longrightarrow> app_node s1 = app_node s"
  by (auto elim: with_dbE)

lemma add_carried:
  assumes laws: "store_laws E pins content" and held: "durable.held pins content i cs"
    and run: "api_add (node_api E) d i = (r, i')"
  shows "durable.carried pins content i cs i'" and "r = Inr a \<Longrightarrow> durable.held pins content i' {ar_hash a}"
proof -
  have "pins i \<subseteq> pins i'" using laws run unfolding pin_laws_def by (metis snd_conv)
  moreover have "content i' c = content i c" if "c \<in> cs" for c
    using content_lawsD_kept(1) [OF conjunct2 [OF laws], of c i d] held run that by (auto simp: durable.held_def)
  ultimately show "durable.carried pins content i cs i'"
    using held by (auto simp: durable.carried_def durable.held_def)
  assume r: "r = Inr a"
  then have "ar_hash a \<in> pins i'" using laws run unfolding pin_laws_def by (metis fst_conv snd_conv)
  then show "durable.held pins content i' {ar_hash a}"
    using content_lawsD(1) [OF conjunct2 [OF laws], of d i a] run r by (simp add: durable.held_def)
qed

lemma link_carried:
  assumes laws: "store_laws E pins content" and held: "durable.held pins content i cs"
    and run: "api_files_cp (node_api E) q i = (r, i')"
  shows "durable.carried pins content i cs i'"
proof -
  have "pins i' = pins i" using laws run unfolding pin_laws_def by (metis snd_conv)
  moreover have "content i' c = content i c" if "c \<in> cs" for c
    using content_lawsD_kept(2) [OF conjunct2 [OF laws], of c i q] held run that by (auto simp: durable.held_def)
  ultimately show ?thesis using held by (simp add: durable.carried_def durable.held_def)
qed

text \<open>Every step carries over what is held and what it does not unpin; what it newly claims is held.\<close>

lemma advance_carried:
  assumes laws: "store_laws E pins content" and held: "durable.held pins content (app_node s) cs"
    and late: "unpins pc \<inter> cs = {}" and run: "advance E cfg pc s = (pc', s')"
  shows "durable.carried pins content (app_node s) cs (app_node s') \<and>
    durable.held pins content (app_node s') (claimed pc' - claimed pc)"
proof (cases "effectful pc")
  case False
  from advance_quiet [OF False run] held show ?thesis by (simp add: durable.carried_refl durable.held_def)
next
  case True
  have empty: "durable.held pins content i {}" for i by (simp add: durable.held_def)
  show ?thesis using True
  proof (cases pc)
    case (AddBytes p b k old ct path body)
    obtain q s1 where q: "with_node (api_add (node_api E) body) s = (q, s1)" by fastforce
    then have "s' = s1 \<and> claimed pc' = (case q of Inl _ \<Rightarrow> {} | Inr a \<Rightarrow> {ar_hash a})"
      using run by (auto simp: AddBytes split: sum.splits)
    with add_carried [OF laws held node_call(2) [OF q]] empty show ?thesis by (auto simp: AddBytes split: sum.splits)
  next
    case (LinkContent p b k old ct path n added)
    obtain q s1 where q: "with_node (api_files_cp (node_api E) \<lparr>cp_path = ''/ipfs/'' @ ar_hash added,
        cp_dest = path, cp_parents = Some True, cp_force = Some True\<rparr>) s = (q, s1)" by fastforce
    then have "s' = s1 \<and> claimed pc' - claimed pc = {}" using run by (auto simp: LinkContent split: sum.splits)
    with link_carried [OF laws held node_call(2) [OF q]] show ?thesis by (auto simp: durable.held_def)
  next
    case (StoreRow p b k old ct n added)
    obtain q s1 where q: "with_db (store_object_metadata (sqlx_exec E) b k (ar_hash added) (usize_as_i64 n) ct) s
        = (q, s1)" by fastforce
    then have "app_node s' = app_node s1 \<and> claimed pc' = {}" using run by (auto simp: StoreRow split: sum.splits)
    with with_db_node [OF q] held empty show ?thesis by (simp add: durable.carried_refl)
  next
    case (DeleteRow d md)
    obtain q s1 where q: "with_db (db_delete_object (sqlx_exec E) md) s = (q, s1)" by fastforce
    then have "app_node s' = app_node s1 \<and> claimed pc' = {}" using run by (auto simp: DeleteRow split: sum.splits)
    with with_db_node [OF q] held empty show ?thesis by (simp add: durable.carried_refl)
  next
    case (UnlinkDoomed d md path)
    obtain q s1 where q: "with_node (unlink (node_api E) path) s = (q, s1)" by fastforce
    then have "s' = s1 \<and> claimed pc' = {}" using run by (auto simp: UnlinkDoomed split: sum.splits)
    with durable.carried_drop_link [OF laws held node_call(2) [OF q]] empty show ?thesis by simp
  next
    case (UnlinkDir path)
    obtain q s1 where q: "with_node (unlink (node_api E) path) s = (q, s1)" by fastforce
    then have "s' = s1 \<and> claimed pc' = {}" using run by (auto simp: UnlinkDir)
    with durable.carried_drop_link [OF laws held node_call(2) [OF q]] empty show ?thesis by simp
  next
    case (UnpinContent u md)
    obtain q s1 where q: "with_node (unpin (node_api E) md) s = (q, s1)"
      and same: "app_node s' = app_node s1" "claimed pc' = {}"
      using run unfolding UnpinContent by (rule unpin_step)
    have "md_cid md \<notin> cs" using late by (simp add: UnpinContent)
    with durable.carried_drop_pin [OF laws held _ node_call(2) [OF q]] same empty show ?thesis by simp
  qed simp_all
qed

section \<open>Runs\<close>

text \<open>Every content that a row references or a \<open>PUT\<close> in progress has added is pinned and available, and what is
  about to be unpinned is not referenced.\<close>

definition conc_store_ok ::
  "('i \<Rightarrow> string set) \<Rightarrow> ('i \<Rightarrow> string \<Rightarrow> bytes option) \<Rightarrow> ('p, 'i, 'm, 'ip) conf \<Rightarrow> bool" where
  "conc_store_ok pins content c \<longleftrightarrow>
     primary_key (rows_of (snd c)) \<and>
     durable.held pins content (app_node (snd c)) (referenced_cids (rows_of (snd c)) \<union> in_flight (fst c)) \<and>
     (\<forall>pc \<in> set (fst c). unpins pc \<inter> referenced_cids (rows_of (snd c)) = {})"

lemma conc_store_ok_idle: "conc_store_ok pins content ([], s) \<longleftrightarrow> store_ok pins content s"
  by (simp add: conc_store_ok_def store_ok_def in_flight_def)

lemma conc_store_ok_state: "conc_store_ok pins content (ths, s) \<Longrightarrow> store_ok pins content s"
  by (auto simp: conc_store_ok_def store_ok_def durable.held_def)

lemma held_mono: "durable.held pins content i cs \<Longrightarrow> ds \<subseteq> cs \<Longrightarrow> durable.held pins content i ds"
  by (auto simp: durable.held_def)

lemma held_Un: "durable.held pins content i (cs \<union> ds) \<longleftrightarrow> durable.held pins content i cs \<and> durable.held pins content i ds"
  by (auto simp: durable.held_def)

lemma conc_store_ok_move:
  assumes laws: "store_laws E pins content" and ok: "conc_store_ok pins content (ths, s)"
    and apart: "apart ths" and i: "i < length ths" and run: "advance E cfg (ths ! i) s = (pc, s')"
  shows "conc_store_ok pins content (ths[i := pc], s')"
    and "(b, k) \<notin> writes (ths ! i) \<Longrightarrow> objects content s' (b, k) = objects content s (b, k)"
proof -
  let ?cs = "referenced_cids (rows_of s) \<union> in_flight ths"
  have pk: "primary_key (rows_of s)" and held: "durable.held pins content (app_node s) ?cs"
    and counted: "\<forall>pc \<in> set ths. unpins pc \<inter> referenced_cids (rows_of s) = {}"
    using ok by (simp_all add: conc_store_ok_def)
  have mem: "ths ! i \<in> set ths" using i by simp
  have "unpins (ths ! i) \<inter> ?cs = {}"
    using bspec [OF counted mem] apart_in_flight [OF apart mem] unpins_sweeps [of "ths ! i"] by blast
  note step = advance_carried [OF laws held this run]
  have own: "claimed (ths ! i) \<subseteq> in_flight ths" by (rule claimed_in_flight [OF i])
  note rows = advance_rows [OF pk run]
  have "durable.held pins content (app_node s') (?cs \<union> (claimed pc - claimed (ths ! i)))"
    using step by (simp add: held_Un durable.carried_def)
  moreover have "referenced_cids (rows_of s') \<union> in_flight (ths[i := pc]) \<subseteq> ?cs \<union> (claimed pc - claimed (ths ! i))"
    using rows in_flight_update [OF i, of pc] own by blast
  moreover have "unpins pc' \<inter> referenced_cids (rows_of s') = {}" if "pc' \<in> set (ths[i := pc])" for pc'
  proof (cases "pc' = pc")
    case True
    with advance_unpins [OF pk run] show ?thesis by simp
  next
    case False
    then have "pc' \<in> set ths" using that set_update_subset_insert [of ths i pc] by blast
    moreover from this apart mem have "sweeps pc' \<inter> claimed (ths ! i) = {}" by (simp add: apart_def)
    ultimately show ?thesis using counted rows unpins_sweeps [of pc'] by blast
  qed
  ultimately show "conc_store_ok pins content (ths[i := pc], s')"
    using rows by (auto simp: conc_store_ok_def intro: held_mono)
  assume "(b, k) \<notin> writes (ths ! i)"
  then have "sql_select b k (rows_of s') = sql_select b k (rows_of s)" by (rule advance_select [OF run])
  then show "objects content s' (b, k) = objects content s (b, k)"
    using step select_referenced [of b k "rows_of s"]
    by (cases "sql_select b k (rows_of s)") (auto simp: objects_def durable.carried_def)
qed

text \<open>No request that arrives is to store or delete \<open>(b, k)\<close>, and none in progress is.\<close>

definition leaves_alone :: "('p, 'i, 'm, 'n, 'net, 'ip) env \<Rightarrow> string \<Rightarrow> string \<Rightarrow> 'ip move \<Rightarrow> bool" where
  "leaves_alone E b k l \<longleftrightarrow> (case l of Arrive op \<Rightarrow> \<not> touches E b k (Request op) | _ \<Rightarrow> True)"

lemma leaves_alone_iff: "leaves_alone E b k l \<longleftrightarrow> (\<forall>op. l = Arrive op \<longrightarrow> \<not> touches E b k (Request op))"
  by (simp add: leaves_alone_def split: move.split)

definition undisturbed :: "string \<Rightarrow> string \<Rightarrow> 'ip pc list \<Rightarrow> bool" where
  "undisturbed b k ths \<longleftrightarrow> (\<forall>pc \<in> set ths. \<not> concerns b k pc)"

lemma conc_step_objects:
  assumes laws: "store_laws E pins content" and ok: "conc_store_ok pins content c"
    and apart: "apart (fst c)" and step: "conc_step E cfg c l c'"
  shows "conc_store_ok pins content c'"
    and "undisturbed b k (fst c) \<Longrightarrow> leaves_alone E b k l \<Longrightarrow>
      undisturbed b k (fst c') \<and> objects content (snd c') (b, k) = objects content (snd c) (b, k)"
proof -
  have "conc_store_ok pins content c' \<and> (undisturbed b k (fst c) \<and> leaves_alone E b k l \<longrightarrow>
      undisturbed b k (fst c') \<and> objects content (snd c') (b, k) = objects content (snd c) (b, k))"
    using step
  proof cases
    case (arrive ths s op)
    have "undisturbed b k (ths @ [start E op])" if "undisturbed b k ths" "leaves_alone E b k (Arrive op)"
      using that concerns_start [of b k E op] by (auto simp: undisturbed_def leaves_alone_def)
    with ok show ?thesis by (simp add: arrive conc_store_ok_def ball_Un)
  next
    case (wake n s ths)
    have "undisturbed b k (ths @ [start_task E (app_tasks s ! n)])" if "undisturbed b k ths"
      using that concerns_start_task [of b k E "app_tasks s ! n"] by (auto simp: undisturbed_def)
    with ok show ?thesis by (simp add: wake conc_store_ok_def objects_def ball_Un)
  next
    case (move i ths s pc s')
    have now: "conc_store_ok pins content (ths, s)" "apart ths" using ok apart move(1) by simp_all
    have mem: "ths ! i \<in> set ths" using move(4) by simp
    have "undisturbed b k (ths[i := pc]) \<and> objects content s' (b, k) = objects content s (b, k)"
      if alone: "undisturbed b k ths"
    proof
      have "\<not> concerns b k (ths ! i)" using alone mem by (simp add: undisturbed_def)
      then show "undisturbed b k (ths[i := pc])"
        using alone advance_concerns [OF move(5), of b k] set_update_subset_insert [of ths i pc]
        by (auto simp: undisturbed_def)
      from \<open>\<not> concerns b k (ths ! i)\<close> concerns_writes have "(b, k) \<notin> writes (ths ! i)" by blast
      then show "objects content s' (b, k) = objects content s (b, k)"
        by (rule conc_store_ok_move(2) [OF laws now move(4,5)])
    qed
    with conc_store_ok_move(1) [OF laws now move(4,5)] show ?thesis by (simp add: move(1,3))
  next
    case (cancel i ths s)
    have sub: "set (ths[i := Finished None]) \<subseteq> insert (Finished None) (set ths)" by (rule set_update_subset_insert)
    have "in_flight (ths[i := Finished None]) \<subseteq> in_flight ths" using in_flight_update [OF cancel(4)] by fastforce
    moreover have "unpins pc \<inter> referenced_cids (rows_of s) = {}" if "pc \<in> set (ths[i := Finished None])" for pc
      using ok subsetD [OF sub that] by (auto simp: cancel(1) conc_store_ok_def)
    ultimately have "conc_store_ok pins content (ths[i := Finished None], s)"
      using ok by (auto simp: cancel(1) conc_store_ok_def intro: held_mono)
    moreover have "undisturbed b k (ths[i := Finished None])" if "undisturbed b k ths"
      using that sub by (auto simp: undisturbed_def)
    ultimately show ?thesis by (simp add: cancel)
  qed
  then show "conc_store_ok pins content c'"
    and "undisturbed b k (fst c) \<Longrightarrow> leaves_alone E b k l \<Longrightarrow>
      undisturbed b k (fst c') \<and> objects content (snd c') (b, k) = objects content (snd c) (b, k)"
    by simp_all
qed

lemma conc_run_objects:
  assumes "store_laws E pins content"
    and "conc_run E cfg (\<lambda>c l. apart (fst c) \<and> leaves_alone E b k l) c ls c'"
    and "conc_store_ok pins content c" and "undisturbed b k (fst c)"
  shows "conc_store_ok pins content c' \<and> objects content (snd c') (b, k) = objects content (snd c) (b, k)"
  using assms(2-4)
proof (induction rule: conc_run.induct)
  case (onward c l c' ls c'')
  then have now: "apart (fst c)" "leaves_alone E b k l" by simp_all
  from conc_step_objects [OF assms(1) onward.prems(1) now(1) onward.hyps(2)] onward now(2) show ?case by simp
qed simp

end
