(* ===== verification/RestartProps.thy ===== *)
theory RestartProps imports Lifecycle ConcurrentObjects SystemProps ServerObjectProps begin

text \<open>
  More than one life of the process (\<^verbatim>\<open>src/src/main.rs\<close>): the server runs, ends at any moment,
  gracefully or not, even in the middle of requests, and is started again on the same database file and the same
  node. The requests in progress, the uploads and the waiting tasks are lost; the objects are not.
\<close>

section \<open>Restarting\<close>

text \<open>A database file keeps the rows that were committed to it (\<open>kept\<close>, by the URL it is opened under): creating
  directories and connecting do not touch them, a pool works on the database of the URL it was opened with
  (\<open>url_of\<close>), and the migrations find their tables in place there.\<close>

definition durable_file ::
  "('f, 'p) init_env \<Rightarrow> (string \<Rightarrow> 'f \<Rightarrow> row list) \<Rightarrow> ('p \<Rightarrow> string) \<Rightarrow> bool" where
  "durable_file I kept url_of \<longleftrightarrow>
     (\<forall>d fs q. kept q (snd (ie_create_dir_all I d fs)) = kept q fs) \<and>
     (\<forall>options fs q. kept q (snd (ie_connect I options fs)) = kept q fs) \<and>
     (\<forall>options fs p fs'. ie_connect I options fs = (Inr p, fs') \<longrightarrow> url_of p = co_url options) \<and>
     (\<forall>p fs rows fs'. ie_migrate I p fs = (Inr rows, fs') \<longrightarrow> rows = kept (url_of p) fs)"

lemma initialize_kept:
  assumes "durable_file I kept url_of" and "initialize I path config fs = (Inr db, fs')"
  shows "db_rows db = kept (''sqlite:'' @ ie_display I path) fs"
proof -
  let ?url = "''sqlite:'' @ ie_display I path"
  obtain fs1 where fs1: "prepare_directory I path fs = (Inr (), fs1)"
    using assms(2) by (auto simp: initialize_def split: prod.splits sum.splits)
  then have "kept ?url fs1 = kept ?url fs"
    using assms(1) unfolding prepare_directory_def durable_file_def
    by (auto split: if_splits option.splits prod.splits sum.splits) (metis snd_conv)
  moreover obtain p fs2 where fs2: "db_new_with_config I ?url config fs1 = (Inr p, fs2)"
    "\<exists>fs3. ie_migrate I p fs2 = (Inr (db_rows db), fs3)"
    using assms(2) fs1 by (auto simp: initialize_def split: prod.splits sum.splits)
  moreover from fs2(1) have connected: "ie_connect I (sqlite_options I ?url config) fs1 = (Inr p, fs2)"
    by (simp add: db_new_with_config_def split: sum.splits)
  moreover from connected assms(1) have "kept ?url fs2 = kept ?url fs1"
    unfolding durable_file_def by (metis snd_conv)
  moreover from connected assms(1) have "url_of p = ?url"
    unfolding durable_file_def by (metis connect_options.select_convs(1) sqlite_options_def)
  moreover have "db_rows db = kept (url_of p) fs2" using assms(1) fs2(2) unfolding durable_file_def by blast
  ultimately show ?thesis by simp
qed

text \<open>A history: sessions of the process, each with its configuration and its events, one after the other. A
  session begins with what the node and the file of the session before hold when that one is over, however it
  ended.\<close>

inductive history ::
  "'ip http_env \<Rightarrow> sig_env \<Rightarrow> ('f, 'p) init_env \<Rightarrow> ('p, 'i, 'm, 'n, 'net, 'ip) env \<Rightarrow> (string \<Rightarrow> 'f \<Rightarrow> row list)
     \<Rightarrow> ('p \<Rightarrow> 'p) \<Rightarrow> (('p, 'i, 'm, 'ip) lifecycle \<Rightarrow> 'ip life_event \<Rightarrow> bool)
     \<Rightarrow> ('p, 'i, 'm) app_state \<Rightarrow> ('net run_config \<times> 'ip life_event list) list \<Rightarrow> ('p, 'i, 'm) app_state \<Rightarrow> bool"
  for X S I E kept close allowed where
  session: "life_run X S E cfg close allowed (started_life s) es l \<Longrightarrow>
    history X S I E kept close allowed s [(cfg, es)] (life_state l)"
| restart: "history X S I E kept close allowed s hs s1 \<Longrightarrow>
    kept (''sqlite:'' @ ie_display I (database_path (fst (last hs)))) fs = rows_of s1 \<Longrightarrow>
    run_setup I E cfg (app_node s1) fs = (Ready s2 client, fs') \<Longrightarrow>
    life_run X S E cfg close allowed (started_life s2) es l \<Longrightarrow>
    history X S I E kept close allowed s (hs @ [(cfg, es)]) (life_state l)"

definition life_touches ::
  "('p, 'i, 'm, 'n, 'net, 'ip) env \<Rightarrow> string \<Rightarrow> string \<Rightarrow> 'ip life_event \<Rightarrow> bool" where
  "life_touches E b k e = (case e of Accepted r op \<Rightarrow> touches E b k (Request op) | _ \<Rightarrow> False)"

lemma conc_store_ok_idle_step:
  assumes laws: "server_laws E pins content" and ok: "conc_store_ok pins content (ths, s)" and idle: "idle E s s'"
  shows "conc_store_ok pins content (ths, s')" and "objects content s' = objects content s"
proof -
  show "objects content s' = objects content s"
    using idle_objects [OF laws conc_store_ok_state [OF ok] idle] by simp
  have held: "durable.held pins content (app_node s) (referenced_cids (rows_of s) \<union> in_flight ths)"
    using ok by (simp add: conc_store_ok_def)
  have rows: "rows_of s' = rows_of s" and "app_node s' \<in> {app_node s, snd (api_version (node_api E) (app_node s))}"
    using idle by (simp_all add: idle_def)
  then have "durable.held pins content (app_node s') (referenced_cids (rows_of s) \<union> in_flight ths)"
    using laws held by (auto simp: durable.held_def version_content_def version_laws_def)
  with ok rows show "conc_store_ok pins content (ths, s')" by (simp add: conc_store_ok_def)
qed

lemma life_step_objects:
  assumes laws: "server_laws E pins content" and ok: "conc_store_ok pins content (life_conf l)"
    and apart: "apart (life_threads l)" and alone: "undisturbed b k (life_threads l)"
    and step: "life_step X S E cfg close l e l'" and other: "\<not> life_touches E b k e"
  shows "conc_store_ok pins content (life_conf l') \<and> undisturbed b k (life_threads l') \<and>
    objects content (life_state l') (b, k) = objects content (life_state l) (b, k)"
proof -
  have conc: ?thesis if "conc_step E cfg (life_conf l) m (life_conf l')" "leaves_alone E b k m" for m
    using conc_step_objects(1) [OF conjunct1 [OF laws] ok apart that(1)]
      conc_step_objects(2) [OF conjunct1 [OF laws] ok apart that(1) alone that(2)] by simp
  show ?thesis
    using step
  proof cases
    case (accept fresh r op c)
    with other show ?thesis by (intro conc [of "Arrive op"]) (simp_all add: leaves_alone_def life_touches_def)
  next
    case (reply fresh r now a s')
    have "idle E (life_state l) s'" using serve_idle [OF reply(4), of E "life_state l" now] reply(5) by simp
    from conc_store_ok_idle_step [OF laws _ this, of "life_threads l"] ok alone show ?thesis by (simp add: reply(2))
  next
    case (wake n c)
    then show ?thesis by (intro conc [of "Wake n"]) (simp_all add: leaves_alone_def)
  next
    case (proceed i c)
    then show ?thesis by (intro conc [of "Move i"]) (simp_all add: leaves_alone_def)
  next
    case (disconnect i c)
    then show ?thesis by (intro conc [of "Cancel i"]) (simp_all add: leaves_alone_def)
  next
    case (signal sg)
    with ok alone show ?thesis by (cases "life_conf l") (simp add: close_pool_def conc_store_ok_def objects_def)
  qed (use ok alone in simp_all)
qed

lemma life_run_objects:
  assumes laws: "server_laws E pins content"
  shows "life_run X S E cfg close (\<lambda>l e. apart (life_threads l)) l es l' \<Longrightarrow>
    conc_store_ok pins content (life_conf l) \<Longrightarrow> undisturbed b k (life_threads l) \<Longrightarrow>
    list_all (\<lambda>e. \<not> life_touches E b k e) es \<Longrightarrow>
    conc_store_ok pins content (life_conf l') \<and>
    objects content (life_state l') (b, k) = objects content (life_state l) (b, k)"
proof (induction rule: life_run.induct)
  case (life_next l e l' es l'')
  then have other: "\<not> life_touches E b k e" by simp
  from life_step_objects [OF laws life_next.prems(1) life_next.hyps(1) life_next.prems(2) life_next.hyps(2) other]
    life_next.IH life_next.prems(3) show ?case by simp
qed simp

lemma session_objects:
  assumes laws: "server_laws E pins content" and ok: "store_ok pins content s"
    and run: "life_run X S E cfg close (\<lambda>l e. apart (life_threads l)) (started_life s) es l"
    and other: "list_all (\<lambda>e. \<not> life_touches E b k e) es"
  shows "store_ok pins content (life_state l) \<and> objects content (life_state l) (b, k) = objects content s (b, k)"
proof -
  have "conc_store_ok pins content (life_conf (started_life s))" "undisturbed b k (life_threads (started_life s))"
    using ok by (simp_all add: started_life_def conc_store_ok_idle undisturbed_def)
  from life_run_objects [OF laws run this other] conc_store_ok_state [of pins content "life_threads l" "life_state l"]
  show ?thesis by (simp add: started_life_def)
qed

text \<open>C10: Objects survive restarts. Over any number of sessions of the process on one database path, each ended
  gracefully or killed at any step, with requests and tasks half done, an object keeps its bytes, its type and
  its size, and the content of every row stays pinned and available, as long as no request in any session
  is to store or delete the object. The database file has to keep what was committed to it, and no content may
  be counted or unpinned by one thread while a \<open>PUT\<close> in progress has added the same content.\<close>

theorem objects_survive_restarts:
  assumes "pin_laws (node_api E) pins" "content_laws (node_api E) pins content"
    and "version_content (node_api E) pins content" and "durable_file I kept url_of"
    and "history X S I E kept close (\<lambda>l e. apart (life_threads l)) s hs s'" and "store_ok pins content s"
    and "\<forall>(cfg, es) \<in> set hs. database_path cfg = path \<and> list_all (\<lambda>e. \<not> life_touches E b k e) es"
  shows "store_ok pins content s' \<and> objects content s' (b, k) = objects content s (b, k)"
  using assms(5-7)
proof (induction rule: history.induct)
  case (session cfg s es l)
  with session_objects [OF _ session.prems(1) session.hyps, of b k] assms(1-3) show ?case by simp
next
  case (restart s hs s1 fs cfg s2 client fs' es l)
  then have s1: "store_ok pins content s1" "objects content s1 (b, k) = objects content s (b, k)" by simp_all
  obtain fs1 where init: "initialize I (database_path cfg) (sqlite cfg) fs = (Inr (app_db s2), fs1)"
    using run_setup_ready(4) [OF restart.hyps(3)] by blast
  have "hs \<noteq> []" using restart.hyps(1) by (auto elim: history.cases)
  then have "database_path (fst (last hs)) = path" using restart.prems(2) last_in_set by fastforce
  moreover have "database_path cfg = path" using restart.prems(2) by simp
  ultimately have "rows_of s2 = rows_of s1"
    using initialize_kept [OF assms(4) init] restart.hyps(2) by simp
  with store_ok_same [OF s1(1), of s2] have "store_ok pins content s2 \<and> objects content s2 = objects content s1"
    using run_setup_ready(3) [OF restart.hyps(3)] by simp
  with session_objects [OF _ _ restart.hyps(4), of pins content b k] assms(1-3) restart.prems s1(2) show ?case by simp
qed

section \<open>Instances\<close>

text \<open>A file system that is the rows of the one database file; nothing else can be opened.\<close>

definition file_init :: "(row list, int \<times> bool list) init_env" where
  "file_init =
     \<lparr>ie_exists = (\<lambda>p fs. p = ''metadata.db'' \<and> fs \<noteq> []), ie_parent = (\<lambda>_. Some ''data''),
      ie_create_dir_all = (\<lambda>_ fs. (Inr (), fs)), ie_display = id, ie_url_ok = (\<lambda>_. Inr ()),
      ie_defaults = \<lparr>auto_vacuum = Some ''none'', journal_mode = Some ''delete'', synchronous = Some ''full''\<rparr>,
      ie_connect = (\<lambda>options fs.
        (if co_url options = ''sqlite:metadata.db'' then Inr (0, []) else Inl ''unable to open database file'', fs)),
      ie_migrate = (\<lambda>_ fs. (Inr fs, fs))\<rparr>"

abbreviation file_rows :: "string \<Rightarrow> row list \<Rightarrow> row list" where
  "file_rows url fs \<equiv> if url = ''sqlite:metadata.db'' then fs else []"

lemma file_durable: "durable_file file_init file_rows (\<lambda>_. ''sqlite:metadata.db'')"
  by (simp add: durable_file_def file_init_def)

lemma file_restart:
  "run_setup file_init demo_env demo_config i rows =
     (Ready \<lparr>app_db = \<lparr>db_pool = (0, []), db_rows = rows\<rparr>, app_node = i, app_slots = (2, []), app_tasks = []\<rparr>
       (new_with_config ''http://localhost:5001/api/v0'' None), rows)"
  by (simp add: run_setup_def initialize_def prepare_directory_def db_new_with_config_def file_init_def sqlite_options_def
      demo_config_def with_capacity_def demo_dashmap_def)

text \<open>An object is stored. A \<open>PUT\<close> of another is killed before its last statement; after a restart it is
  repeated and ends.\<close>

definition put_you :: "string op" where
  "put_you = Put ''b'' ''j'' None None ''you''"

definition careful :: "(int \<times> bool list, demo_node, nat \<times> (string \<times> nat \<times> (i8 \<times> bytes) list) list, string) conf \<Rightarrow> string move \<Rightarrow> bool" where
  "careful c m \<longleftrightarrow> busy c m \<and> apart (fst c)"

lemma put_you_session:
  assumes "play demo_env demo_config careful ([start demo_env put_you], s) ms = Some c"
  shows "life_run demo_http demo_sig demo_env demo_config id (\<lambda>l e. apart (life_threads l)) (started_life s)
    (Accepted (object_request ''PUT'' ''/b/j'' ''you'') put_you # map Worked ms)
    \<lparr>life_phase = Running, life_conf = c, life_clients = [True]\<rparr>"
proof -
  let ?r = "object_request ''PUT'' ''/b/j'' ''you''"
  let ?l = "\<lparr>life_phase = Running, life_conf = ([start demo_env put_you], s), life_clients = [True]\<rparr>"
  have "life_step demo_http demo_sig demo_env demo_config id (started_life s) (Accepted ?r put_you) ?l"
    using accept [of "started_life s" demo_http demo_sig demo_config "''u''" ?r put_you demo_env "([start demo_env put_you], s)"]
      arrive [of demo_env demo_config "[]" s put_you]
    by (simp add: started_life_def put_you_def demo_object_ops(2))
  moreover have "life_run demo_http demo_sig demo_env demo_config id (\<lambda>l e. apart (life_threads l)) ?l (map Worked ms)
      (?l\<lparr>life_conf := c\<rparr>)"
    by (rule busy_life_run [OF play_run [OF assms]]) (simp_all add: careful_def)
  moreover have "apart (life_threads (started_life s))" by (simp add: started_life_def apart_def)
  ultimately show ?thesis using life_next [of "\<lambda>l e. apart (life_threads l)"] by simp
qed

theorem objects_survive_restarts_witness:
  "\<exists>hs s'. length hs = 2 \<and>
     history demo_http demo_sig file_init demo_env file_rows id (\<lambda>l e. apart (life_threads l))
       (snd (handle demo_env demo_config (Put ''b'' ''k'' None None ''hey'') demo_state)) hs s' \<and>
     objects demo_content s' (''b'', ''k'') = Some (''hey'', ''text/plain'', 3) \<and>
     objects demo_content s' (''b'', ''j'') = Some (''you'', ''text/plain'', 3)"
proof -
  let ?s = "snd (handle demo_env demo_config (Put ''b'' ''k'' None None ''hey'') demo_state)"
  let ?again = "\<lambda>s. \<lparr>app_db = \<lparr>db_pool = (0, []), db_rows = rows_of s\<rparr>, app_node = app_node s, app_slots = (2, []), app_tasks = []\<rparr>"
  let ?first = "play demo_env demo_config careful ([start demo_env put_you], ?s) [Move 0, Move 0, Move 0]"
  let ?second = "\<lambda>s. play demo_env demo_config careful ([start demo_env put_you], ?again s) [Move 0, Move 0, Move 0, Move 0]"
  have "map_option (\<lambda>c. map_option (\<lambda>c'. objects demo_content (snd c') (''b'', ''j'')) (?second (snd c))) ?first
    = Some (Some (Some (''you'', ''text/plain'', 3)))" by code_simp
  then obtain c1 c2 where c: "?first = Some c1" "?second (snd c1) = Some c2"
      "objects demo_content (snd c2) (''b'', ''j'') = Some (''you'', ''text/plain'', 3)"
    by (auto simp: map_option_eq_Some)
  let ?es = "\<lambda>ms. Accepted (object_request ''PUT'' ''/b/j'' ''you'') put_you # map Worked ms"
  let ?hs = "[(demo_config, ?es [Move 0, Move 0, Move 0]), (demo_config, ?es [Move 0, Move 0, Move 0, Move 0])]"
  have path: "kept_url = ''sqlite:metadata.db''" if "kept_url = ''sqlite:'' @ ie_display file_init (database_path demo_config)" for kept_url
    using that by (simp add: file_init_def demo_config_def)
  have first: "history demo_http demo_sig file_init demo_env file_rows id (\<lambda>l e. apart (life_threads l)) ?s
      [(demo_config, ?es [Move 0, Move 0, Move 0])] (snd c1)"
    using session [OF put_you_session [OF c(1)], of file_init file_rows] by simp
  have history: "history demo_http demo_sig file_init demo_env file_rows id (\<lambda>l e. apart (life_threads l)) ?s ?hs (snd c2)"
    using restart [OF first _ file_restart put_you_session [OF c(2)]] path [OF refl] by simp
  have other: "\<forall>(cfg, es) \<in> set ?hs. database_path cfg = ''metadata.db'' \<and> list_all (\<lambda>e. \<not> life_touches demo_env ''b'' ''k'' e) es"
    by (simp add: life_touches_def put_you_def demo_config_def)
  have node: "node_api demo_env = demo_node_api" by (rule demo_env_simps)
  have ok: "store_ok demo_pins demo_content ?s"
    using handle_spec [of demo_env demo_pins demo_content demo_state demo_config "Put ''b'' ''k'' None None ''hey''"]
      demo_pin_laws demo_content_laws demo_empty_objects node by (metis prod.collapse)
  have "objects demo_content ?s (''b'', ''k'') = Some (''hey'', ''text/plain'', 3)" by code_simp
  with objects_survive_restarts [OF _ _ _ file_durable history ok other] demo_pin_laws demo_content_laws
    demo_version_content node
  have "objects demo_content (snd c2) (''b'', ''k'') = Some (''hey'', ''text/plain'', 3)" by simp
  with history c(3) show ?thesis by (intro exI [of _ ?hs] exI [of _ "snd c2"]) simp
qed

end
