(* ===== verification/ConcurrencyProps.thy ===== *)
theory ConcurrencyProps imports ObjectStore Instances begin

text \<open>
  Properties of requests that overlap (\<^verbatim>\<open>Concurrency.thy\<close>): the small steps refine the
  handlers, and what goes wrong when the steps of two requests or tasks fall in a certain order.
\<close>

section \<open>Refinement\<close>

text \<open>C15: A request that nothing interrupts does, step by step, what its handler does in one go: the run that
  takes up the request and then moves only it ends, within the bound on its steps, with the handler's answer
  and the handler's state.\<close>

theorem steps_refine_handlers:
  "\<exists>n \<le> weight (start E op).
     conc_run E cfg (\<lambda>_ _. True) (ths, s) (Arrive op # replicate n (Move (length ths)))
       (ths @ [Finished (Some (fst (handle E cfg op s)))], snd (handle E cfg op s))"
proof -
  obtain h s' where h: "handle E cfg op s = (h, s')" by fastforce
  have "alone E cfg (start E op) s = (Some h, s')" by (simp add: alone_start h)
  with alone_run [of "start E op" E cfg ths s] show ?thesis
    by (auto simp: h intro: onward arrive)
qed

section \<open>Single steps\<close>

text \<open>Counting references, while the database answers.\<close>

lemma count_outcome:
  assumes "reliable (sqlx_exec E)" and "primary_key (rows_of s)"
  obtains s1 where "with_db (cid_count (sqlx_exec E) c) s = (Inr (sql_count_cid c (rows_of s)), s1)"
    "rows_of s1 = rows_of s" "app_node s1 = app_node s" "app_tasks s1 = app_tasks s"
    "sql_count_cid c (rows_of s) = 0 \<longleftrightarrow> c \<notin> referenced_cids (rows_of s)"
proof -
  obtain q s1 where q: "with_db (cid_count (sqlx_exec E) c) s = (q, s1)" by fastforce
  then obtain db1 where db1: "cid_count (sqlx_exec E) c (app_db s) = (q, db1)" "s1 = s\<lparr>app_db := db1\<rparr>"
    by (rule with_dbE)
  have "is_ok q" using db1(1) unfolding cid_count_def by (rule reliable_statement [OF assms(1)])
  then obtain n where n: "q = Inr n" by (cases q) simp_all
  have "n = sql_count_cid c (rows_of s)" "db_rows db1 = rows_of s" using cid_count_rows [OF db1(1)] n by simp_all
  with that [of s1] q n db1(2) sql_count_zero [OF assms(2)] show thesis by simp
qed

lemma count_step:
  assumes "reliable (sqlx_exec E)" and "primary_key (rows_of s)"
  obtains s1 where "advance E cfg (CountRefs u md) s =
      (if md_cid md \<in> referenced_cids (rows_of s) then unpin_done E cfg u md (Inr ()) s1 else (UnpinContent u md, s1))"
    and "rows_of s1 = rows_of s" "app_node s1 = app_node s"
proof -
  obtain s1 where "with_db (cid_count (sqlx_exec E) (md_cid md)) s = (Inr (sql_count_cid (md_cid md) (rows_of s)), s1)"
    "rows_of s1 = rows_of s" "app_node s1 = app_node s"
    "sql_count_cid (md_cid md) (rows_of s) = 0 \<longleftrightarrow> md_cid md \<notin> referenced_cids (rows_of s)"
    by (rule count_outcome [OF assms])
  with that [of s1] show thesis by simp
qed

text \<open>Storing a row.\<close>

lemma store_step:
  assumes "reliable (sqlx_exec E)"
  obtains s1 h now where "advance E cfg (StoreRow p b k old ct n added) s = (Finished (Some h), s1)"
    and "rows_of s1 = sql_upsert (ar_hash added) b k ct (usize_as_i64 n) now (rows_of s)"
    and "app_node s1 = app_node s" "app_tasks s1 = app_tasks s @ [UnpinOld old added]"
proof -
  let ?store = "store_object_metadata (sqlx_exec E) b k (ar_hash added) (usize_as_i64 n) ct"
  obtain q s1 where q: "with_db ?store s = (q, s1)" by fastforce
  then obtain db1 where db1: "?store (app_db s) = (q, db1)" "s1 = s\<lparr>app_db := db1\<rparr>" by (rule with_dbE)
  have "is_ok q" using reliable_methods(1) [OF assms db1(1)] .
  then obtain u where u: "q = Inr u" by (cases q) simp_all
  then obtain now where "db_rows db1 = sql_upsert (ar_hash added) b k ct (usize_as_i64 n) now (rows_of s)"
    using store_object_metadata_rows [OF db1(1)] by auto
  with that q u db1(2) show thesis by simp
qed



lemma run_Moves:
  assumes "i < length ths" and "ths ! i = pc0" and "advance E cfg pc0 s = (pc, s1)"
    and "conc_run E cfg (\<lambda>_ _. True) (ths[i := pc], s1) ls c"
  shows "conc_run E cfg (\<lambda>_ _. True) (ths, s) (Move i # ls) c"
  by (rule onward [OF _ move [OF assms(1)] assms(4)]) (simp_all add: assms(2,3) del: advance.simps)

section \<open>Races\<close>

text \<open>C36: Counting the references and unpinning are two steps. When a \<open>PUT\<close> in progress that has added the
  same content stores its row between the two, the row is in the table and its content is not pinned any more;
  when it stores its row before the count, the content stays pinned and the thread does not unpin.\<close>

theorem late_unpin_loses_content:
  assumes "pin_laws (node_api E) pins" and "reliable (sqlx_exec E)" and "primary_key (rows_of s)"
    and "i < length ths" "j < length ths" "i \<noteq> j"
    and "ths ! i = CountRefs u md" and "ths ! j = StoreRow p b k old ct n added" and "ar_hash added = md_cid md"
    and "md_cid md \<notin> referenced_cids (rows_of s)" "md_cid md \<in> pins (app_node s)"
    and "is_ok (fst (unpin (node_api E) md (app_node s)))"
  shows "(\<exists>ths' s'. conc_run E cfg (\<lambda>_ _. True) (ths, s) [Move i, Move j, Move i] (ths', s') \<and>
      map_option md_cid (sql_select b k (rows_of s')) = Some (md_cid md) \<and> md_cid md \<notin> pins (app_node s')) \<and>
    (\<exists>ths' s'. conc_run E cfg (\<lambda>_ _. True) (ths, s) [Move j, Move i] (ths', s') \<and>
      map_option md_cid (sql_select b k (rows_of s')) = Some (md_cid md) \<and> md_cid md \<in> pins (app_node s') \<and>
      unpins (ths' ! i) = {})"
proof
  note [simp] = assms(4-8) not_sym [OF assms(6)]
  have sel: "map_option md_cid (sql_select b k (sql_upsert (ar_hash added) b k ct sz now rows)) = Some (md_cid md)"
    for sz now rows using assms(9) by (simp add: sql_select_upsert)
  obtain s1 where s1: "advance E cfg (CountRefs u md) s = (UnpinContent u md, s1)" "rows_of s1 = rows_of s"
      "app_node s1 = app_node s"
    using count_step [OF assms(2,3), of cfg u md] assms(10) by metis
  obtain s2 h now where s2: "advance E cfg (StoreRow p b k old ct n added) s1 = (Finished (Some h), s2)"
      "rows_of s2 = sql_upsert (ar_hash added) b k ct (usize_as_i64 n) now (rows_of s1)" "app_node s2 = app_node s1"
    by (rule store_step [OF assms(2)])
  obtain pc s3 where s3: "advance E cfg (UnpinContent u md) s2 = (pc, s3)" by fastforce
  then obtain q s4 where s4: "with_node (unpin (node_api E) md) s2 = (q, s4)" "rows_of s3 = rows_of s4"
      "app_node s3 = app_node s4"
    by (rule unpin_step)
  have "app_node s3 = snd (unpin (node_api E) md (app_node s))" "rows_of s3 = rows_of s2"
    using node_call [OF s4(1)] s4(2,3) s2(3) s1(3) by simp_all
  then have lost: "md_cid md \<notin> pins (app_node s3)" "map_option md_cid (sql_select b k (rows_of s3)) = Some (md_cid md)"
    using node.drop_pin_drops [OF assms(1,12)] s2(2) sel by simp_all
  have "conc_run E cfg (\<lambda>_ _. True) (ths, s) [Move i, Move j, Move i]
      (ths[i := UnpinContent u md, j := Finished (Some h), i := pc], s3)"
    by (rule run_Moves [OF _ _ s1(1)], simp, simp, rule run_Moves [OF _ _ s2(1)], simp, simp, rule run_Moves [OF _ _ s3], simp, simp, rule still)
  with lost show "\<exists>ths' s'. conc_run E cfg (\<lambda>_ _. True) (ths, s) [Move i, Move j, Move i] (ths', s') \<and>
      map_option md_cid (sql_select b k (rows_of s')) = Some (md_cid md) \<and> md_cid md \<notin> pins (app_node s')"
    by blast
next
  note [simp] = assms(4-8) not_sym [OF assms(6)]
  obtain s1 h now where s1: "advance E cfg (StoreRow p b k old ct n added) s = (Finished (Some h), s1)"
      "rows_of s1 = sql_upsert (ar_hash added) b k ct (usize_as_i64 n) now (rows_of s)" "app_node s1 = app_node s"
    by (rule store_step [OF assms(2)])
  have stored: "map_option md_cid (sql_select b k (rows_of s1)) = Some (md_cid md)"
    using assms(9) by (simp add: s1(2) sql_select_upsert)
  then have ref: "md_cid md \<in> referenced_cids (rows_of s1)" using select_referenced by fastforce
  have pk: "primary_key (rows_of s1)" using assms(3) by (simp add: s1(2) primary_key_upsert)
  obtain s2 where s2: "advance E cfg (CountRefs u md) s1 = unpin_done E cfg u md (Inr ()) s2" "rows_of s2 = rows_of s1"
      "app_node s2 = app_node s1"
    using count_step [OF assms(2) pk, of cfg u md] ref by metis
  obtain pc s3 where s3: "unpin_done E cfg u md (Inr ()) s2 = (pc, s3)" by fastforce
  have end_state: "unpins pc = {}" "rows_of s3 = rows_of s1" "app_node s3 = app_node s"
    using unpins_done(4) [of E cfg u md "Inr ()" s2] unpin_done_frame [of E cfg u md "Inr ()" s2] s2(2,3) s1(3)
    by (simp_all add: s3)
  have "conc_run E cfg (\<lambda>_ _. True) (ths, s) [Move j, Move i] (ths[j := Finished (Some h), i := pc], s3)"
    by (rule run_Moves [OF _ _ s1(1)], simp, simp, rule run_Moves [OF _ _ s2(1) [unfolded s3]], simp, simp, rule still)
  then show "\<exists>ths' s'. conc_run E cfg (\<lambda>_ _. True) (ths, s) [Move j, Move i] (ths', s') \<and>
      map_option md_cid (sql_select b k (rows_of s')) = Some (md_cid md) \<and> md_cid md \<in> pins (app_node s') \<and>
      unpins (ths' ! i) = {}"
    using end_state stored assms(11) by (intro exI [of _ "ths[j := Finished (Some h), i := pc]"] exI [of _ s3]) simp
qed


text \<open>C38: The check and the insert of the slot map are two steps. Two requests that check for the last place
  one after the other, before either inserts, are both admitted, and the map then holds more uploads than its
  capacity was; when the first inserts before the second checks, and the capacity stays, the second is refused
  with 503.\<close>

theorem overlapping_creates_exceed_capacity:
  assumes "dashmap_laws (slot_ops E) \<alpha>" and "i < length ths" "j < length ths" "i \<noteq> j"
    and "ths ! i = CheckSlots b k u" and "ths ! j = CheckSlots b' k' v" and "u \<noteq> v"
    and "\<alpha> (app_slots s) u = None" "\<alpha> (app_slots s) v = None"
    and "Suc (card (dom (\<alpha> (app_slots s)))) = dm_capacity (slot_ops E) (app_slots s)"
  shows "(\<exists>ths' s'. conc_run E cfg (\<lambda>_ _. True) (ths, s) [Move i, Move j, Move i, Move j] (ths', s') \<and>
      {u, v} \<subseteq> dom (\<alpha> (app_slots s')) \<and>
      card (dom (\<alpha> (app_slots s'))) = Suc (dm_capacity (slot_ops E) (app_slots s))) \<and>
    (\<exists>ths' s'. conc_run E cfg (\<lambda>_ _. True) (ths, s) [Move i, Move i] (ths', s') \<and>
      (dm_capacity (slot_ops E) (app_slots s') = dm_capacity (slot_ops E) (app_slots s) \<longrightarrow>
        (\<exists>ths''. conc_run E cfg (\<lambda>_ _. True) (ths', s') [Move j] (ths'', s') \<and>
           ths'' ! j = Finished (Some (Inl (Status SERVICE_UNAVAILABLE))))))"
proof -
  note laws = dashmap_lawsD [OF assms(1)] and [simp] = assms(2-6) not_sym [OF assms(4)]
  let ?ins = "\<lambda>x s. s\<lparr>app_slots := snd (dm_insert (slot_ops E) x (new_parts E) (app_slots s))\<rparr>"
  let ?s1 = "?ins u s"
  let ?s2 = "?ins v ?s1"
  have room: "check_capacity (slot_ops E) (app_slots s) = Inr ()" using assms(10) by (simp add: check_capacity_def laws(4))
  have check: "advance E cfg (CheckSlots c l x) s = (InsertSlot c l x, s)" for c l x by (simp add: room)
  obtain h1 where h1: "advance E cfg (InsertSlot b k u) s = (Finished (Some h1), ?s1)" by simp
  obtain h2 where h2: "advance E cfg (InsertSlot b' k' v) ?s1 = (Finished (Some h2), ?s2)" by simp
  have one: "\<alpha> (app_slots ?s1) = (\<alpha> (app_slots s))(u \<mapsto> new_parts E)" by (simp add: laws(7))
  have two: "\<alpha> (app_slots ?s2) = (\<alpha> (app_slots s))(u \<mapsto> new_parts E, v \<mapsto> new_parts E)"
    using one by (simp add: laws(7))
  have fin: "finite (dom (\<alpha> (app_slots s)))" by (rule laws(3))
  have card1: "card (dom (\<alpha> (app_slots ?s1))) = dm_capacity (slot_ops E) (app_slots s)"
    using assms(8,10) fin unfolding one by (simp add: domIff)
  have "card (dom (\<alpha> (app_slots ?s2))) = Suc (dm_capacity (slot_ops E) (app_slots s))"
    using assms(7-10) fin unfolding two by (simp add: domIff card_insert_if)
  moreover have "{u, v} \<subseteq> dom (\<alpha> (app_slots ?s2))" unfolding two by simp
  moreover have "conc_run E cfg (\<lambda>_ _. True) (ths, s) [Move i, Move j, Move i, Move j]
      (ths[i := InsertSlot b k u, j := InsertSlot b' k' v, i := Finished (Some h1), j := Finished (Some h2)], ?s2)"
    by (rule run_Moves [OF _ _ check [of b k u]], simp, simp, rule run_Moves [OF _ _ check [of b' k' v]], simp, simp, rule run_Moves [OF _ _ h1], simp, simp, rule run_Moves [OF _ _ h2], simp, simp, rule still)
  moreover have "conc_run E cfg (\<lambda>_ _. True) (ths, s) [Move i, Move i]
      (ths[i := InsertSlot b k u, i := Finished (Some h1)], ?s1)"
    by (rule run_Moves [OF _ _ check [of b k u]], simp, simp, rule run_Moves [OF _ _ h1], simp, simp, rule still)
  moreover have "\<exists>ths''. conc_run E cfg (\<lambda>_ _. True) (ths[i := InsertSlot b k u, i := Finished (Some h1)], ?s1) [Move j] (ths'', ?s1) \<and>
      ths'' ! j = Finished (Some (Inl (Status SERVICE_UNAVAILABLE)))"
    if "dm_capacity (slot_ops E) (app_slots ?s1) = dm_capacity (slot_ops E) (app_slots s)"
  proof -
    have "check_capacity (slot_ops E) (app_slots ?s1) = Inl WouldIncrease"
      using that card1 by (simp add: check_capacity_def laws(4))
    then have full: "advance E cfg (CheckSlots b' k' v) ?s1 = (Finished (Some (Inl (Status SERVICE_UNAVAILABLE))), ?s1)"
      by simp
    show ?thesis
      by (rule exI, rule conjI, rule run_Moves [OF _ _ full], simp, simp, rule still, simp)
  qed
  ultimately show ?thesis by blast
qed

text \<open>A trim task has found the directory of a deleted object empty; an object is stored in it; then the task
  removes the directory.\<close>

definition trim_schedule :: "string move list" where
  "trim_schedule =
     [Arrive (Put ''b'' ''d/one'' None None ''one''), Move 0, Move 0, Move 0, Move 0,
      Arrive (Delete ''b'' ''d/one'' None), Move 1, Move 1, Move 1, Move 1, Move 1,
      Wake 0, Wake 0, Move 3, Move 3, Move 3,
      Arrive (Put ''b'' ''d/two'' None None ''two''), Move 4, Move 4, Move 4, Move 4, Move 3, Wake 0]"

text \<open>Searching for empty directories and removing one are separate calls. When a \<open>PUT\<close> stores an object below
  the directory in between, all requests succeed and the object is in the table with its content pinned, but
  its link in the file system is gone; a \<open>DELETE\<close> of it then answers 500 and leaves it where it is.\<close>

theorem overlapping_trim_loses_link:
  "\<exists>ths s. conc_run demo_env demo_config (\<lambda>_ _. True) ([], demo_state) trim_schedule (ths, s) \<and>
     list_all (\<lambda>pc. weight pc = 0) ths \<and> map row_object_key (rows_of s) = [''d/two''] \<and>
     ''Qmtwo'' \<in> demo_pins (app_node s) \<and> demo_mfs (app_node s) ''/buckets/b/d/two'' = None \<and>
     (case handle demo_env demo_config (Delete ''b'' ''d/two'' None) s of
        (h, s') \<Rightarrow> h = Inl (Status INTERNAL_SERVER_ERROR) \<and> rows_of s' = rows_of s)"
proof -
  have "map_option (\<lambda>(ths, s). (list_all (\<lambda>pc. weight pc = 0) ths, map row_object_key (rows_of s),
        dn_pins (app_node s), demo_mfs (app_node s) ''/buckets/b/d/two'',
        case handle demo_env demo_config (Delete ''b'' ''d/two'' None) s of
          (h, s') \<Rightarrow> h = Inl (Status INTERNAL_SERVER_ERROR) \<and> rows_of s' = rows_of s))
      (play demo_env demo_config (\<lambda>_ _. True) ([], demo_state) trim_schedule)
    = Some (True, [''d/two''], [''Qmtwo''], None, True)"
    by code_simp
  then obtain ths s where end_state:
      "play demo_env demo_config (\<lambda>_ _. True) ([], demo_state) trim_schedule = Some (ths, s)"
      "list_all (\<lambda>pc. weight pc = 0) ths" "map row_object_key (rows_of s) = [''d/two'']"
      "dn_pins (app_node s) = [''Qmtwo'']" "demo_mfs (app_node s) ''/buckets/b/d/two'' = None"
      "case handle demo_env demo_config (Delete ''b'' ''d/two'' None) s of
          (h, s') \<Rightarrow> h = Inl (Status INTERNAL_SERVER_ERROR) \<and> rows_of s' = rows_of s"
    by (auto simp del: list_all_iff)
  have "''Qmtwo'' \<in> demo_pins (app_node s)" by (simp add: demo_pins_def end_state(4))
  then show ?thesis
    by (intro exI [of _ ths] exI [of _ s] conjI play_run [OF end_state(1)] end_state(2,3,5,6))
qed

section \<open>Instances\<close>

lemma steady_pin_laws: "pin_laws (node_api steady_env) demo_pins"
  using demo_pin_laws by simp

lemma ids_primary_key: "map row_id rows = ids \<Longrightarrow> distinct ids \<Longrightarrow> primary_key rows"
  by (simp add: primary_key_def)

text \<open>A \<open>DELETE\<close> has deleted its row and is about to count; a \<open>PUT\<close> of the same content under another key has
  added and linked it.\<close>

definition late_schedule :: "string move list" where
  "late_schedule =
     [Arrive (Put ''b'' ''k'' None None ''one''), Move 0, Move 0, Move 0, Move 0,
      Arrive (Delete ''b'' ''k'' None), Move 1, Move 1, Move 1,
      Arrive (Put ''b'' ''j'' None None ''one''), Move 2, Move 2, Move 2]"

theorem late_unpin_loses_content_witness:
  "\<exists>ths s ths' s'. conc_run steady_env demo_config (\<lambda>_ _. True) ([], demo_state) late_schedule (ths, s) \<and>
     conc_run steady_env demo_config (\<lambda>_ _. True) (ths, s) [Move 1, Move 2, Move 1] (ths', s') \<and>
     sql_select ''b'' ''j'' (rows_of s') \<noteq> None \<and> ''Qmone'' \<notin> demo_pins (app_node s')"
proof -
  have "map_option (\<lambda>(ths, s). (length ths, map row_id (rows_of s), dn_pins (app_node s),
        case ths ! 1 of CountRefs u md \<Rightarrow>
          md_cid md = ''Qmone'' \<and> is_ok (fst (unpin demo_node_api md (app_node s))) | _ \<Rightarrow> False,
        case ths ! 2 of StoreRow p b k old ct n a \<Rightarrow> (b, k) = (''b'', ''j'') \<and> ar_hash a = ''Qmone'' | _ \<Rightarrow> False))
      (play steady_env demo_config (\<lambda>_ _. True) ([], demo_state) late_schedule)
    = Some (3, [], [''Qmone'', ''Qmone''], True, True)"
    by code_simp
  then obtain ths s where end_state:
      "play steady_env demo_config (\<lambda>_ _. True) ([], demo_state) late_schedule = Some (ths, s)"
      "length ths = 3" "rows_of s = []" "dn_pins (app_node s) = [''Qmone'', ''Qmone'']"
      "case ths ! 1 of CountRefs u md \<Rightarrow>
        md_cid md = ''Qmone'' \<and> is_ok (fst (unpin demo_node_api md (app_node s))) | _ \<Rightarrow> False"
      "case ths ! 2 of StoreRow p b k old ct n a \<Rightarrow> (b, k) = (''b'', ''j'') \<and> ar_hash a = ''Qmone'' | _ \<Rightarrow> False"
    by auto
  obtain u md where i: "ths ! 1 = CountRefs u md" "md_cid md = ''Qmone''"
      "is_ok (fst (unpin (node_api steady_env) md (app_node s)))"
    using end_state(5) by (auto split: pc.splits)
  obtain p old ct n a where j: "ths ! 2 = StoreRow p ''b'' ''j'' old ct n a" "ar_hash a = md_cid md"
    using end_state(6) i(2) by (auto split: pc.splits)
  have "primary_key (rows_of s)" "md_cid md \<notin> referenced_cids (rows_of s)" "md_cid md \<in> demo_pins (app_node s)"
    by (simp_all add: end_state(3,4) primary_key_def referenced_cids_def demo_pins_def i(2))
  with late_unpin_loses_content [OF steady_pin_laws steady_reliable _ _ _ _ i(1) j _ _ i(3), of demo_config] end_state(2) i(2)
  obtain ths' s' where "conc_run steady_env demo_config (\<lambda>_ _. True) (ths, s) [Move 1, Move 2, Move 1] (ths', s')"
      "map_option md_cid (sql_select ''b'' ''j'' (rows_of s')) = Some (md_cid md)" "md_cid md \<notin> demo_pins (app_node s')"
    by auto
  moreover from this(2) have "sql_select ''b'' ''j'' (rows_of s') \<noteq> None" by auto
  ultimately show ?thesis using play_run [OF end_state(1)] i(2) by metis
qed



abbreviation create :: "string \<Rightarrow> string op" where
  "create u \<equiv> Post ''b'' ''k'' \<lparr>uploads_param = Some [], upload_id_param = None\<rparr> u"

theorem overlapping_creates_exceed_capacity_witness:
  "\<exists>ths s. conc_run steady_env demo_config (\<lambda>_ _. True) ([], demo_state)
       [Arrive (create ''u''), Move 0, Move 0, Arrive (create ''v''), Arrive (create ''w''), Move 1, Move 2, Move 1, Move 2]
       (ths, s) \<and> card (dom (demo_map (app_slots s))) = 3"
proof -
  have "map_option (\<lambda>(ths, s). (ths ! 1, ths ! 2, length ths, app_slots s))
      (play steady_env demo_config (\<lambda>_ _. True) ([], demo_state)
        [Arrive (create ''u''), Move 0, Move 0, Arrive (create ''v''), Arrive (create ''w'')])
    = Some (CheckSlots ''b'' ''k'' ''v'', CheckSlots ''b'' ''k'' ''w'', 3, (1, [(''u'', 0, [])]))"
    by code_simp
  then obtain ths s where end_state: "play steady_env demo_config (\<lambda>_ _. True) ([], demo_state)
        [Arrive (create ''u''), Move 0, Move 0, Arrive (create ''v''), Arrive (create ''w'')] = Some (ths, s)"
      "ths ! 1 = CheckSlots ''b'' ''k'' ''v''" "ths ! 2 = CheckSlots ''b'' ''k'' ''w''" "length ths = 3"
      "app_slots s = (1, [(''u'', 0, [])])"
    by auto
  have laws: "dashmap_laws (slot_ops steady_env) demo_map" using demo_dashmap_laws by simp
  have facts: "demo_map (app_slots s) ''v'' = None" "demo_map (app_slots s) ''w'' = None"
      "Suc (card (dom (demo_map (app_slots s)))) = dm_capacity (slot_ops steady_env) (app_slots s)"
      "dm_capacity (slot_ops steady_env) (app_slots s) = 2"
    by (simp_all add: end_state(5) demo_map_def demo_dashmap_def)
  from overlapping_creates_exceed_capacity [OF laws _ _ _ end_state(2,3) _ facts(1-3), of demo_config]
  obtain ths' s' where run: "conc_run steady_env demo_config (\<lambda>_ _. True) (ths, s) [Move 1, Move 2, Move 1, Move 2] (ths', s')"
      "card (dom (demo_map (app_slots s'))) = 3"
    using end_state(4) facts(4) by auto
  from run_append [OF play_run [OF end_state(1)] run(1)] run(2) show ?thesis by auto
qed

end
