(* ===== verification/ObjectStoreProps.thy ===== *)
theory ObjectStoreProps imports ConcurrentObjects Instances begin

text \<open>
  The service as an object store: every request refines the specification of
  \<^verbatim>\<open>ObjectStore.thy\<close>, tasks change no object, and what was stored stays until a request touches it.
\<close>

text \<open>C3: Seen as a map from bucket and key to bytes and content type, the service does with every request what
  the specification allows: it stores on a successful \<open>PUT\<close> or completion, removes on a successful
  \<open>DELETE\<close>, answers 404 only for what is not there, streams an object's own bytes, and changes nothing else;
  a background task changes nothing. Every row's content stays pinned and available.\<close>

theorem requests_refine_object_map:
  assumes "pin_laws (node_api E) pins" and "content_laws (node_api E) pins content" and "store_ok pins content s"
  shows "(case handle E cfg op s of
      (h, s') \<Rightarrow> store_ok pins content s' \<and> spec E cfg op h (objects content s) (objects content s')) \<and>
    store_ok pins content (run_background E cfg t s) \<and>
    objects content (run_background E cfg t s) = objects content s"
proof -
  obtain h s' where run: "handle E cfg op s = (h, s')" by fastforce
  have laws: "store_laws E pins content" using assms(1,2) by simp
  from handle_spec [OF laws assms(3) run] run_background_objects [OF laws assms(3), of cfg t] run show ?thesis by simp
qed

lemma demo_store_ok: "store_ok demo_pins demo_content demo_state"
  by (simp add: store_ok_def demo_state_def primary_key_def referenced_cids_def durable.held_def)

theorem requests_refine_object_map_witness:
  "objects demo_content (snd (handle demo_env demo_config (Put ''b'' ''k'' (Some ''t'') None ''hey'') demo_state))
     = [(''b'', ''k'') \<mapsto> (''hey'', ''t'', 3)]"
proof -
  let ?run = "handle demo_env demo_config (Put ''b'' ''k'' (Some ''t'') None ''hey'') demo_state"
  have "is_ok (fst ?run)" by code_simp
  then obtain r where r: "?run = (Inr r, snd ?run)" by (metis prod.collapse sum.collapse(2))
  have "objects demo_content demo_state = Map.empty"
    by (simp add: fun_eq_iff objects_def demo_state_def sql_select_def)
  moreover have "spec demo_env demo_config (Put ''b'' ''k'' (Some ''t'') None ''hey'') (Inr r)
      (objects demo_content demo_state) (objects demo_content (snd ?run))"
    using requests_refine_object_map [where E = demo_env, unfolded demo_env_simps, OF demo_pin_laws demo_content_laws demo_store_ok,
        of demo_config "Put ''b'' ''k'' (Some ''t'') None ''hey''"] r
    by (metis (no_types, lifting) case_prod_conv)
  ultimately show ?thesis by (simp add: spec_def content_type_of_def usize_as_i64_def)
qed

text \<open>C2: A stored object lasts. After a successful \<open>PUT\<close>, whatever requests and background tasks follow in
  whatever order, as long as none of them is a \<open>PUT\<close>, completion or \<open>DELETE\<close> of that very object, a \<open>GET\<close>
  of it is never answered 404, and every body it streams without an error is what was sent.\<close>

theorem stored_object_lasts:
  assumes "pin_laws (node_api E) pins" and "content_laws (node_api E) pins content" and "store_ok pins content s"
    and "put_object E cfg (b, k) ct None data s = (Inr r, s1)"
    and "list_all (\<lambda>a. \<not> touches E b k a) later" and "perform_all E cfg later s1 = s2"
    and "get_object E cfg (b, k) ip s2 = (h, s3)"
  shows "h \<noteq> Inl (Status NOT_FOUND) \<and>
    (\<forall>r2 cs. h = Inr r2 \<and> resp_body r2 = Streamed cs \<and> list_all is_ok cs \<longrightarrow> concat (map projr cs) = data)"
proof -
  have laws: "store_laws E pins content" using assms(1,2) by simp
  have "store_object E cfg b k ct data s = (Inr r, s1)" using assms(4) by (simp add: put_object_def)
  from store_object_objects [OF laws assms(3) this]
  have "store_ok pins content s1" "objects content s1 (b, k) = Some (data, content_type_of E cfg ct k, usize_as_i64 (length data))" by simp_all
  with perform_all_objects [OF laws _ assms(5), of s1 cfg] assms(6)
  have s2: "store_ok pins content s2" "objects content s2 (b, k) = Some (data, content_type_of E cfg ct k, usize_as_i64 (length data))" by simp_all
  from get_object_spec [OF laws s2(1) assms(7)] s2(2) show ?thesis by (auto simp: spec_def)
qed

definition later_activity :: "string activity list" where
  "later_activity =
     [Request (Put ''b'' ''j'' None None ''hey''), Request (Put ''b'' ''j'' None None ''you''),
      Task (UnpinOld None \<lparr>ar_name = [], ar_hash = ''Qmhey'', ar_size = []\<rparr>), Request (Delete ''b'' ''j'' None)]"

theorem stored_object_lasts_witness:
  "\<exists>r cs. fst (get_object demo_env demo_config (''b'', ''k'') ''10.0.0.9''
      (perform_all demo_env demo_config later_activity
        (snd (put_object demo_env demo_config (''b'', ''k'') None None ''hey'' demo_state)))) = Inr r \<and>
     resp_body r = Streamed cs \<and> concat (map projr cs) = ''hey''"
proof -
  let ?put = "put_object demo_env demo_config (''b'', ''k'') None None ''hey'' demo_state"
  let ?get = "get_object demo_env demo_config (''b'', ''k'') ''10.0.0.9''
      (perform_all demo_env demo_config later_activity (snd ?put))"
  have "is_ok (fst ?put)" by code_simp
  then have put: "?put = (Inr (projr (fst ?put)), snd ?put)" by (metis prod.collapse sum.collapse(2))
  have later: "list_all (\<lambda>a. \<not> touches demo_env ''b'' ''k'' a) later_activity" by code_simp
  have "(case fst ?get of Inl _ \<Rightarrow> None | Inr r \<Rightarrow> Some (resp_body r)) = Some (Streamed [Inr ''hey''])" by code_simp
  then obtain r where r: "fst ?get = Inr r" "resp_body r = Streamed [Inr ''hey'']" by (auto split: sum.splits)
  then have clean: "list_all is_ok [Inr ''hey'' :: string + bytes]" by simp
  from stored_object_lasts [where E = demo_env, unfolded demo_env_simps, OF demo_pin_laws demo_content_laws demo_store_ok put
      later refl surjective_pairing]
  have "concat (map projr [Inr ''hey'' :: string + bytes]) = ''hey''" using r clean by blast
  with r show ?thesis by blast
qed

text \<open>C5: The same under interleaving. However the steps of requests and background tasks interleave, requests
  being dropped in between or not, an object keeps its bytes, its content type and its size as long as no
  request that arrives is a \<open>PUT\<close>, completion or \<open>DELETE\<close> of it; and the content of every row and of every
  \<open>PUT\<close> in progress stays pinned and available. The one condition on the schedule: no content is being counted
  or unpinned by one thread while a \<open>PUT\<close> in progress has added the same content.\<close>

theorem overlapping_requests_spare_objects:
  assumes "pin_laws (node_api E) pins" and "content_laws (node_api E) pins content"
    and "store_ok pins content s"
    and "conc_run E cfg (\<lambda>c l. apart (fst c) \<and> (\<forall>op. l = Arrive op \<longrightarrow> \<not> touches E b k (Request op)))
      ([], s) ls (ths', s')"
  shows "store_ok pins content s' \<and> durable.held pins content (app_node s') (in_flight ths') \<and>
    objects content s' (b, k) = objects content s (b, k)"
proof -
  have "conc_run E cfg (\<lambda>c l. apart (fst c) \<and> leaves_alone E b k l) ([], s) ls (ths', s')"
    using assms(4) by (simp only: leaves_alone_iff)
  from conc_run_objects [OF conjI [OF assms(1,2)] this]
  have "conc_store_ok pins content (ths', s')" "objects content s' (b, k) = objects content s (b, k)"
    using assms(3) by (simp_all only: fst_conv snd_conv conc_store_ok_idle) (simp_all add: undisturbed_def)
  then show ?thesis by (simp add: conc_store_ok_def store_ok_def held_Un)
qed

text \<open>A \<open>PUT\<close> overwrites \<open>j\<close> and a \<open>DELETE\<close> removes it, step by step in turn, while \<open>k\<close> is stored.\<close>

definition spare_schedule :: "string move list" where
  "spare_schedule =
     [Arrive (Put ''b'' ''j'' None None ''one''), Move 0, Move 0, Move 0, Move 0,
      Arrive (Put ''b'' ''j'' None None ''two''), Arrive (Delete ''b'' ''j'' None),
      Move 1, Move 2, Move 1, Move 2, Move 1, Move 1, Move 2, Move 2, Wake 1, Move 3]"

theorem overlapping_requests_spare_objects_witness:
  "\<exists>ths s. conc_run demo_env demo_config (\<lambda>c l. apart (fst c) \<and>
         (\<forall>op. l = Arrive op \<longrightarrow> \<not> touches demo_env ''b'' ''k'' (Request op)))
       ([], snd (put_object demo_env demo_config (''b'', ''k'') (Some ''t'') None ''hey'' demo_state)) spare_schedule (ths, s) \<and>
     objects demo_content s (''b'', ''k'') = Some (''hey'', ''t'', 3)"
proof -
  let ?put = "put_object demo_env demo_config (''b'', ''k'') (Some ''t'') None ''hey'' demo_state"
  have "is_ok (fst ?put)" by code_simp
  then have "handle demo_env demo_config (Put ''b'' ''k'' (Some ''t'') None ''hey'') demo_state = (Inr (projr (fst ?put)), snd ?put)"
    by (simp add: handle_def prod_eq_iff)
  from handle_spec [where E = demo_env, unfolded demo_env_simps, OF conjI [OF demo_pin_laws demo_content_laws] demo_store_ok this]
  have start: "store_ok demo_pins demo_content (snd ?put)"
      "objects demo_content (snd ?put) (''b'', ''k'') = Some (''hey'', ''t'', 3)"
    by (simp_all add: spec_def content_type_of_def usize_as_i64_def)
  have "play demo_env demo_config (\<lambda>c l. apart (fst c) \<and> leaves_alone demo_env ''b'' ''k'' l) ([], snd ?put) spare_schedule \<noteq> None"
    by code_simp
  then obtain ths s where "play demo_env demo_config (\<lambda>c l. apart (fst c) \<and> leaves_alone demo_env ''b'' ''k'' l)
      ([], snd ?put) spare_schedule = Some (ths, s)" by auto
  note run = play_run [OF this, unfolded leaves_alone_iff]
  from overlapping_requests_spare_objects [where E = demo_env, unfolded demo_env_simps, OF demo_pin_laws demo_content_laws start(1) run]
  show ?thesis using run start(2) by auto
qed

end
