(* ===== verification/Spec2Isabelle.thy ===== *)
theory Spec2Isabelle imports StoreProps PutProps UploadProps DeleteProps ReadProps AuthProps BindingProps ChunkGrammar SystemProps RoutingProps ServerObjectProps TreeMirrorProps LifecycleProps RestartProps ConcurrencyProps ObjectStoreProps begin

text \<open>
  Verification of \<^verbatim>\<open>aricanduva\<close>, an S3 endpoint that keeps objects on an IPFS node and
  their metadata in an SQLite table. Paths below are relative to \<^verbatim>\<open>src/src\<close>.

  \<^bold>\<open>The program.\<close> \<^verbatim>\<open>main.rs\<close> reads a configuration, opens the database, and serves the
  routes of \<^verbatim>\<open>s3/mod.rs\<close>. A \<open>PUT\<close> adds its body to the node, links it in the node's file
  tree (MFS) under \<^verbatim>\<open>/prefix/bucket/key\<close>, records the content identifier in the table, and leaves
  it to a spawned task to unpin what was there before. A \<open>GET\<close> looks the identifier up and either
  streams the content from the node or redirects to a public gateway. A \<open>DELETE\<close> removes link, row and,
  when no other row has the identifier, the pin; a spawned task removes directories that became empty.
  Multipart uploads are held in a map that is meant to be limited until they are completed as one \<open>PUT\<close>. When
  credentials are configured, a layer around the S3 routes checks AWS signatures and decodes streaming
  bodies.

  \<^bold>\<open>Where it is modelled.\<close>
  \<^item> \<open>Prelude\<close>, \<open>Numbers\<close>: bytes and strings, results, and what the sources use of Rust's
    \<open>str\<close>, integer and UTF-8 functions.
  \<^item> \<open>Http\<close>: statuses, the response builder with its error, and the handlers' results
    (\<open>failure + response\<close>; a panic is a failure).
  \<^item> \<open>Slots\<close>: \<^verbatim>\<open>limited_slots.rs\<close>; locale \<open>slot_map\<close>, interpreted as \<open>limited\<close>.
  \<^item> \<open>Database\<close>: \<^verbatim>\<open>database.rs\<close> and the schema; the table is a list of rows, each statement a
    function on it, \<open>LIKE\<close> included; locale \<open>object_store\<close>, interpreted as \<open>sql\<close>.
  \<^item> \<open>Ipfs\<close>: \<^verbatim>\<open>ipfs.rs\<close>; locales \<open>pin_store\<close>, \<open>mfs_links\<close> and \<open>content_store\<close>
    for what the handlers rely on, interpreted on the client as \<open>node\<close>, \<open>tree\<close> and \<open>blocks\<close>.
  \<^item> \<open>Config\<close>: \<^verbatim>\<open>cli.rs\<close>, the \<open>Debug\<close> output, and \<open>main\<close>'s choice of command.
  \<^item> \<open>App\<close>: the state \<open>App\<close> of \<^verbatim>\<open>main.rs\<close>, the record \<open>env\<close> of everything outside
    the repository, the helpers of \<^verbatim>\<open>s3/mod.rs\<close>.
  \<^item> \<open>PutObject\<close>, \<open>Multipart\<close>, \<open>DeleteObject\<close>, \<open>ReadObject\<close>: the handlers of
    \<^verbatim>\<open>s3/put_object.rs\<close>, \<^verbatim>\<open>s3/post_object.rs\<close>, \<^verbatim>\<open>s3/delete_object.rs\<close> with
    \<^verbatim>\<open>s3/post_bucket.rs\<close>, and \<^verbatim>\<open>s3/get_object.rs\<close>, \<^verbatim>\<open>s3/head_object.rs\<close>,
    \<^verbatim>\<open>s3/get_bucket.rs\<close> with \<^verbatim>\<open>info.rs\<close>.
  \<^item> \<open>Chunks\<close>, \<open>SigV4\<close>: \<^verbatim>\<open>s3/authorization.rs\<close>, with the layer and the service it is made
    into; \<open>SigV4Client\<close> is the AWS documentation's own procedure for the client, as the specification to
    compare with. \<open>ChunkGrammar\<close> is the grammar of the bodies that decode; \<open>SigV4Binding\<close> reads the
    canonical request back.
  \<^item> \<open>Startup\<close>, \<open>Server\<close>: opening the database, \<open>run\<close>, routes, extractors and layers, and
    the running server as the step relation \<open>server_step\<close>; locale \<open>handler_invariant\<close>.
  \<^item> \<open>Invariants\<close>: its interpretation \<open>pinned\<close>.
  \<^item> \<open>Process\<close>, \<open>Lifecycle\<close>: \<open>main\<close> and \<open>run\<close> of \<^verbatim>\<open>main.rs\<close> up to the listening
    socket, and the serving phase with its graceful shutdown as the step relation \<open>life_step\<close>, whose requests and
    tasks are the threads of \<open>Concurrency\<close>, so that the signal and a kill find them half done.
  \<^item> \<open>Concurrency\<close>: the handlers and tasks cut at their \<open>await\<close> points (\<open>pc\<close>, one definition per
    call), and any number of them interleaved and cancelled (\<open>conc_step\<close>, \<open>conc_run\<close>); \<open>apart\<close>: no thread is
    counting or unpinning a content that a \<open>PUT\<close> in progress has added.
  \<^item> \<open>ObjectStore\<close>: the abstract specification, a map from bucket and key to bytes and content type
    (\<open>objects\<close>) with what each request may do to it and answer (\<open>spec\<close>); locale
    \<open>durable_content\<close>, which extends \<open>pin_store\<close>, interpreted as \<open>durable\<close>;
    \<open>ConcurrentObjects\<close> takes it to the interleaved system, \<open>ServerObjects\<close> to HTTP requests: which
    operation a request is (\<open>request_op\<close>), and the objects along \<open>server_run\<close>.
  \<^item> \<open>TreeMirror\<close>: the file tree as a mirror of the table (\<open>mirrored\<close>), for objects with places of their own
    (\<open>well_placed\<close>), along the runs in which no trimming task is late (\<open>calm_run\<close>); an object whose last change
    failed is in doubt (\<open>doubt\<close>) and excepted.
  \<^item> \<open>Instances\<close>: a concrete instance of every parameter (a small in-memory node, table and map)
    that satisfies all the laws, on which the witnesses are evaluated.

  \<^bold>\<open>How state and effects are modelled.\<close> A handler is a function from its arguments and
  \<open>app_state\<close> (table and pool, node, slot map, list of spawned tasks) to its result and the new state;
  every \<open>?\<close>, early return and panic is a branch. In \<open>server_run\<close> a handler or task is one step, so its properties are
  about requests that do not overlap; in \<open>conc_run\<close> each statement and node call is a step, and one
  statement or call is atomic (the health check and \<open>GetBucket\<close>, which change no data, are left out there, and one step in
  \<open>life_step\<close>). The current time and random identifiers are arguments. SQLx, the IPFS RPC library,
  DashMap, typed_path, quick_xml, axum and the cryptography are parameters, the fields of
  \<open>env\<close>, \<open>sig_env\<close>, \<open>http_env\<close> and \<open>init_env\<close>; what is assumed of them is named
  (\<open>pin_laws\<close>, \<open>mfs_laws\<close>, \<open>content_laws\<close>, \<open>dashmap_laws\<close>, \<open>durable_file\<close>,
  \<open>percent_laws\<close>, \<open>match_laws\<close>, \<open>close_laws\<close>, ...), stated with the component, and met by the instance.
  Any statement and any RPC call may fail at any time. A statement that fails changes no row; a call to
  the file tree that fails may still have changed what it was to change, the destination of a \<open>cp\<close> or what lies at
  or below the path of an \<open>rm\<close>, in any way. Nothing bounds the capacity of the slot map: it is the map's own
  figure, and an insert may make it grow. No definition uses fuel: the decoder's loop
  terminates because every chunk consumes input, and a request takes at most \<open>weight\<close> steps: five for each
  key it deletes, five at most otherwise, and one for each directory above the key in the trimming task, with
  two more.

  \<^bold>\<open>What is proved.\<close>
  \<^item> \<open>StoreProps\<close>: the table refines a map; the directory search is safe, and where it is not exact;
    when the slot map admits an entry, and that it keeps it.
  \<^item> \<open>PutProps\<close>, \<open>UploadProps\<close>, \<open>DeleteProps\<close>, \<open>ReadProps\<close>: the effect of every
    handler on table, tree, pins, slots and tasks, on success and on every error; round trips from
    \<open>PUT\<close> to \<open>GET\<close> and \<open>HEAD\<close>; a multipart upload equals one \<open>PUT\<close>; and exact
    conditions of the cases in which the code departs from what S3 promises.
  \<^item> \<open>AuthProps\<close>: requests signed by the documentation are accepted, others are refused without any
    effect; the streaming decoder inverts the framing, is bounded, and when it panics.
  \<^item> \<open>BindingProps\<close>: an accepted signature determines everything that is signed, up to collisions; a path
    that is encoded is refused; the body is not signed. \<open>ChunkGrammar\<close>: the decoder accepts exactly the
    framed bodies.
  \<^item> \<open>SystemProps\<close>: start-up, and the invariant of every run: referenced content stays pinned.
    \<open>RoutingProps\<close>: which handler answers which request, and with which arguments. \<open>ServerObjectProps\<close>: every row describes its content, and a stored object is served until a request touches it.
    \<open>TreeMirrorProps\<close>: the tree mirrors the table, but for the objects whose last change failed; and how a late
    trimming task, or one that works on another spelling of a key, breaks it.
  \<^item> \<open>LifecycleProps\<close>: what the process does at its start; at shutdown every accepted request ends,
    but those that still need the table with an error, since the pool is closed first, and the process stops after a
    bounded number of steps of the requests. \<open>RestartProps\<close>: objects survive
    any number of restarts on one database path (\<open>history\<close>), after a graceful end or a kill in the middle of requests.
  \<^item> \<open>ObjectStoreProps\<close>: every request and task refines the specification; a stored object lasts until a
    request touches it, also when requests overlap but for the race in which \<open>apart\<close> fails.
  \<^item> \<open>ConcurrencyProps\<close>: the steps between calls refine the handlers; and the interleavings that lose content or a link, leak content,
    or exceed the slot map's capacity, each stated for every state in which the race is open.

  \<^bold>\<open>Not modelled.\<close> Logging; the installation of signal handlers and the sockets behind the accept loop
  (accepting, answering and the end of \<^verbatim>\<open>axum::serve\<close> are steps of \<open>life_step\<close>); the
  \<^verbatim>\<open>conf\<close> crate's parsing of arguments and environment, whose result \<open>cli\<close> is an argument; the text of
  the XML payloads of \<open>DeleteObjects\<close> and of the JSON report (their types are modelled, quick_xml and serde are
  parameters); the internals of the CORS, compression and tracing layers; the migration runner. They are I/O or
  code of libraries that the sources only call. Two simplifications: \<open>str::to_lowercase\<close> is modelled on ASCII, so
  names of headers and parameters with other letters are compared as they are; and memory is unbounded, so a chunk
  size up to the largest \<open>isize\<close> is an error when the body ends early, where the program may be stopped for want
  of memory.
\<close>

end
